(* ===== verification/Go_Prelude.thy ===== *)
theory Go_Prelude
  imports Main "HOL-Library.Sublist"
begin

text \<open>
  Generic material the components share: the result type of fallible Go functions, loops over
  slices (splitting a list into fields, trimming it, joining it with a separator), the binary
  search that the SDK writes three times, and the lemmas about them.

  Conventions of the whole development.  A Go \<^verbatim>\<open>(T, error)\<close> result is a value of the sum
  type \<open>'e + 'a\<close>: \<open>Inl e\<close> for the error, \<open>Inr x\<close> for the value.  A Go \<^verbatim>\<open>error\<close> result is
  an \<open>'e option\<close>: \<open>None\<close> for \<^verbatim>\<open>nil\<close>.  A Go \<^verbatim>\<open>int\<close> that can be
  negative where it is compared is an \<open>int\<close>; a length or an index is a \<open>nat\<close>.
\<close>

named_theorems go_defs \<open>definitions of the model that evaluation unfolds\<close>

section \<open>Results\<close>

abbreviation is_ok :: "'e + 'a \<Rightarrow> bool" where
  "is_ok r \<equiv> \<not> isl r"

lemma is_okE [elim?]: "is_ok r \<Longrightarrow> (\<And>x. r = Inr x \<Longrightarrow> P) \<Longrightarrow> P"
  by (cases r) auto

lemma sum_case_InrD [dest?]:
  "(case r of Inl e \<Rightarrow> Inl (f e) | Inr x \<Rightarrow> g x) = Inr y \<Longrightarrow> \<exists>x. r = Inr x \<and> g x = Inr y"
  by (cases r) auto

section \<open>Trimming and splitting lists\<close>

definition drop_while_end :: "('a \<Rightarrow> bool) \<Rightarrow> 'a list \<Rightarrow> 'a list" where
  "drop_while_end P xs = rev (dropWhile P (rev xs))"

lemma drop_while_end_Nil [simp]: "drop_while_end P [] = []"
  by (simp add: drop_while_end_def)

lemma drop_while_end_snoc [simp]:
  "drop_while_end P (xs @ [x]) = (if P x then drop_while_end P xs else xs @ [x])"
  by (simp add: drop_while_end_def)

lemma drop_while_end_split:
  "\<exists>ys. xs = drop_while_end P xs @ ys \<and> (\<forall>y \<in> set ys. P y)"
proof (induction xs rule: rev_induct)
  case Nil
  then show ?case by simp
next
  case (snoc x xs)
  show ?case
  proof (cases "P x")
    case True
    from snoc obtain ys where "xs = drop_while_end P xs @ ys" "\<forall>y \<in> set ys. P y" by blast
    with True show ?thesis by (intro exI [of _ "ys @ [x]"]) auto
  next
    case False
    then show ?thesis by (intro exI [of _ "[]"]) simp
  qed
qed

lemma drop_while_end_prefix [intro, simp]: "prefix (drop_while_end P xs) xs"
  using drop_while_end_split [of xs P] by (metis prefixI)

lemma drop_while_end_take: "drop_while_end P xs = take (length (drop_while_end P xs)) xs"
  using drop_while_end_prefix [of P xs] by (metis append_eq_conv_conj prefixE)

lemma drop_while_end_eq_Nil: "drop_while_end P xs = [] \<longleftrightarrow> (\<forall>x \<in> set xs. P x)"
  by (simp add: drop_while_end_def)

lemma drop_while_end_map: "drop_while_end P (map f xs) = map f (drop_while_end (P \<circ> f) xs)"
  by (simp add: drop_while_end_def rev_map dropWhile_map)

lemma filter_drop_while_end:
  "filter (\<lambda>x. \<not> P x) (drop_while_end P xs) = filter (\<lambda>x. \<not> P x) xs"
  by (induction xs rule: rev_induct) auto

lemma filter_dropWhile: "filter (\<lambda>x. \<not> P x) (dropWhile P xs) = filter (\<lambda>x. \<not> P x) xs"
  by (induction xs) auto

text \<open>The loop of \<^verbatim>\<open>strings.FieldsFunc\<close>: the maximal runs of elements outside \<open>P\<close>.\<close>

function fields_by :: "('a \<Rightarrow> bool) \<Rightarrow> 'a list \<Rightarrow> 'a list list" where
  "fields_by P [] = []"
| "fields_by P (x # xs) =
     (if P x then fields_by P xs
      else (x # takeWhile (\<lambda>y. \<not> P y) xs) # fields_by P (dropWhile (\<lambda>y. \<not> P y) xs))"
  by pat_completeness auto
termination
  by (relation "measure (\<lambda>(P, xs). length xs)") (auto simp: length_dropWhile_le le_imp_less_Suc)

lemma fields_by_nonempty: "w \<in> set (fields_by P xs) \<Longrightarrow> w \<noteq> []"
  by (induction P xs rule: fields_by.induct) (auto split: if_splits)

lemma fields_by_elems: "w \<in> set (fields_by P xs) \<Longrightarrow> y \<in> set w \<Longrightarrow> \<not> P y"
  by (induction P xs rule: fields_by.induct) (auto split: if_splits dest: set_takeWhileD)

lemma concat_fields_by: "concat (fields_by P xs) = filter (\<lambda>x. \<not> P x) xs"
proof (induction P xs rule: fields_by.induct)
  case (2 P x xs)
  have "filter (\<lambda>y. \<not> P y) xs =
      takeWhile (\<lambda>y. \<not> P y) xs @ filter (\<lambda>y. \<not> P y) (dropWhile (\<lambda>y. \<not> P y) xs)"
    by (induction xs) auto
  with 2 show ?case by auto
qed simp

lemma fields_by_single:
  assumes "xs \<noteq> []" "\<forall>x \<in> set xs. \<not> P x"
  shows "fields_by P xs = [xs]"
proof -
  have "takeWhile (\<lambda>y. \<not> P y) (tl xs) = tl xs" "dropWhile (\<lambda>y. \<not> P y) (tl xs) = []"
    using assms by (auto simp: takeWhile_eq_all_conv dropWhile_eq_Nil_conv dest: list.set_sel(2))
  moreover have "xs = hd xs # tl xs" "\<not> P (hd xs)" using assms by auto
  ultimately show ?thesis by (metis fields_by.simps)
qed

lemma fields_by_map: "fields_by P (map f xs) = map (map f) (fields_by (P \<circ> f) xs)"
proof (induction "length xs" arbitrary: xs rule: less_induct)
  case less
  show ?case
  proof (cases xs)
    case (Cons y ys)
    have "length (dropWhile (\<lambda>x. \<not> P (f x)) ys) < length xs"
      using Cons by (simp add: length_dropWhile_le le_imp_less_Suc)
    from less [OF this] less [of ys] Cons show ?thesis
      by (simp add: takeWhile_map dropWhile_map comp_def)
  qed simp
qed

text \<open>\<^verbatim>\<open>strings.Join\<close>.\<close>

fun join :: "'a list \<Rightarrow> 'a list list \<Rightarrow> 'a list" where
  "join sep [] = []"
| "join sep [x] = x"
| "join sep (x # y # zs) = x @ sep @ join sep (y # zs)"

lemma set_join: "set (join sep xs) \<subseteq> set sep \<union> \<Union> (set (map set xs))"
  by (induction sep xs rule: join.induct) auto

lemma map_join: "map f (join sep xs) = join (map f sep) (map (map f) xs)"
  by (induction sep xs rule: join.induct) auto

lemma join_Cons: "xs \<noteq> [] \<Longrightarrow> join sep (x # xs) = x @ sep @ join sep xs"
  by (cases xs) auto

lemma filter_join:
  "\<forall>s \<in> set sep. \<not> P s \<Longrightarrow> filter P (join sep xs) = concat (map (filter P) xs)"
  by (induction sep xs rule: join.induct) (auto simp: filter_empty_conv)

text \<open>Joining the fields of a list and splitting again changes nothing.\<close>

lemma fields_by_append_sep:
  assumes "w \<noteq> []" "\<forall>x \<in> set w. \<not> P x" "P s"
  shows "fields_by P (w @ s # ys) = w # fields_by P ys"
proof -
  obtain a w' where w: "w = a # w'" using assms(1) by (cases w) auto
  have "takeWhile (\<lambda>y. \<not> P y) (w' @ s # ys) = w'"
    using assms w by (simp add: takeWhile_append)
  moreover have "dropWhile (\<lambda>y. \<not> P y) (w' @ s # ys) = s # ys"
    using assms w by (simp add: dropWhile_append)
  ultimately show ?thesis using assms w by simp
qed

lemma fields_by_join:
  assumes "\<forall>w \<in> set ws. w \<noteq> [] \<and> (\<forall>x \<in> set w. \<not> P x)" "P s"
  shows "fields_by P (join [s] ws) = ws"
  using assms
proof (induction "[s]" ws rule: join.induct)
  case (2 x)
  then show ?case by (simp add: fields_by_single)
next
  case (3 x y zs)
  then show ?case by (simp add: fields_by_append_sep)
qed simp

lemma fields_by_idem: "P s \<Longrightarrow> fields_by P (join [s] (fields_by P xs)) = fields_by P xs"
  by (rule fields_by_join) (auto dest: fields_by_nonempty fields_by_elems)

text \<open>\<^verbatim>\<open>strings.Split\<close> at a one-byte separator: never empty, and undone by \<open>join\<close>.\<close>

fun split_on :: "'a \<Rightarrow> 'a list \<Rightarrow> 'a list list" where
  "split_on c [] = [[]]"
| "split_on c (x # xs) =
     (if x = c then [] # split_on c xs
      else (case split_on c xs of [] \<Rightarrow> [[x]] | w # ws \<Rightarrow> (x # w) # ws))"

lemma split_on_nonempty [simp]: "split_on c xs \<noteq> []"
  by (induction xs) (auto split: list.splits)

lemma join_split_on: "join [c] (split_on c xs) = xs"
proof (induction xs)
  case (Cons x xs)
  obtain w ws where "split_on c xs = w # ws" by (cases "split_on c xs") auto
  with Cons show ?case by (cases ws) auto
qed simp

lemma split_on_no_sep: "w \<in> set (split_on c xs) \<Longrightarrow> c \<notin> set w"
proof (induction xs arbitrary: w)
  case (Cons x xs)
  obtain v vs where "split_on c xs = v # vs" by (cases "split_on c xs") auto
  with Cons show ?case by (auto split: if_splits)
qed simp

lemma split_on_notin: "c \<notin> set xs \<Longrightarrow> split_on c xs = [xs]"
  by (induction xs) auto

lemma split_on_append: "c \<notin> set xs \<Longrightarrow> split_on c (xs @ c # ys) = xs # split_on c ys"
  by (induction xs) auto

lemma split_on_join:
  "xs \<noteq> [] \<Longrightarrow> \<forall>x \<in> set xs. c \<notin> set x \<Longrightarrow> split_on c (join [c] xs) = xs"
  by (induction "[c]" xs rule: join.induct) (auto simp: split_on_notin split_on_append)

section \<open>The binary search of the SDK\<close>

text \<open>
  The loop \<^verbatim>\<open>for lo < hi { mid := (lo + hi + 1) / 2; if fits(mid) { lo = mid } else
  { hi = mid - 1 } }\<close>, which \<^verbatim>\<open>sdk/go/render.go\<close> writes in three functions.
\<close>

function search_max :: "(nat \<Rightarrow> bool) \<Rightarrow> nat \<Rightarrow> nat \<Rightarrow> nat" where
  "search_max fits lo hi =
     (if lo < hi then
        if fits ((lo + hi + 1) div 2) then search_max fits ((lo + hi + 1) div 2) hi
        else search_max fits lo ((lo + hi + 1) div 2 - 1)
      else lo)"
  by pat_completeness auto
termination
  by (relation "measure (\<lambda>(fits, lo, hi). hi - lo)") auto

declare search_max.simps [simp del]

lemma search_max_stop: "\<not> lo < hi \<Longrightarrow> search_max fits lo hi = lo"
  by (simp add: search_max.simps [of fits lo hi])

lemma search_max_hit:
  "lo < hi \<Longrightarrow> fits ((lo + hi + 1) div 2) \<Longrightarrow>
     search_max fits lo hi = search_max fits ((lo + hi + 1) div 2) hi"
  by (subst search_max.simps) simp

lemma search_max_miss:
  "lo < hi \<Longrightarrow> \<not> fits ((lo + hi + 1) div 2) \<Longrightarrow>
     search_max fits lo hi = search_max fits lo ((lo + hi + 1) div 2 - 1)"
  by (subst search_max.simps) simp

text \<open>The three ways one round of the loop can go, as an induction rule.\<close>

lemma search_max_induct [case_names stop hit miss]:
  assumes "\<And>lo hi. \<not> lo < hi \<Longrightarrow> P lo hi lo"
    and "\<And>lo hi mid r. lo < hi \<Longrightarrow> lo < mid \<Longrightarrow> mid \<le> hi \<Longrightarrow> fits mid \<Longrightarrow> P mid hi r \<Longrightarrow> P lo hi r"
    and "\<And>lo hi mid r. lo < hi \<Longrightarrow> lo < mid \<Longrightarrow> mid \<le> hi \<Longrightarrow> \<not> fits mid \<Longrightarrow> P lo (mid - 1) r \<Longrightarrow> P lo hi r"
  shows "P lo hi (search_max fits lo hi)"
proof (induction "hi - lo" arbitrary: lo hi rule: less_induct)
  case less
  let ?mid = "(lo + hi + 1) div 2"
  show ?case
  proof (cases "lo < hi")
    case True
    then have mid: "lo < ?mid" "?mid \<le> hi" by linarith+
    show ?thesis
    proof (cases "fits ?mid")
      case hit: True
      have "hi - ?mid < hi - lo" using mid True by linarith
      from less [OF this] assms(2) [OF True mid hit] search_max_hit [OF True, of fits] hit
      show ?thesis by simp
    next
      case miss: False
      have "?mid - 1 - lo < hi - lo" using mid True by linarith
      from less [OF this] assms(3) [OF True mid miss] search_max_miss [OF True, of fits] miss
      show ?thesis by simp
    qed
  next
    case False
    with assms(1) show ?thesis by (simp add: search_max_stop)
  qed
qed

lemma search_max_bounds: "lo \<le> hi \<Longrightarrow> lo \<le> search_max fits lo hi \<and> search_max fits lo hi \<le> hi"
  by (rule search_max_induct [where P = "\<lambda>lo hi r. lo \<le> hi \<longrightarrow> lo \<le> r \<and> r \<le> hi", rule_format]) force+

text \<open>Whatever the predicate, the answer is one that was probed, or the start.\<close>

lemma search_max_sound: "search_max fits lo hi = lo \<or> fits (search_max fits lo hi)"
  by (rule search_max_induct [where P = "\<lambda>lo hi r. r = lo \<or> fits r"]) auto

text \<open>When smaller sizes fit whenever larger ones do, the answer is the largest that fits.\<close>

lemma search_max_largest:
  assumes mono: "\<And>m n. m \<le> n \<Longrightarrow> fits n \<Longrightarrow> fits m"
  shows "lo \<le> hi \<Longrightarrow> n \<le> hi \<Longrightarrow> fits n \<Longrightarrow> n \<le> search_max fits lo hi"
proof (rule search_max_induct [where P = "\<lambda>lo hi r. lo \<le> hi \<longrightarrow> n \<le> hi \<longrightarrow> fits n \<longrightarrow> lo \<le> r \<and> n \<le> r",
      rule_format, of fits lo hi, THEN conjunct2])
  fix lo hi mid r
  assume "lo < mid" "\<not> fits mid" "fits n"
    and IH: "lo \<le> mid - 1 \<Longrightarrow> n \<le> mid - 1 \<Longrightarrow> fits n \<Longrightarrow> lo \<le> r \<and> n \<le> r"
  from mono \<open>fits n\<close> \<open>\<not> fits mid\<close> have "n < mid" by (meson not_le)
  with \<open>lo < mid\<close> IH \<open>fits n\<close> show "lo \<le> r \<and> n \<le> r" by simp
qed auto

text \<open>
  The interface between the search and the measures it searches: a budget whose law is that
  shrinking a size keeps it within the budget.
\<close>

locale size_budget =
  fixes fits :: "nat \<Rightarrow> bool"
  assumes fits_mono: "m \<le> n \<Longrightarrow> fits n \<Longrightarrow> fits m"
begin

lemma found_largest: "n \<le> hi \<Longrightarrow> fits n \<Longrightarrow> n \<le> search_max fits 0 hi"
  using fits_mono by (intro search_max_largest) blast+

lemma found_fits: "fits 0 \<Longrightarrow> fits (search_max fits 0 hi)"
  using search_max_sound [of fits 0 hi] by auto

lemma fits_iff_found: "fits 0 \<Longrightarrow> n \<le> hi \<Longrightarrow> fits n \<longleftrightarrow> n \<le> search_max fits 0 hi"
  using found_largest found_fits fits_mono by blast

end

end
