(* ===== verification/Go_Utf8.thy ===== *)
theory Go_Utf8
  imports Go_Prelude
begin

text \<open>
  Go strings.  A Go \<^verbatim>\<open>string\<close> is a sequence of bytes, an Isabelle \<^typ>\<open>string\<close> is a
  list of 8-bit characters, so one is the other, \<^verbatim>\<open>len(s)\<close> is \<open>length s\<close>, and a string
  may hold bytes that are no text.  A \<^verbatim>\<open>rune\<close> is a code point, here a natural number.

  Ranging over a string (\<^verbatim>\<open>for i, r := range s\<close>) and \<^verbatim>\<open>[]rune(s)\<close> decode UTF-8 as
  \<^verbatim>\<open>unicode/utf8\<close> does: \<open>decode_rune\<close> gives the first rune and its width, and a byte that
  starts no valid sequence is the rune U+FFFD of width one.  \<open>chunks\<close> pairs every rune of a
  string with the bytes it was decoded from; the functions of package \<^verbatim>\<open>strings\<close> that work
  rune by rune are defined over it, so they keep the bytes of what they keep.
\<close>

type_synonym rune = nat

section \<open>UTF-8\<close>

definition RuneError :: rune where
  "RuneError = 0xFFFD"

definition valid_rune :: "rune \<Rightarrow> bool" where
  "valid_rune r \<longleftrightarrow> r < 0xD800 \<or> (0xE000 \<le> r \<and> r \<le> 0x10FFFF)"

definition is_cont :: "nat \<Rightarrow> bool" where
  "is_cont b \<longleftrightarrow> 0x80 \<le> b \<and> b \<le> 0xBF"

text \<open>Length of the sequence a first byte announces; 0 for a byte that starts none.\<close>

definition seq_len :: "nat \<Rightarrow> nat" where
  "seq_len b =
     (if b < 0x80 then 1 else if b < 0xC2 then 0 else if b \<le> 0xDF then 2
      else if b \<le> 0xEF then 3 else if b \<le> 0xF4 then 4 else 0)"

text \<open>The second byte is restricted after \<open>E0\<close>, \<open>ED\<close>, \<open>F0\<close> and \<open>F4\<close>.\<close>

definition accept_second :: "nat \<Rightarrow> nat \<Rightarrow> bool" where
  "accept_second b0 b1 \<longleftrightarrow>
     is_cont b1 \<and> (b0 = 0xE0 \<longrightarrow> 0xA0 \<le> b1) \<and> (b0 = 0xED \<longrightarrow> b1 \<le> 0x9F) \<and>
     (b0 = 0xF0 \<longrightarrow> 0x90 \<le> b1) \<and> (b0 = 0xF4 \<longrightarrow> b1 \<le> 0x8F)"

definition byte_at :: "string \<Rightarrow> nat \<Rightarrow> nat" where
  "byte_at s i = of_char (s ! i)"

text \<open>Whether the first \<open>n\<close> bytes are a well-formed sequence of length \<open>n\<close>.\<close>

definition well_formed :: "string \<Rightarrow> nat \<Rightarrow> bool" where
  "well_formed s n \<longleftrightarrow>
     n \<le> length s \<and> accept_second (byte_at s 0) (byte_at s 1) \<and>
     (3 \<le> n \<longrightarrow> is_cont (byte_at s 2)) \<and> (4 \<le> n \<longrightarrow> is_cont (byte_at s 3))"

definition decode_rune :: "string \<Rightarrow> rune \<times> nat" where
  "decode_rune s =
     (let b0 = byte_at s 0; n = seq_len b0 in
      if s = [] then (RuneError, 0)
      else if n = 1 then (b0, 1)
      else if n = 0 \<or> \<not> well_formed s n then (RuneError, 1)
      else if n = 2 then ((b0 mod 32) * 64 + byte_at s 1 mod 64, 2)
      else if n = 3 then
        ((b0 mod 16) * 4096 + (byte_at s 1 mod 64) * 64 + byte_at s 2 mod 64, 3)
      else
        ((b0 mod 8) * 262144 + (byte_at s 1 mod 64) * 4096 + (byte_at s 2 mod 64) * 64
           + byte_at s 3 mod 64, 4))"

definition encode_rune :: "rune \<Rightarrow> string" where
  "encode_rune r0 =
     (let r = (if valid_rune r0 then r0 else RuneError) in
      if r < 0x80 then [char_of r]
      else if r < 0x800 then [char_of (0xC0 + r div 64), char_of (0x80 + r mod 64)]
      else if r < 0x10000 then
        [char_of (0xE0 + r div 4096), char_of (0x80 + r div 64 mod 64), char_of (0x80 + r mod 64)]
      else
        [char_of (0xF0 + r div 262144), char_of (0x80 + r div 4096 mod 64),
         char_of (0x80 + r div 64 mod 64), char_of (0x80 + r mod 64)])"

lemma decode_rune_width: "s \<noteq> [] \<Longrightarrow> 1 \<le> snd (decode_rune s)"
  by (simp add: decode_rune_def Let_def)

lemma seq_len_cases: "seq_len b \<in> {0, 1, 2, 3, 4}"
  by (simp add: seq_len_def)

lemma decode_rune_width_le: "s \<noteq> [] \<Longrightarrow> snd (decode_rune s) \<le> length s"
  using seq_len_cases [of "byte_at s 0"]
  by (auto simp: decode_rune_def Let_def well_formed_def Suc_le_eq)

text \<open>A string cut after its first rune, or at any later byte, still starts with that rune.\<close>

lemma byte_at_take: "i < n \<Longrightarrow> byte_at (take n s) i = byte_at s i"
  by (simp add: byte_at_def)

lemma decode_rune_take:
  assumes "s \<noteq> []" "snd (decode_rune s) \<le> k"
  shows "decode_rune (take k s) = decode_rune s"
proof -
  have k: "1 \<le> k" using decode_rune_width [of s] assms by simp
  then have ne: "take k s \<noteq> []" using assms(1) by auto
  have b0: "byte_at (take k s) 0 = byte_at s 0" using k by (simp add: byte_at_take)
  let ?n = "seq_len (byte_at s 0)"
  show ?thesis
  proof (cases "?n = 0 \<or> ?n = 1 \<or> well_formed s ?n \<and> ?n \<le> k")
    case True
    then consider "?n = 0" | "?n = 1" | "well_formed s ?n" "2 \<le> ?n" "?n \<le> k"
      using seq_len_cases [of "byte_at s 0"] by auto
    then show ?thesis
    proof cases
      case 3
      have "well_formed (take k s) ?n = well_formed s ?n"
        using 3 by (simp add: well_formed_def byte_at_take)
      with 3 b0 ne assms(1) show ?thesis by (simp add: decode_rune_def Let_def byte_at_take)
    qed (use ne assms(1) in \<open>simp_all add: decode_rune_def Let_def b0\<close>)
  next
    case False
    have "\<not> well_formed s ?n"
    proof
      assume wf: "well_formed s ?n"
      then have "snd (decode_rune s) = ?n"
        using False assms(1) seq_len_cases [of "byte_at s 0"]
        by (auto simp: decode_rune_def Let_def)
      with False wf assms(2) show False by simp
    qed
    moreover have "well_formed (take k s) ?n \<Longrightarrow> well_formed s ?n"
      using False seq_len_cases [of "byte_at s 0"]
      by (auto simp: well_formed_def byte_at_take b0)
    ultimately show ?thesis using False ne assms(1) by (auto simp: decode_rune_def Let_def b0)
  qed
qed

text \<open>
  A string that starts with a byte of its own (not a continuation byte), or is empty, does not
  change how the string before it is decoded.
\<close>

definition starts_rune :: "string \<Rightarrow> bool" where
  "starts_rune t \<longleftrightarrow> t = [] \<or> \<not> is_cont (byte_at t 0)"

lemma byte_at_append: "byte_at (s @ t) i = (if i < length s then byte_at s i else byte_at t (i - length s))"
  by (simp add: byte_at_def nth_append)

lemma well_formed_append:
  assumes "s \<noteq> []" "starts_rune t" "n \<in> {2, 3, 4}"
  shows "well_formed (s @ t) n = well_formed s n"
proof (cases "n \<le> length s")
  case True
  with assms show ?thesis by (auto simp: well_formed_def byte_at_append)
next
  case False
  have "\<not> well_formed (s @ t) n"
  proof
    assume wf: "well_formed (s @ t) n"
    then have "t \<noteq> []" using False by (auto simp: well_formed_def)
    then have "\<not> is_cont (byte_at (s @ t) (length s))"
      using assms(2) by (simp add: starts_rune_def byte_at_append)
    moreover have "length s \<in> {1, 2, 3}" "length s < n"
      using False assms(1,3) by (auto simp: le_Suc_eq not_le less_Suc_eq numeral_eq_Suc)
    ultimately show False using wf by (auto simp: well_formed_def accept_second_def)
  qed
  with False show ?thesis by (simp add: well_formed_def)
qed

lemma decode_rune_append:
  assumes "s \<noteq> []" "starts_rune t"
  shows "decode_rune (s @ t) = decode_rune s"
proof -
  have b0: "byte_at (s @ t) 0 = byte_at s 0" using assms(1) by (simp add: byte_at_append)
  let ?n = "seq_len (byte_at s 0)"
  consider "?n = 0" | "?n = 1" | "?n \<in> {2, 3, 4}"
    using seq_len_cases [of "byte_at s 0"] by auto
  then show ?thesis
  proof cases
    case 3
    show ?thesis
    proof (cases "well_formed s ?n")
      case True
      then have "?n \<le> length s" by (simp add: well_formed_def)
      with 3 True show ?thesis
        using well_formed_append [OF assms 3] assms(1)
        by (auto simp: decode_rune_def Let_def b0 byte_at_append)
    next
      case False
      with 3 show ?thesis
        using well_formed_append [OF assms 3] assms(1) by (auto simp: decode_rune_def Let_def b0)
    qed
  qed (use assms(1) in \<open>simp_all add: decode_rune_def Let_def b0\<close>)
qed

text \<open>Encoding a rune and decoding it again gives the rune back, whatever follows it.\<close>

lemma byte_at_simps [simp]:
  "byte_at (c # s) 0 = of_char c"
  "byte_at (c # s) (Suc i) = byte_at s i"
  "byte_at (c # s) (numeral k) = byte_at s (numeral k - 1)"
  by (simp_all add: byte_at_def nth_Cons')

lemma mod_offset: "x < n \<Longrightarrow> (k * n + x) mod n = (x :: nat)"
  by simp

lemma cont_byte: "x < 64 \<Longrightarrow> is_cont (0x80 + x) \<and> (0x80 + x) mod 64 = x"
  using mod_offset [of x 64 2] by (simp add: is_cont_def)

lemma decode2:
  assumes "2 \<le> a" "a < 32" "c < 64"
  shows "decode_rune (char_of (0xC0 + a) # char_of (0x80 + c) # t) = (a * 64 + c, 2)"
proof -
  have "(192 + a) mod 32 = a" using mod_offset [of a 32 6] assms by simp
  with assms cont_byte [of c] show ?thesis
    by (simp add: decode_rune_def seq_len_def Let_def well_formed_def accept_second_def)
qed

lemma decode3:
  assumes "a < 16" "b < 64" "c < 64" "a = 0 \<longrightarrow> 32 \<le> b" "a = 13 \<longrightarrow> b \<le> 31"
  shows "decode_rune (char_of (0xE0 + a) # char_of (0x80 + b) # char_of (0x80 + c) # t)
    = (a * 4096 + b * 64 + c, 3)"
proof -
  have "(224 + a) mod 16 = a" using mod_offset [of a 16 14] assms by simp
  with assms cont_byte [of c] cont_byte [of b] show ?thesis
    by (simp add: decode_rune_def seq_len_def Let_def well_formed_def accept_second_def)
qed

lemma decode4:
  assumes "a < 5" "b < 64" "c < 64" "d < 64" "a = 0 \<longrightarrow> 16 \<le> b" "a = 4 \<longrightarrow> b \<le> 15"
  shows "decode_rune (char_of (0xF0 + a) # char_of (0x80 + b) # char_of (0x80 + c)
      # char_of (0x80 + d) # t) = (a * 262144 + b * 4096 + c * 64 + d, 4)"
proof -
  have "(240 + a) mod 8 = a" using mod_offset [of a 8 30] assms by simp
  with assms cont_byte [of c] cont_byte [of b] cont_byte [of d] show ?thesis
    by (simp add: decode_rune_def seq_len_def Let_def well_formed_def accept_second_def)
qed

lemma decode_encode_rune:
  assumes "valid_rune r"
  shows "decode_rune (encode_rune r @ t) = (r, length (encode_rune r))"
proof -
  have r: "r < 0xD800 \<or> (0xE000 \<le> r \<and> r \<le> 0x10FFFF)" using assms by (simp add: valid_rune_def)
  consider "r < 0x80" | "0x80 \<le> r" "r < 0x800" | "0x800 \<le> r" "r < 0x10000" | "0x10000 \<le> r"
    by linarith
  then show ?thesis
  proof cases
    case 1
    with assms show ?thesis by (simp add: encode_rune_def decode_rune_def seq_len_def Let_def)
  next
    case 2
    have "2 \<le> r div 64" "r div 64 < 32" using 2 by auto
    from decode2 [OF this, of "r mod 64" t] 2 assms show ?thesis
      by (simp add: encode_rune_def Let_def)
  next
    case 3
    let ?a = "r div 4096" and ?b = "r div 64 mod 64" and ?c = "r mod 64"
    define q where "q = r div 64"
    have q: "?a = q div 64" "?b = q mod 64" by (simp_all add: q_def div_mult2_eq [symmetric])
    have sum: "?a * 4096 + ?b * 64 + ?c = r"
      using div_mult_mod_eq [of r 64] div_mult_mod_eq [of q 64] q q_def by linarith
    have "q < 864 \<or> 896 \<le> q" "32 \<le> q" "q < 1024" using r 3 by (auto simp: q_def)
    moreover have "q = 64 * ?a + ?b" "?b < 64" unfolding q by simp_all
    ultimately have "?a = 0 \<longrightarrow> 32 \<le> ?b" "?a = 13 \<longrightarrow> ?b \<le> 31" "?a < 16" by linarith+
    from decode3 [of ?a ?b ?c t, OF this(3) _ _ this(1,2)] 3 assms sum show ?thesis
      by (simp add: encode_rune_def Let_def)
  next
    case 4
    let ?a = "r div 262144" and ?b = "r div 4096 mod 64" and ?c = "r div 64 mod 64" and ?d = "r mod 64"
    define q where "q = r div 64"
    define p where "p = q div 64"
    have q: "r div 4096 = p" "?c = q mod 64" "?a = p div 64"
      by (simp_all add: p_def q_def div_mult2_eq [symmetric])
    have m: "r = 64 * q + ?d" "q = 64 * p + ?c" "p = 64 * ?a + ?b" "?b < 64" "?c < 64" "?d < 64"
      unfolding q(1,2,3) by (simp_all add: p_def) (simp add: q_def)
    then have sum: "?a * 262144 + ?b * 4096 + ?c * 64 + ?d = r" by linarith
    have "16 \<le> p" "p < 272" using r 4 m by linarith+
    with m(3,4) have "?a = 0 \<longrightarrow> 16 \<le> ?b" "?a = 4 \<longrightarrow> ?b \<le> 15" "?a < 5" by linarith+
    from decode4 [of ?a ?b ?c ?d t, OF this(3) _ _ _ this(1,2)] 4 assms sum show ?thesis
      by (simp add: encode_rune_def Let_def)
  qed
qed

lemma mod_window:
  assumes "k * n \<le> b" "b < k * n + n"
  shows "b = k * n + b mod (n :: nat)"
proof -
  have "b div n = k" using assms by (intro div_nat_eqI) (simp_all add: algebra_simps)
  then show ?thesis using div_mult_mod_eq [of b n] by simp
qed

lemma decode_rune_valid: "valid_rune (fst (decode_rune s))"
proof -
  let ?b = "byte_at s"
  consider "s = [] \<or> seq_len (?b 0) = 1 \<or> seq_len (?b 0) = 0 \<or> \<not> well_formed s (seq_len (?b 0))"
    | "s \<noteq> []" "seq_len (?b 0) = 2" "well_formed s 2"
    | "s \<noteq> []" "seq_len (?b 0) = 3" "well_formed s 3"
    | "s \<noteq> []" "seq_len (?b 0) = 4" "well_formed s 4"
    using seq_len_cases [of "?b 0"]
    by (cases "s = []"; cases "well_formed s (seq_len (?b 0))") auto
  then show ?thesis
  proof cases
    case 1
    then show ?thesis
      by (auto simp: decode_rune_def Let_def valid_rune_def RuneError_def seq_len_def split: if_splits)
  next
    case 2
    have "?b 0 mod 32 < 32" "?b 1 mod 64 < 64" by simp_all
    then have "?b 0 mod 32 * 64 + ?b 1 mod 64 < 0xD800" by linarith
    with 2 show ?thesis by (simp add: decode_rune_def Let_def valid_rune_def)
  next
    case 3
    let ?a = "?b 0 mod 16" and ?m = "?b 1 mod 64" and ?c = "?b 2 mod 64"
    have a: "?b 0 = 224 + ?a" "?a < 16"
      using 3(2) mod_window [of 14 16 "?b 0"] by (simp_all add: seq_len_def split: if_splits)
    have m: "?b 1 = 128 + ?m"
      using 3(3) mod_window [of 2 64 "?b 1"] by (simp add: well_formed_def accept_second_def is_cont_def)
    have "?a = 13 \<longrightarrow> ?m < 32" "?m < 64" "?c < 64"
      using 3(3) a m by (auto simp: well_formed_def accept_second_def)
    moreover have "?a \<le> 12 \<or> ?a = 13 \<or> 14 \<le> ?a" by linarith
    ultimately have "?a * 4096 + ?m * 64 + ?c < 0xD800 \<or>
        0xE000 \<le> ?a * 4096 + ?m * 64 + ?c \<and> ?a * 4096 + ?m * 64 + ?c < 0x10000"
      using a by linarith
    with 3 show ?thesis by (auto simp: decode_rune_def Let_def valid_rune_def)
  next
    case 4
    let ?a = "?b 0 mod 8" and ?m = "?b 1 mod 64" and ?c = "?b 2 mod 64" and ?d = "?b 3 mod 64"
    have a: "?b 0 = 240 + ?a" "?a < 5"
      using 4(2) mod_window [of 30 8 "?b 0"] by (simp_all add: seq_len_def split: if_splits)
    have m: "?b 1 = 128 + ?m"
      using 4(3) mod_window [of 2 64 "?b 1"] by (simp add: well_formed_def accept_second_def is_cont_def)
    have "?a = 4 \<longrightarrow> ?m < 16" "?a = 0 \<longrightarrow> 16 \<le> ?m" "?m < 64" "?c < 64" "?d < 64"
      using 4(3) a m by (auto simp: well_formed_def accept_second_def)
    then have "0x10000 \<le> ?a * 262144 + ?m * 4096 + ?c * 64 + ?d"
        "?a * 262144 + ?m * 4096 + ?c * 64 + ?d \<le> 0x10FFFF"
      using a by linarith+
    with 4 show ?thesis by (auto simp: decode_rune_def Let_def valid_rune_def)
  qed
qed

section \<open>The runes of a string and the bytes they come from\<close>

function chunks :: "string \<Rightarrow> (string \<times> rune) list" where
  "chunks [] = []"
| "chunks (c # s) =
     (case decode_rune (c # s) of (r, n) \<Rightarrow> (take n (c # s), r) # chunks (drop n (c # s)))"
  by pat_completeness auto
termination
proof (relation "measure length")
  fix c :: char and s r and n :: nat
  assume "(r, n) = decode_rune (c # s)"
  then have "1 \<le> n" using decode_rune_width [of "c # s"] by (metis list.distinct(1) snd_conv)
  then show "(drop n (c # s), c # s) \<in> measure length" by simp
qed simp

declare chunks.simps(2) [simp del]

lemma chunks_unfold:
  "s \<noteq> [] \<Longrightarrow> chunks s =
     (take (snd (decode_rune s)) s, fst (decode_rune s)) # chunks (drop (snd (decode_rune s)) s)"
  by (cases s) (simp_all add: chunks.simps(2) case_prod_beta)

lemma chunks_induct [case_names Nil rune]:
  assumes "P []"
    and "\<And>s. s \<noteq> [] \<Longrightarrow> P (drop (snd (decode_rune s)) s) \<Longrightarrow> P s"
  shows "P s"
  by (induction s rule: chunks.induct) (metis assms list.distinct(1) prod.collapse)+

definition bytes_of :: "(string \<times> rune) list \<Rightarrow> string" where
  "bytes_of cs = concat (map fst cs)"

lemma bytes_of_simps [simp]:
  "bytes_of [] = []" "bytes_of (c # cs) = fst c @ bytes_of cs"
  "bytes_of (cs @ ds) = bytes_of cs @ bytes_of ds"
  by (simp_all add: bytes_of_def)

lemma bytes_of_chunks [simp]: "bytes_of (chunks s) = s"
  by (induction s rule: chunks_induct) (simp_all add: chunks_unfold)

definition runes :: "string \<Rightarrow> rune list" where
  "runes s = map snd (chunks s)"

lemma runes_Nil [simp]: "runes [] = []"
  by (simp add: runes_def)

lemma runes_eq_Nil [simp]: "runes s = [] \<longleftrightarrow> s = []"
  by (cases "s = []") (simp_all add: runes_def chunks_unfold)

lemma chunks_append: "starts_rune t \<Longrightarrow> chunks (s @ t) = chunks s @ chunks t"
proof (induction s rule: chunks_induct)
  case (rune s)
  let ?n = "snd (decode_rune s)"
  have "?n \<le> length s" using rune.hyps by (rule decode_rune_width_le)
  with rune show ?case
    by (simp add: chunks_unfold [of "s @ t"] chunks_unfold [of s] decode_rune_append)
qed simp

lemma runes_append: "starts_rune t \<Longrightarrow> runes (s @ t) = runes s @ runes t"
  by (simp add: runes_def chunks_append)

lemma runes_valid: "r \<in> set (runes s) \<Longrightarrow> valid_rune r"
  by (induction s rule: chunks_induct) (auto simp: runes_def chunks_unfold decode_rune_valid)

end
