(* ===== verification/Go_Strings.thy ===== *)
theory Go_Strings
  imports Go_Utf8
begin

text \<open>
  The functions of packages \<^verbatim>\<open>strings\<close> and \<^verbatim>\<open>unicode\<close> that the program calls, over
  the chunks of \<^verbatim>\<open>Go_Utf8\<close>, and how each acts on the runes of its argument.
\<close>

section \<open>Cutting a string between two runes\<close>

text \<open>A list of chunks that some string decodes to.\<close>

definition well_chunked :: "(string \<times> rune) list \<Rightarrow> bool" where
  "well_chunked cs \<longleftrightarrow> chunks (bytes_of cs) = cs"

lemma well_chunked_chunks [simp, intro]: "well_chunked (chunks s)"
  by (simp add: well_chunked_def)

lemma well_chunked_Nil [simp, intro]: "well_chunked []"
  by (simp add: well_chunked_def)

lemma bytes_of_take_prefix: "prefix (bytes_of (take k (chunks s))) s"
  using bytes_of_simps(3) [of "take k (chunks s)" "drop k (chunks s)"] by (metis append_take_drop_id bytes_of_chunks prefixI)

lemma chunks_take: "chunks (bytes_of (take k (chunks s))) = take k (chunks s)"
proof (induction s arbitrary: k rule: chunks_induct)
  case (rune s)
  let ?n = "snd (decode_rune s)"
  show ?case
  proof (cases k)
    case (Suc j)
    let ?t = "bytes_of (take j (chunks (drop ?n s)))"
    have n: "1 \<le> ?n" "?n \<le> length s"
      using decode_rune_width [OF rune.hyps] decode_rune_width_le [OF rune.hyps] by simp_all
    obtain u where u: "drop ?n s = ?t @ u"
      using bytes_of_take_prefix [of j "drop ?n s"] by (auto elim: prefixE)
    have s: "take ?n s @ ?t = take (?n + length ?t) s"
      using u by (metis append_eq_conv_conj take_add)
    have ne: "take ?n s @ ?t \<noteq> []" using n rune.hyps by auto
    have "decode_rune (take ?n s @ ?t) = decode_rune s"
      unfolding s by (rule decode_rune_take) (use rune.hyps in auto)
    then show ?thesis
      using rune ne n Suc by (simp add: chunks_unfold [of s] chunks_unfold [OF ne])
  qed simp
qed simp

lemma chunks_drop: "chunks (bytes_of (drop k (chunks s))) = drop k (chunks s)"
proof (induction s arbitrary: k rule: chunks_induct)
  case (rune s)
  then show ?case
  proof (cases k)
    case 0
    with rune show ?thesis by simp
  next
    case (Suc j)
    with rune show ?thesis by (simp add: chunks_unfold [of s])
  qed
qed simp

lemma well_chunked_take: "well_chunked cs \<Longrightarrow> well_chunked (take k cs)"
  using chunks_take [of k "bytes_of cs"] by (simp add: well_chunked_def)

lemma well_chunked_drop: "well_chunked cs \<Longrightarrow> well_chunked (drop k cs)"
  using chunks_drop [of k "bytes_of cs"] by (simp add: well_chunked_def)

lemma well_chunked_prefix: "prefix as cs \<Longrightarrow> well_chunked cs \<Longrightarrow> well_chunked as"
  by (metis append_eq_conv_conj prefixE well_chunked_take)

lemma well_chunked_suffix: "suffix as cs \<Longrightarrow> well_chunked cs \<Longrightarrow> well_chunked as"
  by (metis suffix_drop suffix_take append_take_drop_id suffixE append_eq_conv_conj well_chunked_drop)

lemma runes_bytes_of: "well_chunked cs \<Longrightarrow> runes (bytes_of cs) = map snd cs"
  by (simp add: runes_def well_chunked_def)

section \<open>Runes back to strings\<close>

text \<open>\<^verbatim>\<open>string(rs)\<close> of a rune slice: an invalid rune is written as U+FFFD.\<close>

definition string_of_runes :: "rune list \<Rightarrow> string" where
  "string_of_runes rs = concat (map encode_rune rs)"

lemma string_of_runes_simps [simp]:
  "string_of_runes [] = []"
  "string_of_runes (r # rs) = encode_rune r @ string_of_runes rs"
  "string_of_runes (rs @ qs) = string_of_runes rs @ string_of_runes qs"
  by (simp_all add: string_of_runes_def)

lemma encode_rune_nonempty [simp]: "encode_rune r \<noteq> []"
  by (simp add: encode_rune_def Let_def)

lemma chunks_encode_rune: "valid_rune r \<Longrightarrow> chunks (encode_rune r @ t) = (encode_rune r, r) # chunks t"
  by (subst chunks_unfold) (simp_all add: decode_encode_rune)

lemma runes_string_of_runes_append:
  "\<forall>r \<in> set rs. valid_rune r \<Longrightarrow> runes (string_of_runes rs @ t) = rs @ runes t"
  by (induction rs) (auto simp: runes_def chunks_encode_rune)

lemma runes_string_of_runes: "\<forall>r \<in> set rs. valid_rune r \<Longrightarrow> runes (string_of_runes rs) = rs"
  using runes_string_of_runes_append [of rs "[]"] by simp

lemma runes_string_of_take [simp]: "runes (string_of_runes (take n (runes s))) = take n (runes s)"
  by (rule runes_string_of_runes) (auto dest: in_set_takeD intro: runes_valid)

lemma runes_string_of_take_append [simp]:
  "runes (string_of_runes (take n (runes s)) @ t) = take n (runes s) @ runes t"
  by (rule runes_string_of_runes_append) (auto dest: in_set_takeD intro: runes_valid)

section \<open>ASCII\<close>

definition ascii :: "string \<Rightarrow> bool" where
  "ascii s \<longleftrightarrow> (\<forall>c \<in> set s. of_char c < (0x80 :: nat))"

lemma ascii_simps [simp]:
  "ascii []" "ascii (c # s) \<longleftrightarrow> of_char c < (0x80 :: nat) \<and> ascii s"
  "ascii (s @ t) \<longleftrightarrow> ascii s \<and> ascii t"
  by (auto simp: ascii_def)

lemma chunks_ascii_Cons: "of_char c < (0x80 :: nat) \<Longrightarrow> chunks (c # s) = ([c], of_char c) # chunks s"
  by (simp add: chunks_unfold decode_rune_def seq_len_def Let_def)

lemma runes_ascii_Cons: "of_char c < (0x80 :: nat) \<Longrightarrow> runes (c # s) = of_char c # runes s"
  by (simp add: runes_def chunks_ascii_Cons)

lemma runes_ascii: "ascii s \<Longrightarrow> runes s = map of_char s"
  by (induction s) (simp_all add: runes_ascii_Cons)

lemma runes_ascii_append: "ascii s \<Longrightarrow> runes (s @ t) = map of_char s @ runes t"
  by (induction s) (simp_all add: runes_ascii_Cons)

lemma starts_rune_Nil [simp]: "starts_rune []"
  by (simp add: starts_rune_def)

lemma starts_rune_Cons [simp]: "starts_rune (c # s) \<longleftrightarrow> \<not> is_cont (of_char c)"
  by (simp add: starts_rune_def)

lemma starts_rune_ascii: "ascii t \<Longrightarrow> starts_rune t"
  by (cases t) (auto simp: is_cont_def)

lemma starts_rune_append_ascii: "ascii t \<Longrightarrow> t \<noteq> [] \<Longrightarrow> starts_rune (t @ u)"
  by (cases t) (auto simp: is_cont_def)

lemma runes_append_ascii: "ascii t \<Longrightarrow> runes (s @ t) = runes s @ map of_char t"
  by (simp add: runes_append starts_rune_ascii runes_ascii)

lemma string_of_runes_ascii: "\<forall>r \<in> set rs. r < 0x80 \<Longrightarrow> string_of_runes rs = map char_of rs"
  by (induction rs) (auto simp: encode_rune_def valid_rune_def)

section \<open>Package unicode\<close>

text \<open>\<^verbatim>\<open>unicode.IsSpace\<close>: the Latin-1 spaces and the code points with property White Space.\<close>

definition IsSpace :: "rune \<Rightarrow> bool" where
  "IsSpace r \<longleftrightarrow>
     (0x09 \<le> r \<and> r \<le> 0x0D) \<or> r = 0x20 \<or> r = 0x85 \<or> r = 0xA0 \<or> r = 0x1680 \<or>
     (0x2000 \<le> r \<and> r \<le> 0x200A) \<or> r = 0x2028 \<or> r = 0x2029 \<or> r = 0x202F \<or> r = 0x205F \<or> r = 0x3000"

section \<open>Package strings\<close>

definition TrimRightFunc :: "string \<Rightarrow> (rune \<Rightarrow> bool) \<Rightarrow> string" where
  "TrimRightFunc s p = bytes_of (drop_while_end (p \<circ> snd) (chunks s))"

definition TrimSpace :: "string \<Rightarrow> string" where
  "TrimSpace s = bytes_of (drop_while_end (IsSpace \<circ> snd) (dropWhile (IsSpace \<circ> snd) (chunks s)))"

definition FieldsFunc :: "string \<Rightarrow> (rune \<Rightarrow> bool) \<Rightarrow> string list" where
  "FieldsFunc s p = map bytes_of (fields_by (p \<circ> snd) (chunks s))"

definition Fields :: "string \<Rightarrow> string list" where
  "Fields s = FieldsFunc s IsSpace"

text \<open>\<^verbatim>\<open>strings.Map\<close>; \<open>None\<close> stands for a negative result, which drops the rune.\<close>

definition Map_runes :: "(rune \<Rightarrow> rune option) \<Rightarrow> string \<Rightarrow> string" where
  "Map_runes f s =
     concat (map (\<lambda>r. case f r of None \<Rightarrow> [] | Some q \<Rightarrow> encode_rune q) (runes s))"

text \<open>\<^verbatim>\<open>strings.LastIndex\<close>, with \<open>None\<close> for -1.\<close>

fun LastIndex :: "string \<Rightarrow> string \<Rightarrow> nat option" where
  "LastIndex [] sep = (if sep = [] then Some 0 else None)"
| "LastIndex (c # s) sep =
     (case LastIndex s sep of
        Some i \<Rightarrow> Some (Suc i)
      | None \<Rightarrow> if prefix sep (c # s) then Some 0 else None)"

lemma well_chunked_dropWhile: "well_chunked cs \<Longrightarrow> well_chunked (dropWhile P cs)"
  by (metis dropWhile_eq_drop well_chunked_drop)

lemma well_chunked_drop_while_end: "well_chunked cs \<Longrightarrow> well_chunked (drop_while_end P cs)"
  by (rule well_chunked_prefix [OF drop_while_end_prefix])

lemma well_chunked_fields: "well_chunked cs \<Longrightarrow> w \<in> set (fields_by P cs) \<Longrightarrow> well_chunked w"
proof (induction P cs rule: fields_by.induct)
  case (2 P x xs)
  have "prefix (x # takeWhile (\<lambda>y. \<not> P y) xs) (x # xs)" by (simp add: takeWhile_is_prefix)
  then have "well_chunked (x # takeWhile (\<lambda>y. \<not> P y) xs)"
    using "2.prems"(1) by (rule well_chunked_prefix)
  moreover have "well_chunked (dropWhile (\<lambda>y. \<not> P y) xs)"
    using well_chunked_dropWhile [OF well_chunked_drop [OF "2.prems"(1), of 1]] by simp
  moreover have "well_chunked xs" using well_chunked_drop [OF "2.prems"(1), of 1] by simp
  ultimately show ?case
    using 2 by (auto split: if_splits)
qed simp

lemma runes_TrimRightFunc: "runes (TrimRightFunc s p) = drop_while_end p (runes s)"
  by (simp add: TrimRightFunc_def runes_bytes_of well_chunked_drop_while_end)
     (simp add: drop_while_end_map runes_def)

lemma runes_TrimSpace: "runes (TrimSpace s) = drop_while_end IsSpace (dropWhile IsSpace (runes s))"
  by (simp add: TrimSpace_def runes_bytes_of well_chunked_drop_while_end well_chunked_dropWhile)
     (simp add: drop_while_end_map dropWhile_map runes_def)

lemma TrimSpace_no_space: "\<forall>r \<in> set (runes s). \<not> IsSpace r \<Longrightarrow> TrimSpace s = s"
proof -
  assume "\<forall>r \<in> set (runes s). \<not> IsSpace r"
  then have none: "\<forall>c \<in> set (chunks s). \<not> (IsSpace \<circ> snd) c" by (simp add: runes_def)
  then have keep: "dropWhile (IsSpace \<circ> snd) cs = cs" if "set cs \<subseteq> set (chunks s)" for cs
    using that by (cases cs) auto
  have "dropWhile (IsSpace \<circ> snd) (chunks s) = chunks s"
    by (rule keep) simp
  moreover have "drop_while_end (IsSpace \<circ> snd) (chunks s) = chunks s"
    unfolding drop_while_end_def by (subst keep) simp_all
  ultimately show ?thesis by (simp add: TrimSpace_def)
qed

lemma TrimSpace_plain: "list_all (\<lambda>c. 0x21 \<le> (of_char c :: nat) \<and> of_char c \<le> (0x7E :: nat)) s \<Longrightarrow> TrimSpace s = s"
proof (rule TrimSpace_no_space)
  assume plain: "list_all (\<lambda>c. 0x21 \<le> (of_char c :: nat) \<and> of_char c \<le> (0x7E :: nat)) s"
  then have "ascii s" by (fastforce simp: ascii_def list_all_iff)
  then show "\<forall>r \<in> set (runes s). \<not> IsSpace r"
    using plain by (auto simp: runes_ascii list_all_iff IsSpace_def)
qed

lemma TrimRightFunc_prefix: "prefix (TrimRightFunc s p) s"
  unfolding TrimRightFunc_def by (subst drop_while_end_take) (rule bytes_of_take_prefix)

lemma runes_join_chunks:
  assumes "of_char c < (0x80 :: nat)" "\<forall>w \<in> set ws. well_chunked w"
  shows "runes (join [c] (map bytes_of ws)) = join [of_char c] (map (map snd) ws)"
  using assms(2)
proof (induction "[] :: (string \<times> rune) list" ws rule: join.induct)
  case (3 x y zs)
  have "starts_rune (c # join [c] (map bytes_of (y # zs)))"
    using assms(1) by (simp add: is_cont_def)
  from runes_append [OF this, of "bytes_of x"] 3 assms(1) show ?case
    by (simp add: runes_bytes_of runes_ascii_Cons)
qed (simp_all add: runes_bytes_of)

lemma runes_join_FieldsFunc:
  assumes "of_char c < (0x80 :: nat)"
  shows "runes (join [c] (FieldsFunc s p)) = join [of_char c] (fields_by p (runes s))"
  unfolding FieldsFunc_def
  by (subst runes_join_chunks [OF assms]) (auto intro: well_chunked_fields simp: runes_def fields_by_map)

lemma TrimSpace_sublist: "sublist (TrimSpace s) s"
proof -
  define n where "n = length (takeWhile (IsSpace \<circ> snd) (chunks s))"
  have "TrimSpace s = bytes_of (drop_while_end (IsSpace \<circ> snd) (drop n (chunks s)))"
    by (simp add: TrimSpace_def dropWhile_eq_drop n_def)
  moreover have "prefix (bytes_of (drop_while_end P (drop n (chunks s)))) (bytes_of (drop n (chunks s)))" for P
    by (metis bytes_of_take_prefix chunks_drop drop_while_end_take)
  moreover have "suffix (bytes_of (drop n (chunks s))) s"
    by (metis append_take_drop_id bytes_of_chunks bytes_of_simps(3) suffixI)
  ultimately show ?thesis
    by (metis prefix_imp_sublist sublist_order.order.trans suffix_imp_sublist)
qed

lemma map_runes_FieldsFunc: "map runes (FieldsFunc s p) = fields_by p (runes s)"
proof -
  have "map runes (FieldsFunc s p) = map (map snd) (fields_by (p \<circ> snd) (chunks s))"
    unfolding FieldsFunc_def map_map comp_def
    by (rule map_cong [OF refl]) (use well_chunked_fields [OF well_chunked_chunks] in \<open>auto intro!: runes_bytes_of simp: comp_def\<close>)
  then show ?thesis by (simp add: runes_def fields_by_map)
qed

lemma runes_join_newline:
  "filter P (runes (join [c] ws)) = concat (map (\<lambda>w. filter P (runes w)) ws)" if "of_char c < (0x80 :: nat)" "\<not> P (of_char c)"
proof (induction "[c]" ws rule: join.induct)
  case (3 x y zs)
  have "starts_rune (c # join [c] (y # zs))" using that(1) by (simp add: is_cont_def)
  from runes_append [OF this, of x] 3 that show ?case by (simp add: runes_ascii_Cons)
qed simp_all

lemma LastIndex_Some:
  "LastIndex s sep = Some i \<Longrightarrow> i \<le> length s \<and> prefix sep (drop i s)"
  by (induction s arbitrary: i) (auto split: if_splits option.splits)

lemma runes_Map_runes:
  "runes (Map_runes f s) =
     map (\<lambda>q. if valid_rune q then q else RuneError) (List.map_filter f (runes s))"
proof -
  have enc: "encode_rune q = encode_rune (if valid_rune q then q else RuneError)" for q
    by (simp add: encode_rune_def RuneError_def valid_rune_def)
  have v: "valid_rune RuneError" by (simp add: RuneError_def valid_rune_def)
  have "runes (concat (map (\<lambda>r. case f r of None \<Rightarrow> [] | Some q \<Rightarrow> encode_rune q) rs)) =
      map (\<lambda>q. if valid_rune q then q else RuneError) (List.map_filter f rs)" for rs
  proof (induction rs)
    case (Cons r rs)
    then show ?case
      by (cases "f r") (simp_all add: map_filter_simps, subst enc, simp add: runes_def chunks_encode_rune v)
  qed (simp add: map_filter_simps)
  then show ?thesis by (simp add: Map_runes_def)
qed

end
