(* ===== verification/Canonical_Encoding.thy ===== *)
theory Canonical_Encoding
  imports Go_Strings
begin

text \<open>
  \<^verbatim>\<open>canonical/encoding.go\<close>: what a screen costs on the network.  A text in the GSM 03.38
  alphabet is counted in septets, 182 to a screen, where nine characters cost two; any other
  character turns the whole text into UCS-2, counted in 16-bit units, 70 to a screen.

  The first part is the code: its two alphabets and its five functions, loops included.  The
  second part restates the measure on rune lists (\<open>rune_cost\<close>, \<open>rune_budget\<close>, \<open>fits_within\<close>)
  and proves the laws the SDK's searches rely on: the three loops agree, and a text that fits
  still fits when runes are removed from it, although removing one may change its encoding.
  Encodings are a linear order, in which a text has the greatest encoding of its parts.
\<close>

section \<open>The code\<close>

definition MaxSeptets :: nat where
  "MaxSeptets = 182"

definition MaxUCS2Units :: nat where
  "MaxUCS2Units = 70"

datatype Encoding = EncodingGSM7 | EncodingUCS2

text \<open>The characters of the two string literals, in the source's order.\<close>

definition gsm7Basic :: "rune list" where
  "gsm7Basic =
   [0x40, 0xA3, 0x24, 0xA5, 0xE8, 0xE9, 0xF9, 0xEC, 0xF2, 0xC7, 0xA, 0xD8, 0xF8, 0xD, 0xC5,
    0xE5, 0x5F, 0xC6, 0xE6, 0xDF, 0xC9, 0x20, 0x21, 0x22, 0x23, 0xA4, 0x25, 0x26, 0x27, 0x28,
    0x29, 0x2A, 0x2B, 0x2C, 0x2D, 0x2E, 0x2F, 0x30, 0x31, 0x32, 0x33, 0x34, 0x35, 0x36, 0x37,
    0x38, 0x39, 0x3A, 0x3B, 0x3C, 0x3D, 0x3E, 0x3F] @
   [0xA1, 0x41, 0x42, 0x43, 0x44, 0x45, 0x46, 0x47, 0x48, 0x49, 0x4A, 0x4B, 0x4C, 0x4D, 0x4E,
    0x4F, 0x50, 0x51, 0x52, 0x53, 0x54, 0x55, 0x56, 0x57, 0x58, 0x59, 0x5A, 0xC4, 0xD6, 0xD1,
    0xDC, 0xA7] @
   [0xBF, 0x61, 0x62, 0x63, 0x64, 0x65, 0x66, 0x67, 0x68, 0x69, 0x6A, 0x6B, 0x6C, 0x6D, 0x6E,
    0x6F, 0x70, 0x71, 0x72, 0x73, 0x74, 0x75, 0x76, 0x77, 0x78, 0x79, 0x7A, 0xE4, 0xF6, 0xF1,
    0xFC, 0xE0] @
   [0x394, 0x3A6, 0x393, 0x39B, 0x3A9, 0x3A0, 0x3A8, 0x3A3, 0x398, 0x39E]"

definition gsm7Extended :: "rune list" where
  "gsm7Extended = [0x5E, 0x7B, 0x7D, 0x5C, 0x5B, 0x7E, 0x5D, 0x7C, 0x20AC]"

fun EncodingOf_loop :: "rune list \<Rightarrow> Encoding" where
  "EncodingOf_loop [] = EncodingGSM7"
| "EncodingOf_loop (r # rs) =
     (if r \<in> set gsm7Basic then EncodingOf_loop rs
      else if r \<in> set gsm7Extended then EncodingOf_loop rs
      else EncodingUCS2)"

definition EncodingOf :: "string \<Rightarrow> Encoding" where
  "EncodingOf s = EncodingOf_loop (runes s)"

fun ucs2Units_loop :: "rune list \<Rightarrow> nat \<Rightarrow> nat" where
  "ucs2Units_loop [] units = units"
| "ucs2Units_loop (r # rs) units =
     (if r > 0xFFFF then ucs2Units_loop rs (units + 2) else ucs2Units_loop rs (units + 1))"

definition ucs2Units :: "string \<Rightarrow> nat" where
  "ucs2Units s = ucs2Units_loop (runes s) 0"

fun ScreenCost_loop :: "string \<Rightarrow> rune list \<Rightarrow> nat \<Rightarrow> nat \<times> Encoding" where
  "ScreenCost_loop s [] cost = (cost, EncodingGSM7)"
| "ScreenCost_loop s (r # rs) cost =
     (if r \<in> set gsm7Basic then ScreenCost_loop s rs (cost + 1)
      else if r \<in> set gsm7Extended then ScreenCost_loop s rs (cost + 2)
      else (ucs2Units s, EncodingUCS2))"

definition ScreenCost :: "string \<Rightarrow> nat \<times> Encoding" where
  "ScreenCost s = ScreenCost_loop s (runes s) 0"

definition Budget :: "string \<Rightarrow> nat" where
  "Budget s = (if EncodingOf s = EncodingUCS2 then MaxUCS2Units else MaxSeptets)"

definition FitsScreen :: "string \<Rightarrow> bool" where
  "FitsScreen s =
     (case ScreenCost s of (cost, enc) \<Rightarrow>
        if enc = EncodingUCS2 then cost \<le> MaxUCS2Units else cost \<le> MaxSeptets)"

section \<open>The measure on runes\<close>

definition gsm_rune :: "rune \<Rightarrow> bool" where
  "gsm_rune r \<longleftrightarrow> r \<in> set gsm7Basic \<or> r \<in> set gsm7Extended"

definition gsm_text :: "rune list \<Rightarrow> bool" where
  "gsm_text rs \<longleftrightarrow> (\<forall>r \<in> set rs. gsm_rune r)"

definition septets :: "rune list \<Rightarrow> nat" where
  "septets rs = sum_list (map (\<lambda>r. if r \<in> set gsm7Basic then 1 else 2) rs)"

definition units :: "rune list \<Rightarrow> nat" where
  "units rs = sum_list (map (\<lambda>r. if r > 0xFFFF then 2 else 1) rs)"

definition rune_cost :: "rune list \<Rightarrow> nat" where
  "rune_cost rs = (if gsm_text rs then septets rs else units rs)"

definition rune_budget :: "rune list \<Rightarrow> nat" where
  "rune_budget rs = (if gsm_text rs then MaxSeptets else MaxUCS2Units)"

text \<open>A text fits beside \<open>k\<close> reserved units.\<close>

definition fits_within :: "nat \<Rightarrow> rune list \<Rightarrow> bool" where
  "fits_within k rs \<longleftrightarrow> rune_cost rs + k \<le> rune_budget rs"

lemma gsm_text_simps [simp]:
  "gsm_text []" "gsm_text (r # rs) \<longleftrightarrow> gsm_rune r \<and> gsm_text rs"
  "gsm_text (rs @ qs) \<longleftrightarrow> gsm_text rs \<and> gsm_text qs"
  by (auto simp: gsm_text_def)

lemma septets_simps [simp]:
  "septets [] = 0" "septets (r # rs) = (if r \<in> set gsm7Basic then 1 else 2) + septets rs"
  "septets (rs @ qs) = septets rs + septets qs"
  by (simp_all add: septets_def)

lemma units_simps [simp]:
  "units [] = 0" "units (r # rs) = (if r > 0xFFFF then 2 else 1) + units rs"
  "units (rs @ qs) = units rs + units qs"
  by (simp_all add: units_def)

lemma EncodingOf_loop_iff: "EncodingOf_loop rs = (if gsm_text rs then EncodingGSM7 else EncodingUCS2)"
  by (induction rs) (auto simp: gsm_rune_def)

lemma EncodingOf_runes: "EncodingOf s = (if gsm_text (runes s) then EncodingGSM7 else EncodingUCS2)"
  by (simp add: EncodingOf_def EncodingOf_loop_iff)

lemma ucs2Units_runes: "ucs2Units s = units (runes s)"
proof -
  have "ucs2Units_loop rs n = n + units rs" for rs n
    by (induction rs arbitrary: n) auto
  then show ?thesis by (simp add: ucs2Units_def)
qed

lemma ScreenCost_runes:
  "ScreenCost s = (rune_cost (runes s), if gsm_text (runes s) then EncodingGSM7 else EncodingUCS2)"
proof -
  have "ScreenCost_loop s rs n =
      (if gsm_text rs then (n + septets rs, EncodingGSM7) else (ucs2Units s, EncodingUCS2))" for rs n
    by (induction rs arbitrary: n) (auto simp: gsm_rune_def)
  then show ?thesis by (simp add: ScreenCost_def rune_cost_def ucs2Units_runes)
qed

lemma Budget_runes: "Budget s = rune_budget (runes s)"
  by (simp add: Budget_def rune_budget_def EncodingOf_runes)

lemma FitsScreen_runes: "FitsScreen s \<longleftrightarrow> fits_within 0 (runes s)"
  by (simp add: FitsScreen_def ScreenCost_runes fits_within_def rune_budget_def)

lemmas encoding_runes = EncodingOf_runes ucs2Units_runes ScreenCost_runes Budget_runes FitsScreen_runes

lemmas measure_defs = fits_within_def rune_cost_def rune_budget_def MaxSeptets_def MaxUCS2Units_def

section \<open>Encodings are ordered by what they can carry\<close>

text \<open>
  The wider encoding is the greater one: a text needs the widest encoding of its parts, and a wider
  encoding never leaves more room.
\<close>

instantiation Encoding :: linorder
begin

definition less_eq_Encoding :: "Encoding \<Rightarrow> Encoding \<Rightarrow> bool" where
  "less_eq_Encoding d e \<longleftrightarrow> d = EncodingGSM7 \<or> e = EncodingUCS2"

definition less_Encoding :: "Encoding \<Rightarrow> Encoding \<Rightarrow> bool" where
  "less_Encoding d e \<longleftrightarrow> d = EncodingGSM7 \<and> e = EncodingUCS2"

instance
proof
  fix d e f :: Encoding
  show "d < e \<longleftrightarrow> d \<le> e \<and> \<not> e \<le> d" "d \<le> d" "d \<le> e \<or> e \<le> d"
    by (cases d; cases e; simp add: less_eq_Encoding_def less_Encoding_def)+
  show "d \<le> e \<Longrightarrow> e \<le> f \<Longrightarrow> d \<le> f" "d \<le> e \<Longrightarrow> e \<le> d \<Longrightarrow> d = e"
    by (cases d; cases e; cases f; simp add: less_eq_Encoding_def)+
qed

end

lemma EncodingOf_loop_append: "EncodingOf_loop (xs @ ys) = max (EncodingOf_loop xs) (EncodingOf_loop ys)"
  by (simp add: EncodingOf_loop_iff max_def less_eq_Encoding_def)

lemma EncodingOf_append:
  assumes "starts_rune t"
  shows "EncodingOf (s @ t) = max (EncodingOf s) (EncodingOf t)"
  by (simp add: EncodingOf_def runes_append [OF assms] EncodingOf_loop_append)

lemma Budget_antimono: "EncodingOf s \<le> EncodingOf t \<Longrightarrow> Budget t \<le> Budget s"
  by (auto simp: Budget_def less_eq_Encoding_def MaxSeptets_def MaxUCS2Units_def)

section \<open>Laws of the measure\<close>

lemma gsm_text_subseq: "subseq xs ys \<Longrightarrow> gsm_text ys \<Longrightarrow> gsm_text xs"
  by (induction rule: list_emb.induct) auto

lemma septets_subseq: "subseq xs ys \<Longrightarrow> septets xs \<le> septets ys"
  by (induction rule: list_emb.induct) auto

lemma units_subseq: "subseq xs ys \<Longrightarrow> units xs \<le> units ys"
  by (induction rule: list_emb.induct) auto

lemma septets_le: "septets rs \<le> 2 * units rs"
  by (induction rs) auto

lemma length_le_septets: "length rs \<le> septets rs"
  by (induction rs) auto

lemma length_le_units: "length rs \<le> units rs"
  by (induction rs) auto

lemma units_le: "units rs \<le> 2 * length rs"
  by (induction rs) auto

text \<open>
  The one case that needs an argument: dropping the last foreign character takes a text from 70
  units to 182 septets, and the septets are at most twice the units it had.
\<close>

lemma fits_within_subseq:
  assumes "subseq xs ys" "fits_within k ys"
  shows "fits_within k xs"
proof (cases "gsm_text ys")
  case True
  with assms show ?thesis
    using gsm_text_subseq [OF assms(1)] septets_subseq [OF assms(1)] by (simp add: measure_defs)
next
  case False
  then have k: "units ys + k \<le> 70" using assms(2) by (simp add: measure_defs)
  moreover have "units xs \<le> units ys" by (rule units_subseq [OF assms(1)])
  moreover have "septets xs \<le> 2 * units xs" by (rule septets_le)
  ultimately show ?thesis by (auto simp: measure_defs)
qed

lemma fits_within_Nil: "k \<le> MaxSeptets \<Longrightarrow> fits_within k []"
  by (simp add: measure_defs)

lemma fits_within_length: "fits_within k rs \<Longrightarrow> length rs + k \<le> MaxSeptets"
  using length_le_septets [of rs] length_le_units [of rs]
  by (simp add: measure_defs split: if_splits)

text \<open>Texts of the unaccented part of the alphabet fit by their length.\<close>

definition plain :: "char \<Rightarrow> bool" where
  "plain c \<longleftrightarrow> (let n = of_char c :: nat in n = 10 \<or> (32 \<le> n \<and> n \<le> 90) \<or> (97 \<le> n \<and> n \<le> 122))"

lemma plain_basic: "plain c \<Longrightarrow> of_char c \<in> set gsm7Basic \<and> of_char c < (0x80 :: nat)"
proof -
  have "\<forall>n \<in> set [32..<91]. n \<in> set gsm7Basic" "\<forall>n \<in> set [97..<123]. n \<in> set gsm7Basic"
    by (simp_all add: upt_rec_numeral gsm7Basic_def)
  then have upper: "\<forall>n \<in> {32..<91}. n \<in> set gsm7Basic" and lower: "\<forall>n \<in> {97..<123}. n \<in> set gsm7Basic"
    by (simp_all only: set_upt)
  have newline: "10 \<in> set gsm7Basic" by (simp add: gsm7Basic_def)
  assume "plain c"
  then consider "of_char c = (10 :: nat)" | "of_char c \<in> {32..<91 :: nat}" | "of_char c \<in> {97..<123 :: nat}"
    by (auto simp: plain_def Let_def)
  then show ?thesis by cases (use upper lower newline in auto)
qed

lemma runes_plain: "list_all plain s \<Longrightarrow> runes s = map of_char s"
  by (rule runes_ascii) (auto simp: ascii_def list_all_iff dest: plain_basic)

lemma fits_basic: "set rs \<subseteq> set gsm7Basic \<Longrightarrow> fits_within k rs \<longleftrightarrow> length rs + k \<le> MaxSeptets"
proof -
  assume basic: "set rs \<subseteq> set gsm7Basic"
  then have "gsm_text rs" by (auto simp: gsm_text_def gsm_rune_def)
  moreover have "septets rs = length rs" using basic by (induction rs) auto
  ultimately show ?thesis by (simp add: fits_within_def rune_cost_def rune_budget_def)
qed

lemma FitsScreen_plain: "list_all plain s \<Longrightarrow> FitsScreen s \<longleftrightarrow> length s \<le> MaxSeptets"
  using fits_basic [of "runes s" 0]
  by (auto simp: FitsScreen_runes runes_plain list_all_iff dest: plain_basic)

section \<open>The interface the SDK searches through\<close>

text \<open>
  A measure of texts that is inherited by subsequences.  Every search of the SDK looks for the
  longest prefix of a text that fits, and this law is what makes prefixes a \<open>size_budget\<close>.
\<close>

locale text_budget =
  fixes fits :: "'a list \<Rightarrow> bool"
  assumes fits_subseq: "subseq xs ys \<Longrightarrow> fits ys \<Longrightarrow> fits xs"
begin

lemma fits_prefix: "prefix xs ys \<Longrightarrow> fits ys \<Longrightarrow> fits xs"
  by (rule fits_subseq) (rule prefix_imp_subseq)

lemma fits_take_append:
  assumes "m \<le> n" "fits (take n xs @ ys)"
  shows "fits (take m xs @ ys)"
proof -
  have "subseq (take m xs) (take n xs)"
    using assms(1) by (metis min_absorb1 prefix_imp_subseq take_is_prefix take_take)
  then have "subseq (take m xs @ ys) (take n xs @ ys)" by (simp add: list_emb_append_mono)
  with assms(2) show ?thesis by (rule fits_subseq [rotated])
qed

end

sublocale text_budget \<subseteq> prefixes: size_budget "\<lambda>n. fits (take n xs @ ys)"
  by unfold_locales (rule fits_take_append)

interpretation screen: text_budget "fits_within k"
  by unfold_locales (rule fits_within_subseq)

end
