(* ===== verification/Go_Time.thy ===== *)
theory Go_Time
  imports Go_Prelude
begin

text \<open>
  What the program uses of \<^verbatim>\<open>time\<close>.  A time is a count of nanoseconds since the Unix epoch;
  \<^verbatim>\<open>time.Time{}\<close>, the zero time, is midnight of the first of January of year 1.  A duration is a
  count of nanoseconds of 64 bits.  \<^verbatim>\<open>time.Unix\<close> counts seconds from year 1 in 64 bits and wraps
  around there, and \<^verbatim>\<open>Sub\<close> saturates; both matter where a peer chooses the number.
\<close>

type_synonym time = int

type_synonym duration = int

definition zero_time :: time where
  "zero_time = - 62135596800 * 1000000000"

definition Second :: duration where
  "Second = 1000000000"

definition IsZero :: "time \<Rightarrow> bool" where
  "IsZero t \<longleftrightarrow> t = zero_time"

definition Before :: "time \<Rightarrow> time \<Rightarrow> bool" where
  "Before t u \<longleftrightarrow> t < u"

definition MinDuration :: duration where
  "MinDuration = - (2 ^ 63)"

definition MaxDuration :: duration where
  "MaxDuration = 2 ^ 63 - 1"

definition Time_Sub :: "time \<Rightarrow> time \<Rightarrow> duration" where
  "Time_Sub t u = max MinDuration (min MaxDuration (t - u))"

definition wrap64 :: "int \<Rightarrow> int" where
  "wrap64 i = (i + 2 ^ 63) mod 2 ^ 64 - 2 ^ 63"

text \<open>\<^verbatim>\<open>t.Unix()\<close>, and \<^verbatim>\<open>time.Unix(sec, 0)\<close>.\<close>

definition Unix_seconds :: "time \<Rightarrow> int" where
  "Unix_seconds t = wrap64 (t div Second)"

definition time_Unix :: "int \<Rightarrow> time" where
  "time_Unix sec = (wrap64 (sec + 62135596800) - 62135596800) * Second"

text \<open>
  The times \<^verbatim>\<open>time.Now\<close> can return and the timestamps that do not wrap: some 290 billion years
  around the present.
\<close>

definition representable :: "time \<Rightarrow> bool" where
  "representable t \<longleftrightarrow> - (2 ^ 63) \<le> t div Second \<and> t div Second < 2 ^ 63 - 62135596800"

lemma wrap64_id: "- (2 ^ 63) \<le> i \<Longrightarrow> i < 2 ^ 63 \<Longrightarrow> wrap64 i = i"
  by (simp add: wrap64_def mod_pos_pos_trivial)

lemma wrap64_idem: "wrap64 (wrap64 i + k) = wrap64 (i + k)"
proof -
  have "wrap64 i + k + 2 ^ 63 = (i + 2 ^ 63) mod 2 ^ 64 + k" by (simp add: wrap64_def)
  then have "(wrap64 i + k + 2 ^ 63) mod 2 ^ 64 = (i + 2 ^ 63 + k) mod 2 ^ 64"
    by (simp only: mod_add_left_eq)
  then show ?thesis by (subst (1 3) wrap64_def) (simp only: add.assoc add.commute [of k])
qed

lemma wrap64_range: "- (2 ^ 63) \<le> wrap64 i \<and> wrap64 i < 2 ^ 63"
  by (simp add: wrap64_def)

text \<open>Reading back a timestamp gives the number it was made of, also where it wrapped.\<close>

lemma Unix_seconds_time_Unix: "- (2 ^ 63) \<le> sec \<Longrightarrow> sec < 2 ^ 63 \<Longrightarrow> Unix_seconds (time_Unix sec) = sec"
  using wrap64_idem [of "sec + 62135596800" "- 62135596800"]
  by (simp add: Unix_seconds_def time_Unix_def Second_def wrap64_id)

lemma time_Unix_Unix_seconds: "representable t \<Longrightarrow> time_Unix (Unix_seconds t) = t div Second * Second"
  by (simp add: representable_def time_Unix_def Unix_seconds_def wrap64_id)

lemma Second_pos [simp]: "0 < Second"
  by (simp add: Second_def)

lemma Time_Sub_window:
  "0 < tol \<Longrightarrow> tol < MaxDuration \<Longrightarrow> Time_Sub t u \<le> tol \<and> - tol \<le> Time_Sub t u \<longleftrightarrow> \<bar>t - u\<bar> \<le> tol"
  by (auto simp: Time_Sub_def MinDuration_def MaxDuration_def)

lemma Time_Sub_abs: "0 < tol \<Longrightarrow> tol < MaxDuration \<Longrightarrow> \<bar>Time_Sub t u\<bar> \<le> tol \<longleftrightarrow> \<bar>t - u\<bar> \<le> tol"
  by (auto simp: Time_Sub_def MinDuration_def MaxDuration_def)

end
