(* ===== verification/Canonical_Event.thy ===== *)
theory Canonical_Event
  imports Canonical_Encoding Go_Time
begin

text \<open>
  \<^verbatim>\<open>canonical/event.go\<close>: the wire-neutral event of one turn of a dialogue and the response
  to it, with the checks every adapter must pass them through.

  A \<^verbatim>\<open>Phase\<close> is a Go string type, so any string may arrive as one; the four constants are
  the valid ones.
\<close>

section \<open>Phases\<close>

type_synonym Phase = string

definition PhaseBegin :: Phase where
  "PhaseBegin = ''begin''"

definition PhaseContinue :: Phase where
  "PhaseContinue = ''continue''"

definition PhaseCancel :: Phase where
  "PhaseCancel = ''cancel''"

definition PhaseTimeout :: Phase where
  "PhaseTimeout = ''timeout''"

lemmas phase_defs = PhaseBegin_def PhaseContinue_def PhaseCancel_def PhaseTimeout_def

definition Phase_Terminal :: "Phase \<Rightarrow> bool" where
  "Phase_Terminal p \<longleftrightarrow> p = PhaseCancel \<or> p = PhaseTimeout"

definition Phase_Valid :: "Phase \<Rightarrow> bool" where
  "Phase_Valid p \<longleftrightarrow> p \<in> set [PhaseBegin, PhaseContinue, PhaseCancel, PhaseTimeout]"

section \<open>Events\<close>

definition MaxSessionIDLen :: nat where
  "MaxSessionIDLen = 128"

record Event =
  ev_MNO :: string
  ev_SessionID :: string
  ev_MSISDN :: string
  ev_Shortcode :: string
  ev_Path :: "string list"
  ev_Phase :: Phase
  ev_NetworkCode :: string
  ev_ReceivedAt :: time
  ev_Raw :: string

definition LastInput :: "Event \<Rightarrow> string" where
  "LastInput e = (if ev_Path e = [] then [] else ev_Path e ! (length (ev_Path e) - 1))"

datatype event_error =
    NoMNO
  | NoSessionID
  | SessionIDTooLong nat nat
  | NoMSISDN
  | UnknownPhase Phase
  | BeginWithInput nat
  | SegmentWithSeparator nat string

text \<open>\<^verbatim>\<open>strings.ContainsRune(seg, '*')\<close> looks for the byte of an ASCII rune.\<close>

fun Validate_segments :: "nat \<Rightarrow> string list \<Rightarrow> event_error option" where
  "Validate_segments i [] = None"
| "Validate_segments i (seg # segs) =
     (if CHR ''*'' \<in> set seg then Some (SegmentWithSeparator i seg)
      else Validate_segments (i + 1) segs)"

definition Event_Validate :: "Event \<Rightarrow> event_error option" where
  "Event_Validate e =
     (if ev_MNO e = [] then Some NoMNO
      else if ev_SessionID e = [] then Some NoSessionID
      else if length (ev_SessionID e) > MaxSessionIDLen
        then Some (SessionIDTooLong (length (ev_SessionID e)) MaxSessionIDLen)
      else if ev_MSISDN e = [] then Some NoMSISDN
      else if \<not> Phase_Valid (ev_Phase e) then Some (UnknownPhase (ev_Phase e))
      else if ev_Phase e = PhaseBegin \<and> ev_Path e \<noteq> []
        then Some (BeginWithInput (length (ev_Path e)))
      else Validate_segments 0 (ev_Path e))"

section \<open>Responses\<close>

record Response =
  resp_Body :: string
  resp_EndSession :: bool

definition Continue :: "string \<Rightarrow> Response" where
  "Continue body = \<lparr>resp_Body = body, resp_EndSession = False\<rparr>"

definition End :: "string \<Rightarrow> Response" where
  "End body = \<lparr>resp_Body = body, resp_EndSession = True\<rparr>"

definition empty_Response :: Response where
  "empty_Response = \<lparr>resp_Body = [], resp_EndSession = False\<rparr>"

datatype response_error = BodyTooLong nat Encoding nat

definition Response_Validate :: "Response \<Rightarrow> response_error option" where
  "Response_Validate r =
     (case ScreenCost (resp_Body r) of (cost, enc) \<Rightarrow>
        if \<not> FitsScreen (resp_Body r) then Some (BodyTooLong cost enc (Budget (resp_Body r)))
        else None)"

section \<open>What passing the checks means\<close>

lemma Validate_segments_None: "Validate_segments i segs = None \<longleftrightarrow> (\<forall>seg \<in> set segs. CHR ''*'' \<notin> set seg)"
  by (induction segs arbitrary: i) auto

lemma Validate_segments_Some:
  "Validate_segments i segs = Some err \<longleftrightarrow>
     (\<exists>j < length segs. err = SegmentWithSeparator (i + j) (segs ! j) \<and> CHR ''*'' \<in> set (segs ! j) \<and>
        (\<forall>k < j. CHR ''*'' \<notin> set (segs ! k)))"
proof (induction segs arbitrary: i)
  case (Cons seg segs)
  then show ?case
    by (auto simp: Ex_less_Suc2 All_less_Suc2)
qed simp

text \<open>The well-formedness every event of the gateway has.\<close>

definition wf_event :: "Event \<Rightarrow> bool" where
  "wf_event e \<longleftrightarrow>
     ev_MNO e \<noteq> [] \<and> ev_SessionID e \<noteq> [] \<and> length (ev_SessionID e) \<le> 128 \<and> ev_MSISDN e \<noteq> [] \<and>
     ev_Phase e \<in> {PhaseBegin, PhaseContinue, PhaseCancel, PhaseTimeout} \<and>
     (ev_Phase e = PhaseBegin \<longrightarrow> ev_Path e = []) \<and>
     (\<forall>seg \<in> set (ev_Path e). CHR ''*'' \<notin> set seg)"

lemma Event_Validate_wf: "Event_Validate e = None \<longleftrightarrow> wf_event e"
  by (auto simp: Event_Validate_def wf_event_def Validate_segments_None MaxSessionIDLen_def
      Phase_Valid_def)

lemma Response_Validate_None: "Response_Validate r = None \<longleftrightarrow> FitsScreen (resp_Body r)"
  by (simp add: Response_Validate_def case_prod_beta)

lemma response_simps [simp]:
  "resp_Body (Continue b) = b" "resp_EndSession (Continue b) = False"
  "resp_Body (End b) = b" "resp_EndSession (End b) = True"
  by (simp_all add: Continue_def End_def)

lemma phases_distinct [simp]:
  "PhaseBegin \<noteq> PhaseContinue" "PhaseContinue \<noteq> PhaseBegin"
  "\<not> Phase_Terminal PhaseBegin" "\<not> Phase_Terminal PhaseContinue"
  "Phase_Terminal PhaseCancel" "Phase_Terminal PhaseTimeout"
  by (simp_all add: phase_defs Phase_Terminal_def)

end
