(* ===== verification/Webhook_Envelope.thy ===== *)
theory Webhook_Envelope
  imports Canonical_Event
begin

text \<open>
  \<^verbatim>\<open>webhook/envelope.go\<close>: what the gateway posts to a tenant and what the tenant answers.  A
  \<^verbatim>\<open>json.RawMessage\<close> is a byte slice, which may be nil: a \<open>string option\<close>.
\<close>

type_synonym RawMessage = "string option"

definition Version :: string where
  "Version = ''1''"

record Request =
  rq_Version :: string
  rq_Event :: Event
  rq_Turn :: int
  rq_State :: RawMessage

record Reply =
  rp_Response :: Response
  rp_State :: RawMessage
  rp_ClearState :: bool

definition empty_Reply :: Reply where
  "empty_Reply = \<lparr>rp_Response = empty_Response, rp_State = None, rp_ClearState = False\<rparr>"

definition NormaliseState :: "RawMessage \<Rightarrow> RawMessage" where
  "NormaliseState state =
     (case state of
        None \<Rightarrow> None
      | Some s \<Rightarrow> if length s = 0 \<or> TrimSpace s = ''null'' then None else state)"

lemma NormaliseState_idem: "NormaliseState (NormaliseState s) = NormaliseState s"
  by (simp add: NormaliseState_def split: option.splits)

lemma NormaliseState_Some:
  "NormaliseState state = Some s \<longleftrightarrow> state = Some s \<and> s \<noteq> [] \<and> TrimSpace s \<noteq> ''null''"
  by (auto simp: NormaliseState_def split: option.splits)

end
