(* ===== verification/Session_Store.thy ===== *)
theory Session_Store
  imports Webhook_Envelope
begin

text \<open>
  \<^verbatim>\<open>gateway/internal/session/store.go\<close>: session keys, the session record, and the contract of a
  session store, as a locale over the three operations the gateway calls.  Every operation is given
  the instant its clock reads.
\<close>

section \<open>Keys and sessions\<close>

definition DefaultTTL :: duration where
  "DefaultTTL = 180 * Second"

record Key =
  key_MNO :: string
  key_SessionID :: string

datatype session_error =
    NotFound
  | KeyNoMNO
  | KeyNoSessionID
  | StoreFailure string

definition Key_String :: "Key \<Rightarrow> string" where
  "Key_String k = key_MNO k @ '':'' @ key_SessionID k"

definition Key_Validate :: "Key \<Rightarrow> session_error option" where
  "Key_Validate k =
     (if key_MNO k = [] then Some KeyNoMNO
      else if key_SessionID k = [] then Some KeyNoSessionID
      else None)"

record Session =
  se_Key :: Key
  se_Tenant :: string
  se_MSISDN :: string
  se_Shortcode :: string
  se_Turn :: int
  se_State :: RawMessage
  se_CreatedAt :: time
  se_UpdatedAt :: time

definition empty_Session :: Session where
  "empty_Session =
     \<lparr>se_Key = \<lparr>key_MNO = [], key_SessionID = []\<rparr>, se_Tenant = [], se_MSISDN = [], se_Shortcode = [],
      se_Turn = 0, se_State = None, se_CreatedAt = zero_time, se_UpdatedAt = zero_time\<rparr>"

text \<open>What every store does to the times of a session when it saves it.\<close>

definition stamp :: "time \<Rightarrow> Session \<Rightarrow> Session" where
  "stamp now s =
     (let s = s\<lparr>se_UpdatedAt := now\<rparr> in
      if IsZero (se_CreatedAt s) then s\<lparr>se_CreatedAt := now\<rparr> else s)"

lemma stamp_simps [simp]:
  "se_Key (stamp now s) = se_Key s" "se_Tenant (stamp now s) = se_Tenant s"
  "se_MSISDN (stamp now s) = se_MSISDN s" "se_Shortcode (stamp now s) = se_Shortcode s"
  "se_Turn (stamp now s) = se_Turn s" "se_State (stamp now s) = se_State s"
  "se_UpdatedAt (stamp now s) = now"
  by (simp_all add: stamp_def Let_def)

lemma Key_Validate_None: "Key_Validate k = None \<longleftrightarrow> key_MNO k \<noteq> [] \<and> key_SessionID k \<noteq> []"
  by (simp add: Key_Validate_def)

text \<open>The storage key tells keys apart as long as the network's name has no colon.\<close>

lemma Key_String_colon_free:
  assumes "CHR '':'' \<notin> set (key_MNO k)" "CHR '':'' \<notin> set (key_MNO k')" "Key_String k = Key_String k'"
  shows "k = k'"
proof -
  have upto: "takeWhile (\<lambda>c. c \<noteq> CHR '':'') (Key_String k) = key_MNO k" if "CHR '':'' \<notin> set (key_MNO k)" for k :: Key
    unfolding Key_String_def using that by (subst takeWhile_append2) auto
  have "key_MNO k = key_MNO k'" using upto [OF assms(1)] upto [OF assms(2)] assms(3) by simp
  with assms(3) show ?thesis by (simp add: Key_String_def)
qed

section \<open>What any store may do\<close>

text \<open>
  A session as it comes back from a store that encodes it: the times may differ, its strings are what \<open>enc\<close>
  makes of them, and the state may be lost or written in another form, which \<open>norm\<close> does not tell apart.
\<close>

definition reads_back :: "(string \<Rightarrow> string) \<Rightarrow> (string \<Rightarrow> string) \<Rightarrow> Session \<Rightarrow> Session \<Rightarrow> bool" where
  "reads_back enc norm x y \<longleftrightarrow>
     key_MNO (se_Key y) = enc (key_MNO (se_Key x)) \<and> key_SessionID (se_Key y) = enc (key_SessionID (se_Key x)) \<and>
     se_Tenant y = enc (se_Tenant x) \<and> se_MSISDN y = enc (se_MSISDN x) \<and> se_Turn y = se_Turn x \<and>
     (\<forall>st. se_State y = Some st \<longrightarrow> (\<exists>st0. se_State x = Some st0 \<and> norm st0 = norm st))"

text \<open>
  The weaker contract: what a store gives was saved under that key, even when saving reported a failure, and
  it may forget.
\<close>

locale session_history =
  fixes load :: "time \<Rightarrow> Key \<Rightarrow> 's \<Rightarrow> session_error + Session"
    and save :: "time \<Rightarrow> Session \<Rightarrow> 's \<Rightarrow> session_error option \<times> 's"
    and delete :: "Key \<Rightarrow> 's \<Rightarrow> session_error option \<times> 's"
    and enc norm :: "string \<Rightarrow> string"
  assumes enc_idem: "enc (enc x0) = enc x0"
    and enc_Nil: "enc x0 = [] \<longleftrightarrow> x0 = []"
    and enc_key: "enc (enc a @ '':'' @ enc b) = enc (a @ '':'' @ b)"
    and load_valid: "load t k s = Inr y \<Longrightarrow> Key_Validate k = None"
    and load_saved: "load t k (snd (save now x s)) = Inr y \<Longrightarrow>
      load t k s = Inr y \<or>
      reads_back enc norm x y \<and> Key_String k = Key_String (se_Key x) \<and> Key_Validate (se_Key x) = None"
    and load_deleted: "load t k (snd (delete k' s)) = Inr y \<Longrightarrow> load t k s = Inr y"
begin

lemma reads_back_key:
  assumes "reads_back enc norm x y"
  shows "enc (Key_String (se_Key y)) = enc (Key_String (se_Key x))"
    "Key_Validate (se_Key y) = None \<longleftrightarrow> Key_Validate (se_Key x) = None"
  using assms enc_key by (simp_all add: reads_back_def Key_String_def Key_Validate_None enc_Nil)

end

section \<open>The contract of a store\<close>

locale session_store =
  fixes load :: "time \<Rightarrow> Key \<Rightarrow> 's \<Rightarrow> session_error + Session"
    and save :: "time \<Rightarrow> Session \<Rightarrow> 's \<Rightarrow> session_error option \<times> 's"
    and delete :: "Key \<Rightarrow> 's \<Rightarrow> session_error option \<times> 's"
    and ttl :: "'s \<Rightarrow> duration"
  assumes load_invalid: "Key_Validate k = Some e \<Longrightarrow> load t k s = Inl e"
    and save_failed: "save now x s = (Some e, s') \<Longrightarrow> s' = s"
    and save_valid: "save now x s = (None, s') \<Longrightarrow> Key_Validate (se_Key x) = None"
    and load_save: "save now x s = (None, s') \<Longrightarrow> Key_Validate k = None \<Longrightarrow>
      load t k s' =
        (if Key_String k = Key_String (se_Key x)
         then if t < now + ttl s then Inr (stamp now x) else Inl NotFound
         else load t k s)"
    and delete_failed: "delete k s = (Some e, s') \<Longrightarrow> s' = s"
    and load_delete: "delete k' s = (None, s') \<Longrightarrow> Key_Validate k = None \<Longrightarrow>
      load t k s' = (if Key_String k = Key_String k' then Inl NotFound else load t k s)"
    and ttl_save: "ttl (snd (save now x s)) = ttl s"
    and ttl_delete: "ttl (snd (delete k s)) = ttl s"
begin

text \<open>What a store holds for a valid key: the session, if one is live.\<close>

definition live :: "time \<Rightarrow> 's \<Rightarrow> Key \<Rightarrow> Session option" where
  "live t s k = (case load t k s of Inl _ \<Rightarrow> None | Inr x \<Rightarrow> Some x)"

lemma live_save:
  "save now x s = (None, s') \<Longrightarrow> Key_Validate k = None \<Longrightarrow>
   live t s' k =
     (if Key_String k = Key_String (se_Key x)
      then if t < now + ttl s then Some (stamp now x) else None
      else live t s k)"
  by (simp add: live_def load_save)

lemma live_delete:
  "delete k' s = (None, s') \<Longrightarrow> Key_Validate k = None \<Longrightarrow>
   live t s' k = (if Key_String k = Key_String k' then None else live t s k)"
  by (simp add: live_def load_delete)

text \<open>Saving twice leaves what the second saved; deleting twice is deleting once.\<close>

lemma live_save_save:
  assumes "save t1 x s = (None, s1)" "save t2 y s1 = (None, s2)"
    "Key_String (se_Key x) = Key_String (se_Key y)" "Key_Validate k = None"
  shows "live t s2 k =
     (if Key_String k = Key_String (se_Key y)
      then if t < t2 + ttl s then Some (stamp t2 y) else None
      else live t s k)"
  using live_save [OF assms(1,4)] live_save [OF assms(2,4)] assms(3) ttl_save [of t1 x s] assms(1)
  by simp

lemma live_delete_delete:
  assumes "delete k1 s = (None, s1)" "delete k1 s1 = (None, s2)" "Key_Validate k = None"
  shows "live t s2 k = live t s1 k"
  using live_delete [OF assms(1,3)] live_delete [OF assms(2,3)] by simp

text \<open>No operation changes what is held under another storage key.\<close>

lemma live_frame:
  assumes "Key_Validate k = None"
  shows "Key_String k \<noteq> Key_String (se_Key x) \<Longrightarrow> live t (snd (save now x s)) k = live t s k"
    and "Key_String k \<noteq> Key_String k' \<Longrightarrow> live t (snd (delete k' s)) k = live t s k"
proof -
  show "Key_String k \<noteq> Key_String (se_Key x) \<Longrightarrow> live t (snd (save now x s)) k = live t s k"
  proof (cases "save now x s")
    case (Pair r s')
    moreover assume "Key_String k \<noteq> Key_String (se_Key x)"
    ultimately show ?thesis using assms live_save [of now x s s' k] save_failed [of now x s _ s'] by (cases r) auto
  qed
  show "Key_String k \<noteq> Key_String k' \<Longrightarrow> live t (snd (delete k' s)) k = live t s k"
  proof (cases "delete k' s")
    case (Pair r s')
    moreover assume "Key_String k \<noteq> Key_String k'"
    ultimately show ?thesis using assms live_delete [of k' s s' k] delete_failed [of k' s _ s'] by (cases r) auto
  qed
qed

end

text \<open>A store that keeps the contract keeps the weaker one, and changes no state.\<close>

lemma stamp_reads_back: "reads_back (\<lambda>s. s) (\<lambda>st. st) x (stamp now x)"
  by (simp add: reads_back_def)

sublocale session_store \<subseteq> history: session_history load save delete "\<lambda>s. s" "\<lambda>st. st"
proof unfold_locales
  fix t now :: time and k k' :: Key and s and x y :: Session
  show valid: "Key_Validate k = None" if "load t k s = Inr y" for t k s y
    using load_invalid [of k _ t s] that by (cases "Key_Validate k") auto
  show "load t k s = Inr y \<or> reads_back (\<lambda>s. s) (\<lambda>st. st) x y \<and> Key_String k = Key_String (se_Key x) \<and> Key_Validate (se_Key x) = None"
    if loads: "load t k (snd (save now x s)) = Inr y"
  proof (cases "save now x s")
    case (Pair r s')
    show ?thesis
    proof (cases r)
      case None
      then show ?thesis
        using loads Pair load_save [of now x s s' k t] save_valid [of now x s s'] valid [OF loads] stamp_reads_back
        by (auto split: if_splits)
    next
      case (Some e)
      then show ?thesis using loads Pair save_failed [of now x s e s'] by simp
    qed
  qed
  show "load t k s = Inr y" if loads: "load t k (snd (delete k' s)) = Inr y"
  proof (cases "delete k' s")
    case (Pair r s')
    then show ?thesis
      using loads load_delete [of k' s s' k t] delete_failed [of k' s _ s'] valid [OF loads]
      by (cases r) (auto split: if_splits)
  qed
qed simp_all

end
