(* ===== verification/Session_Memory.thy ===== *)
theory Session_Memory
  imports Session_Store "HOL-Library.AList_Mapping"
begin

text \<open>
  \<^verbatim>\<open>gateway/internal/session/memory.go\<close>: the in-process session store.  An operation runs under the
  store's mutex, so it is one step; the clock it reads is its first argument.  Iterating over a Go
  map visits the keys in an order of the runtime's choosing, which is an argument of the sweep.
\<close>

section \<open>The code\<close>

record memoryItem =
  it_session :: Session
  it_expiresAt :: time

record Memory =
  mem_ttl :: duration
  mem_items :: "(string, memoryItem) mapping"
  mem_stopped :: bool

datatype MemoryOption = WithTTL duration

fun NewMemory_options :: "Memory \<Rightarrow> MemoryOption list \<Rightarrow> Memory" where
  "NewMemory_options m [] = m"
| "NewMemory_options m (WithTTL ttl # opts) = NewMemory_options (m\<lparr>mem_ttl := ttl\<rparr>) opts"

definition NewMemory :: "MemoryOption list \<Rightarrow> Memory" where
  "NewMemory opts =
     NewMemory_options \<lparr>mem_ttl = DefaultTTL, mem_items = Mapping.empty, mem_stopped = False\<rparr> opts"

definition Memory_Load :: "time \<Rightarrow> Key \<Rightarrow> Memory \<Rightarrow> session_error + Session" where
  "Memory_Load now key m =
     (case Key_Validate key of
        Some e \<Rightarrow> Inl e
      | None \<Rightarrow>
          (case Mapping.lookup (mem_items m) (Key_String key) of
             None \<Rightarrow> Inl NotFound
           | Some item \<Rightarrow>
               if \<not> Before now (it_expiresAt item) then Inl NotFound
               else Inr (it_session item)))"

definition Memory_Save :: "time \<Rightarrow> Session \<Rightarrow> Memory \<Rightarrow> session_error option \<times> Memory" where
  "Memory_Save now s m =
     (case Key_Validate (se_Key s) of
        Some e \<Rightarrow> (Some e, m)
      | None \<Rightarrow>
          (None, m\<lparr>mem_items :=
             Mapping.update (Key_String (se_Key s))
               \<lparr>it_session = stamp now s, it_expiresAt = now + mem_ttl m\<rparr> (mem_items m)\<rparr>))"

definition Memory_Delete :: "Key \<Rightarrow> Memory \<Rightarrow> session_error option \<times> Memory" where
  "Memory_Delete key m = (None, m\<lparr>mem_items := Mapping.delete (Key_String key) (mem_items m)\<rparr>)"

definition Memory_Close :: "Memory \<Rightarrow> Memory" where
  "Memory_Close m = m\<lparr>mem_stopped := True\<rparr>"

definition Memory_Len :: "Memory \<Rightarrow> nat" where
  "Memory_Len m = Mapping.size (mem_items m)"

fun evict_loop :: "time \<Rightarrow> string list \<Rightarrow> (string, memoryItem) mapping \<Rightarrow> (string, memoryItem) mapping" where
  "evict_loop now [] items = items"
| "evict_loop now (k # ks) items =
     evict_loop now ks
       (case Mapping.lookup items k of
          None \<Rightarrow> items
        | Some item \<Rightarrow> if \<not> Before now (it_expiresAt item) then Mapping.delete k items else items)"

definition evictExpired :: "time \<Rightarrow> string list \<Rightarrow> Memory \<Rightarrow> Memory" where
  "evictExpired now order m = m\<lparr>mem_items := evict_loop now order (mem_items m)\<rparr>"

definition sweep_interval :: "duration \<Rightarrow> duration" where
  "sweep_interval ttl =
     (let interval = (if ttl < 0 then - ((- ttl) div 4) else ttl div 4) in
      if interval < Second then Second else interval)"

section \<open>The store contract\<close>

lemma lookup_delete_if: "Mapping.lookup (Mapping.delete k m) k' = (if k = k' then None else Mapping.lookup m k')"
  by (simp add: lookup_delete lookup_delete_neq)

text \<open>The item a read can still serve.\<close>

definition unexpired :: "time \<Rightarrow> memoryItem option \<Rightarrow> memoryItem option" where
  "unexpired t found = (case found of None \<Rightarrow> None | Some item \<Rightarrow> if t < it_expiresAt item then found else None)"

lemma Memory_Load_unexpired:
  "Memory_Load t k m =
     (case Key_Validate k of
        Some e \<Rightarrow> Inl e
      | None \<Rightarrow> (case unexpired t (Mapping.lookup (mem_items m) (Key_String k)) of
           None \<Rightarrow> Inl NotFound
         | Some item \<Rightarrow> Inr (it_session item)))"
  by (simp add: Memory_Load_def unexpired_def Before_def split: option.split)

lemma Memory_Load_cong:
  "unexpired t (Mapping.lookup (mem_items m) (Key_String k)) =
     unexpired t (Mapping.lookup (mem_items m') (Key_String k)) \<Longrightarrow>
   Memory_Load t k m = Memory_Load t k m'"
  by (simp only: Memory_Load_unexpired)

interpretation memory: session_store Memory_Load Memory_Save Memory_Delete mem_ttl
proof unfold_locales
  fix k k' :: Key and now t :: time and x :: Session and s s' :: Memory and e
  show "Key_Validate k = Some e \<Longrightarrow> Memory_Load t k s = Inl e"
    by (simp add: Memory_Load_def)
  show "Memory_Save now x s = (Some e, s') \<Longrightarrow> s' = s"
    by (auto simp: Memory_Save_def split: option.splits)
  show "Memory_Save now x s = (None, s') \<Longrightarrow> Key_Validate (se_Key x) = None"
    by (auto simp: Memory_Save_def split: option.splits)
  show "Memory_Save now x s = (None, s') \<Longrightarrow> Key_Validate k = None \<Longrightarrow>
      Memory_Load t k s' =
        (if Key_String k = Key_String (se_Key x)
         then if t < now + mem_ttl s then Inr (stamp now x) else Inl NotFound
         else Memory_Load t k s)"
    by (cases "Key_String k = Key_String (se_Key x)"; cases "Key_Validate (se_Key x)")
      (auto simp: Memory_Save_def Memory_Load_def Before_def Mapping.lookup_update')
  show "Memory_Delete k s = (Some e, s') \<Longrightarrow> s' = s"
    by (simp add: Memory_Delete_def)
  show "Memory_Delete k' s = (None, s') \<Longrightarrow> Key_Validate k = None \<Longrightarrow>
      Memory_Load t k s' = (if Key_String k = Key_String k' then Inl NotFound else Memory_Load t k s)"
    by (auto simp: Memory_Delete_def Memory_Load_def lookup_delete_if)
  show "mem_ttl (snd (Memory_Save now x s)) = mem_ttl s"
    by (simp add: Memory_Save_def split: option.splits)
  show "mem_ttl (snd (Memory_Delete k s)) = mem_ttl s"
    by (simp add: Memory_Delete_def)
qed

section \<open>The sweeper\<close>

text \<open>In whatever order the keys are visited, the sweep removes exactly what has expired.\<close>

lemma lookup_evict_loop:
  "Mapping.lookup (evict_loop now ks items) k =
     (case Mapping.lookup items k of
        None \<Rightarrow> None
      | Some item \<Rightarrow> if k \<in> set ks \<and> \<not> now < it_expiresAt item then None else Some item)"
proof (induction now ks items rule: evict_loop.induct)
  case (2 now k' ks items)
  show ?case
  proof (cases "k = k'")
    case True
    then show ?thesis using 2
      by (cases "Mapping.lookup items k'") (auto simp: Before_def lookup_delete_if split: option.splits)
  next
    case False
    then show ?thesis using 2
      by (cases "Mapping.lookup items k'") (auto simp: Before_def lookup_delete_if split: option.splits)
  qed
qed (simp split: option.splits)

lemma unexpired_evict:
  "now \<le> t \<Longrightarrow> unexpired t (Mapping.lookup (evict_loop now ks items) k) = unexpired t (Mapping.lookup items k)"
  by (cases "Mapping.lookup items k") (auto simp: unexpired_def lookup_evict_loop)

lemma Memory_Load_evict: "now \<le> t \<Longrightarrow> Memory_Load t k (evictExpired now order m) = Memory_Load t k m"
  by (rule Memory_Load_cong) (simp add: evictExpired_def unexpired_evict)

lemma evict_complete:
  assumes "set order = Mapping.keys (mem_items m)" "Mapping.lookup (mem_items (evictExpired now order m)) k = Some item"
  shows "now < it_expiresAt item"
proof -
  from assms(2) have "Mapping.lookup (mem_items m) k = Some item"
    "\<not> (k \<in> set order \<and> \<not> now < it_expiresAt item)"
    by (auto simp: evictExpired_def lookup_evict_loop split: option.splits if_splits)
  moreover from this(1) assms(1) have "k \<in> set order" by (auto simp: keys_dom_lookup)
  ultimately show ?thesis by blast
qed

section \<open>Interleavings\<close>

text \<open>
  A history of a store: operations in the order in which they hold the mutex, each with the instant
  its clock read.  What a client observes are the results of its own calls.
\<close>

datatype mem_op = OpLoad Key | OpSave Session | OpDelete Key | OpEvict "string list"

datatype mem_result = Loaded "session_error + Session" | Saved "session_error option" | Deleted "session_error option"

fun mem_step :: "time \<Rightarrow> mem_op \<Rightarrow> Memory \<Rightarrow> mem_result list \<times> Memory" where
  "mem_step now (OpLoad k) m = ([Loaded (Memory_Load now k m)], m)"
| "mem_step now (OpSave s) m = (case Memory_Save now s m of (r, m') \<Rightarrow> ([Saved r], m'))"
| "mem_step now (OpDelete k) m = (case Memory_Delete k m of (r, m') \<Rightarrow> ([Deleted r], m'))"
| "mem_step now (OpEvict order) m = ([], evictExpired now order m)"

fun mem_run :: "(time \<times> mem_op) list \<Rightarrow> Memory \<Rightarrow> mem_result list \<times> Memory" where
  "mem_run [] m = ([], m)"
| "mem_run ((now, oper) # rest) m =
     (case mem_step now oper m of (out, m') \<Rightarrow>
        case mem_run rest m' of (outs, m'') \<Rightarrow> (out @ outs, m''))"

fun is_evict :: "mem_op \<Rightarrow> bool" where
  "is_evict (OpEvict _) = True"
| "is_evict _ = False"

text \<open>
  Two stores that agree on everything not yet expired at an instant cannot be told apart from that
  instant on.
\<close>

definition same_from :: "time \<Rightarrow> Memory \<Rightarrow> Memory \<Rightarrow> bool" where
  "same_from now m m' \<longleftrightarrow> mem_ttl m = mem_ttl m' \<and>
     (\<forall>k t. now \<le> t \<longrightarrow>
        unexpired t (Mapping.lookup (mem_items m) k) = unexpired t (Mapping.lookup (mem_items m') k))"

lemma same_from_refl: "same_from now m m"
  by (simp add: same_from_def)

lemma same_from_later: "same_from now m m' \<Longrightarrow> now \<le> now' \<Longrightarrow> same_from now' m m'"
  by (simp add: same_from_def)

lemma same_from_Load: "same_from now m m' \<Longrightarrow> now \<le> t \<Longrightarrow> Memory_Load t k m = Memory_Load t k m'"
  by (rule Memory_Load_cong) (simp add: same_from_def)

lemma same_from_Save:
  assumes "same_from now m m'"
  shows "fst (Memory_Save t s m) = fst (Memory_Save t s m')"
    and "same_from now (snd (Memory_Save t s m)) (snd (Memory_Save t s m'))"
  using assms
  by (cases "Key_Validate (se_Key s)"; simp add: Memory_Save_def same_from_def Mapping.lookup_update')+

lemma same_from_Delete:
  "same_from now m m' \<Longrightarrow> same_from now (snd (Memory_Delete k m)) (snd (Memory_Delete k m'))"
  by (simp add: Memory_Delete_def same_from_def lookup_delete_if)

lemma same_from_evict: "same_from now m m' \<Longrightarrow> now \<le> t \<Longrightarrow> same_from t (evictExpired t order m) m'"
  by (simp add: evictExpired_def same_from_def unexpired_evict)

text \<open>The sweeps of a history, whenever they run, change nothing a client observes.\<close>

lemma mem_run_sweeps:
  assumes "sorted (map fst ops)" "\<forall>t \<in> set (map fst ops). now \<le> t" "same_from now m m'"
  shows "fst (mem_run ops m) = fst (mem_run (filter (\<lambda>(t, oper). \<not> is_evict oper) ops) m')"
  using assms
proof (induction ops arbitrary: now m m')
  case (Cons op ops)
  obtain t oper where op: "op = (t, oper)" by (cases op)
  have tl: "sorted (map fst ops)" "\<forall>u \<in> set (map fst ops). t \<le> u" "now \<le> t"
    using Cons.prems op by auto
  note IH = Cons.IH [OF tl(1,2)]
  have same: "same_from t m m'" by (rule same_from_later [OF Cons.prems(3) tl(3)])
  show ?case
  proof (cases oper)
    case (OpLoad k)
    then show ?thesis using op IH [OF same] same_from_Load [OF same, of t k]
      by (simp add: case_prod_beta)
  next
    case (OpSave s)
    then show ?thesis using op IH [OF same_from_Save(2) [OF same]] same_from_Save(1) [OF same, of t s]
      by (simp add: case_prod_beta)
  next
    case (OpDelete k)
    then show ?thesis using op IH [OF same_from_Delete [OF same]]
      by (simp add: case_prod_beta Memory_Delete_def)
  next
    case (OpEvict order)
    then show ?thesis using op IH [OF same_from_evict [OF same order_refl]]
      by (simp add: case_prod_beta)
  qed
qed simp

section \<open>The invariant of the items\<close>

text \<open>Every item stands under the key of its session, was stamped, and expires a lifetime after.\<close>

definition mem_inv :: "Memory \<Rightarrow> bool" where
  "mem_inv m \<longleftrightarrow>
     (\<forall>k item. Mapping.lookup (mem_items m) k = Some item \<longrightarrow>
        k = Key_String (se_Key (it_session item)) \<and> Key_Validate (se_Key (it_session item)) = None \<and>
        it_expiresAt item = se_UpdatedAt (it_session item) + mem_ttl m)"

lemma mem_inv_NewMemory: "mem_inv (NewMemory opts)"
proof -
  have "mem_inv (NewMemory_options m opts)" if "mem_items m = Mapping.empty" for m
    using that by (induction m opts rule: NewMemory_options.induct) (auto simp: mem_inv_def)
  then show ?thesis by (simp add: NewMemory_def)
qed

lemma mem_inv_Save: "mem_inv m \<Longrightarrow> mem_inv (snd (Memory_Save now s m))"
  by (auto simp: mem_inv_def Memory_Save_def Mapping.lookup_update' split: option.splits)

lemma mem_inv_Delete: "mem_inv m \<Longrightarrow> mem_inv (snd (Memory_Delete k m))"
  by (auto simp: mem_inv_def Memory_Delete_def lookup_delete_if split: if_splits)

lemma mem_inv_evict: "mem_inv m \<Longrightarrow> mem_inv (evictExpired now order m)"
  by (auto simp: mem_inv_def evictExpired_def lookup_evict_loop split: option.splits if_splits)

lemma mem_inv_run: "mem_inv m \<Longrightarrow> mem_inv (snd (mem_run ops m))"
proof (induction ops m rule: mem_run.induct)
  case (2 now oper rest m)
  have "mem_inv (snd (mem_step now oper m))"
    using 2(2) by (cases oper) (auto simp: mem_inv_Save mem_inv_Delete mem_inv_evict case_prod_beta)
  then show ?case using 2(1) [OF prod.collapse] by (simp add: case_prod_beta)
qed simp

lemma Memory_Load_key:
  "mem_inv m \<Longrightarrow> Memory_Load t k m = Inr s \<Longrightarrow> Key_String (se_Key s) = Key_String k \<and> t < se_UpdatedAt s + mem_ttl m"
  by (auto simp: Memory_Load_def mem_inv_def Before_def split: option.splits if_splits)

end
