(* ===== verification/Go_Strconv.thy ===== *)
theory Go_Strconv
  imports Go_Prelude "HOL-Library.Char_ord"
begin

text \<open>
  What the program uses of \<^verbatim>\<open>strconv\<close> and \<^verbatim>\<open>encoding/hex\<close>: decimal integers of 64 bits, both
  ways, and the hexadecimal form of a byte string.
\<close>

section \<open>Printing\<close>

fun digits :: "nat \<Rightarrow> string" where
  "digits n = (if n < 10 then [char_of (48 + n)] else digits (n div 10) @ [char_of (48 + n mod 10)])"

declare digits.simps [simp del]

definition FormatInt :: "int \<Rightarrow> string" where
  "FormatInt i = (if i < 0 then CHR ''-'' # digits (nat (- i)) else digits (nat i))"

definition is_digit :: "char \<Rightarrow> bool" where
  "is_digit c \<longleftrightarrow> 48 \<le> (of_char c :: nat) \<and> of_char c \<le> (57 :: nat)"

section \<open>Parsing\<close>

fun ParseUint_loop :: "nat \<Rightarrow> string \<Rightarrow> nat option" where
  "ParseUint_loop n [] = Some n"
| "ParseUint_loop n (c # cs) = (if is_digit c then ParseUint_loop (10 * n + (of_char c - 48)) cs else None)"

definition ParseUint :: "string \<Rightarrow> nat option" where
  "ParseUint s = (if s = [] then None else ParseUint_loop 0 s)"

text \<open>
  \<^verbatim>\<open>ParseInt(s, 10, 64)\<close>, and \<^verbatim>\<open>Atoi\<close> on a 64-bit machine: an optional sign, at least one digit, and
  a value of 64 bits.  A syntax error and a range error are both no result.
\<close>

definition MaxInt64 :: int where
  "MaxInt64 = 2 ^ 63 - 1"

definition MinInt64 :: int where
  "MinInt64 = - (2 ^ 63)"

definition ParseInt :: "string \<Rightarrow> int option" where
  "ParseInt s =
     (case s of
        [] \<Rightarrow> None
      | c # cs \<Rightarrow>
          (case ParseUint (if c = CHR ''+'' \<or> c = CHR ''-'' then cs else s) of
             None \<Rightarrow> None
           | Some n \<Rightarrow>
               let i = (if c = CHR ''-'' then - int n else int n) in
               if MinInt64 \<le> i \<and> i \<le> MaxInt64 then Some i else None))"

definition Atoi :: "string \<Rightarrow> int option" where
  "Atoi s = ParseInt s"

section \<open>Printing and parsing\<close>

lemma is_digit_char_of [simp]: "(n :: nat) < 10 \<Longrightarrow> is_digit (char_of (48 + n))"
  by (simp add: is_digit_def)

lemma digits_nonempty [simp]: "digits n \<noteq> []"
  by (subst digits.simps) simp

lemma digits_digit: "c \<in> set (digits n) \<Longrightarrow> is_digit c"
proof (induction n rule: digits.induct)
  case (1 n)
  then show ?case by (cases "n < 10") (auto simp: digits.simps [of n])
qed

lemma ParseUint_loop_append:
  "ParseUint_loop n (s @ t) = (case ParseUint_loop n s of None \<Rightarrow> None | Some m \<Rightarrow> ParseUint_loop m t)"
  by (induction n s rule: ParseUint_loop.induct) auto

lemma ParseUint_loop_digits: "ParseUint_loop 0 (digits n) = Some n"
proof (induction n rule: digits.induct)
  case (1 n)
  show ?case
  proof (cases "n < 10")
    case True
    then show ?thesis by (simp add: digits.simps [of n])
  next
    case False
    then show ?thesis using 1 by (simp add: digits.simps [of n] ParseUint_loop_append)
  qed
qed

lemma ParseUint_digits: "ParseUint (digits n) = Some n"
  by (simp add: ParseUint_def ParseUint_loop_digits)

lemma digits_no_sign: "digits n = c # cs \<Longrightarrow> c \<noteq> CHR ''+'' \<and> c \<noteq> CHR ''-''"
  using digits_digit [of c n] by (auto simp: is_digit_def)

lemma ParseInt_FormatInt: "MinInt64 \<le> i \<Longrightarrow> i \<le> MaxInt64 \<Longrightarrow> ParseInt (FormatInt i) = Some i"
proof (cases "i < 0")
  case True
  then show "MinInt64 \<le> i \<Longrightarrow> i \<le> MaxInt64 \<Longrightarrow> ParseInt (FormatInt i) = Some i"
    by (simp add: ParseInt_def FormatInt_def ParseUint_digits Let_def)
next
  case False
  then obtain c cs where d: "digits (nat i) = c # cs" by (cases "digits (nat i)") auto
  with False show "MinInt64 \<le> i \<Longrightarrow> i \<le> MaxInt64 \<Longrightarrow> ParseInt (FormatInt i) = Some i"
    using digits_no_sign [OF d] ParseUint_digits [of "nat i"]
    by (simp add: ParseInt_def FormatInt_def Let_def)
qed

lemma FormatInt_chars: "c \<in> set (FormatInt i) \<Longrightarrow> is_digit c \<or> c = CHR ''-''"
  by (auto simp: FormatInt_def dest: digits_digit split: if_splits)

lemma FormatInt_nonempty [simp]: "FormatInt i \<noteq> []"
  by (simp add: FormatInt_def)

lemma FormatInt_inject [simp]: "FormatInt i = FormatInt j \<longleftrightarrow> i = j"
proof
  have dig: "m = n" if "digits m = digits n" for m n
    using that by (metis ParseUint_digits option.inject)
  assume eq: "FormatInt i = FormatInt j"
  have sign: "CHR ''-'' # digits m \<noteq> digits n" for m n
    using digits_no_sign [of n "CHR ''-''" "digits m"] by auto
  show "i = j"
  proof (cases "i < 0 \<longleftrightarrow> j < 0")
    case True
    then show ?thesis using eq dig [of "nat (- i)" "nat (- j)"] dig [of "nat i" "nat j"]
      by (simp add: FormatInt_def split: if_splits)
  next
    case False
    then show ?thesis using eq sign [of "nat (- i)" "nat j"] sign [of "nat (- j)" "nat i", symmetric]
      by (simp add: FormatInt_def split: if_splits)
  qed
qed simp

lemma ParseInt_range: "ParseInt s = Some i \<Longrightarrow> MinInt64 \<le> i \<and> i \<le> MaxInt64"
  by (auto simp: ParseInt_def Let_def split: list.splits option.splits if_splits)

section \<open>Hexadecimal\<close>

definition hex_value :: "char \<Rightarrow> int option" where
  "hex_value c =
     (let n = of_char c :: nat in
      if is_digit c then Some (int n - 48)
      else if 97 \<le> n \<and> n \<le> 102 then Some (int n - 87)
      else if 65 \<le> n \<and> n \<le> 70 then Some (int n - 55)
      else None)"

definition hex_digit :: "nat \<Rightarrow> char" where
  "hex_digit n = (if n < 10 then char_of (48 + n) else char_of (87 + n))"

fun hex_EncodeToString :: "string \<Rightarrow> string" where
  "hex_EncodeToString [] = []"
| "hex_EncodeToString (c # cs) =
     hex_digit (of_char c div 16) # hex_digit (of_char c mod 16) # hex_EncodeToString cs"

lemma hex_digit_inject: "m < 16 \<Longrightarrow> n < 16 \<Longrightarrow> hex_digit m = hex_digit n \<longleftrightarrow> m = n"
proof -
  assume "m < 16" "n < 16"
  then have "\<forall>m \<in> set [0..<16]. \<forall>n \<in> set [0..<16]. hex_digit m = hex_digit n \<longrightarrow> m = n"
    by code_simp
  with \<open>m < 16\<close> \<open>n < 16\<close> show ?thesis by auto
qed

lemma of_char_less_256: "of_char c < (256 :: nat)"
  by (metis of_char_of char_of_char mod_less_divisor zero_less_numeral)

lemma hex_EncodeToString_inject [simp]: "hex_EncodeToString s = hex_EncodeToString t \<longleftrightarrow> s = t"
proof
  show "hex_EncodeToString s = hex_EncodeToString t \<Longrightarrow> s = t"
  proof (induction s arbitrary: t)
    case (Cons c s)
    then obtain d u where t: "t = d # u" by (cases t) auto
    have "of_char c div 16 < (16 :: nat)" "of_char d div 16 < (16 :: nat)"
      using of_char_less_256 [of c] of_char_less_256 [of d] by (auto intro: less_mult_imp_div_less)
    then have "of_char c div 16 = (of_char d div 16 :: nat)" "of_char c mod 16 = (of_char d mod 16 :: nat)"
      using Cons.prems t by (simp_all add: hex_digit_inject)
    then have "of_char c = (of_char d :: nat)" by (metis div_mult_mod_eq)
    then show ?case using Cons.IH [of u] Cons.prems t by (simp add: of_char_eq_iff)
  next
    case Nil
    then show ?case by (cases t) auto
  qed
qed simp

end
