(* ===== verification/Go_Http.thy ===== *)
theory Go_Http
  imports Go_Strconv
begin

text \<open>
  What the program uses of \<^verbatim>\<open>net/http\<close>: headers, whose names are compared in canonical form, the
  parts of a request that are read, and what has been written to a response.
\<close>

section \<open>Headers\<close>

type_synonym header = "string \<rightharpoonup> string list"

definition is_lower :: "char \<Rightarrow> bool" where
  "is_lower c \<longleftrightarrow> 97 \<le> (of_char c :: nat) \<and> of_char c \<le> (122 :: nat)"

definition is_upper :: "char \<Rightarrow> bool" where
  "is_upper c \<longleftrightarrow> 65 \<le> (of_char c :: nat) \<and> of_char c \<le> (90 :: nat)"

definition to_lower :: "char \<Rightarrow> char" where
  "to_lower c = (if is_upper c then char_of (of_char c + (32 :: nat)) else c)"

definition to_upper :: "char \<Rightarrow> char" where
  "to_upper c = (if is_lower c then char_of (of_char c - (32 :: nat)) else c)"

definition token_byte :: "char \<Rightarrow> bool" where
  "token_byte c \<longleftrightarrow> is_lower c \<or> is_upper c \<or> is_digit c \<or> c \<in> set ''!#$%&*+-.^_`|~'' \<or> c = CHR 0x27"

fun canonical_loop :: "bool \<Rightarrow> string \<Rightarrow> string" where
  "canonical_loop upper [] = []"
| "canonical_loop upper (c # cs) =
     (if upper then to_upper c else to_lower c) # canonical_loop (c = CHR ''-'') cs"

definition CanonicalHeaderKey :: "string \<Rightarrow> string" where
  "CanonicalHeaderKey s = (if list_all token_byte s then canonical_loop True s else s)"

definition Header_Get :: "header \<Rightarrow> string \<Rightarrow> string" where
  "Header_Get h key = (case h (CanonicalHeaderKey key) of Some (v # _) \<Rightarrow> v | _ \<Rightarrow> [])"

definition Header_Set :: "header \<Rightarrow> string \<Rightarrow> string \<Rightarrow> header" where
  "Header_Set h key v = h(CanonicalHeaderKey key \<mapsto> [v])"

definition Header_Values :: "header \<Rightarrow> string \<Rightarrow> string list" where
  "Header_Values h key = (case h (CanonicalHeaderKey key) of Some vs \<Rightarrow> vs | None \<Rightarrow> [])"

lemma Header_Get_Set:
  "Header_Get (Header_Set h k v) k' =
     (if CanonicalHeaderKey k = CanonicalHeaderKey k' then v else Header_Get h k')"
  by (simp add: Header_Get_def Header_Set_def)

section \<open>Requests and responses\<close>

record http_request =
  hr_Method :: string
  hr_Header :: header
  hr_RemoteAddr :: string
  hr_Body :: string
  hr_BodyError :: "string option"

text \<open>
  \<^verbatim>\<open>io.ReadAll(io.LimitReader(body, n))\<close> on a body of these bytes, followed by its end or by an error
  of the connection: an error behind the limit is never seen.
\<close>

definition ReadAll_limited :: "nat \<Rightarrow> string \<Rightarrow> string option \<Rightarrow> string + string" where
  "ReadAll_limited n body err =
     (if n \<le> length body then Inr (take n body)
      else case err of None \<Rightarrow> Inr body | Some e \<Rightarrow> Inl e)"

lemma ReadAll_limited_within:
  "ReadAll_limited (n + 1) body err = Inr raw \<Longrightarrow> length raw \<le> n \<Longrightarrow> raw = body \<and> err = None"
  by (auto simp: ReadAll_limited_def split: if_splits option.splits)

text \<open>
  A response writer: the status once it is sent, the headers, and the bytes of the body.  The first
  \<^verbatim>\<open>WriteHeader\<close> counts; writing before it sends 200.
\<close>

record http_writer =
  hw_Status :: "nat option"
  hw_Header :: header
  hw_Body :: string

definition new_writer :: http_writer where
  "new_writer = \<lparr>hw_Status = None, hw_Header = Map.empty, hw_Body = []\<rparr>"

definition set_header :: "string \<Rightarrow> string \<Rightarrow> http_writer \<Rightarrow> http_writer" where
  "set_header k v w = (if hw_Status w = None then w\<lparr>hw_Header := Header_Set (hw_Header w) k v\<rparr> else w)"

definition WriteHeader :: "nat \<Rightarrow> http_writer \<Rightarrow> http_writer" where
  "WriteHeader code w = (if hw_Status w = None then w\<lparr>hw_Status := Some code\<rparr> else w)"

definition Write :: "string \<Rightarrow> http_writer \<Rightarrow> http_writer" where
  "Write s w = (WriteHeader 200 w)\<lparr>hw_Body := hw_Body w @ s\<rparr>"

definition http_Error :: "string \<Rightarrow> nat \<Rightarrow> http_writer \<Rightarrow> http_writer" where
  "http_Error msg code w =
     Write (msg @ [CHR 0x0A]) (WriteHeader code
       (set_header ''X-Content-Type-Options'' ''nosniff''
         (set_header ''Content-Type'' ''text/plain; charset=utf-8'' w)))"

lemma writer_simps [simp]:
  "hw_Status new_writer = None" "hw_Body new_writer = []"
  "hw_Status (set_header k v w) = hw_Status w" "hw_Body (set_header k v w) = hw_Body w"
  "hw_Body (WriteHeader code w) = hw_Body w" "hw_Body (Write s w) = hw_Body w @ s"
  "hw_Status w = None \<Longrightarrow> hw_Status (WriteHeader code w) = Some code"
  "hw_Status w = Some c \<Longrightarrow> hw_Status (WriteHeader code w) = Some c"
  "hw_Status w = None \<Longrightarrow> hw_Status (Write s w) = Some 200"
  "hw_Status w = Some c \<Longrightarrow> hw_Status (Write s w) = Some c"
  by (simp_all add: new_writer_def set_header_def WriteHeader_def Write_def)

lemma http_Error_simps [simp]:
  "hw_Status w = None \<Longrightarrow> hw_Status (http_Error msg code w) = Some code"
  "hw_Body (http_Error msg code w) = hw_Body w @ msg @ [CHR 0x0A]"
  by (simp_all add: http_Error_def)

end
