(* ===== verification/Webhook_Sign.thy ===== *)
theory Webhook_Sign
  imports Go_Http Go_Time
begin

text \<open>
  \<^verbatim>\<open>webhook/sign.go\<close>: signing a delivery and checking the signature.  HMAC-SHA256 is outside the
  repository; it is the parameter \<open>mac\<close>, a function of the secret and the message.
\<close>

definition HeaderTimestamp :: string where
  "HeaderTimestamp = ''X-OpenUSSD-Timestamp''"

definition HeaderSignature :: string where
  "HeaderSignature = ''X-OpenUSSD-Signature''"

definition HeaderTenant :: string where
  "HeaderTenant = ''X-OpenUSSD-Tenant''"

definition SchemeV1 :: string where
  "SchemeV1 = ''v1''"

definition DefaultTolerance :: duration where
  "DefaultTolerance = 5 * 60 * Second"

text \<open>The texts of the one error \<^verbatim>\<open>ErrInvalidSignature\<close>.\<close>

datatype verify_error =
    NoSecretConfigured
  | MissingTimestamp
  | UnparseableTimestamp
  | TimestampSkew duration
  | UnsupportedScheme
  | InvalidSignature

section \<open>The code\<close>

definition signed_text :: "int \<Rightarrow> string \<Rightarrow> string" where
  "signed_text unix body = (FormatInt unix @ ''.'') @ body"

definition Signature :: "(string \<Rightarrow> string \<Rightarrow> string) \<Rightarrow> string \<Rightarrow> time \<Rightarrow> string \<Rightarrow> string" where
  "Signature mac secret ts body =
     SchemeV1 @ ''='' @ hex_EncodeToString (mac secret (signed_text (Unix_seconds ts) body))"

definition Sign :: "(string \<Rightarrow> string \<Rightarrow> string) \<Rightarrow> header \<Rightarrow> string \<Rightarrow> time \<Rightarrow> string \<Rightarrow> header" where
  "Sign mac h secret ts body =
     Header_Set (Header_Set h HeaderTimestamp (FormatInt (Unix_seconds ts)))
       HeaderSignature (Signature mac secret ts body)"

definition Verify ::
    "(string \<Rightarrow> string \<Rightarrow> string) \<Rightarrow> header \<Rightarrow> string \<Rightarrow> string \<Rightarrow> time \<Rightarrow> duration \<Rightarrow> verify_error option" where
  "Verify mac h secret body now tolerance =
     (if secret = [] then Some NoSecretConfigured
      else let rawTS = Header_Get h HeaderTimestamp in
      if rawTS = [] then Some MissingTimestamp
      else case ParseInt rawTS of
        None \<Rightarrow> Some UnparseableTimestamp
      | Some unix \<Rightarrow>
          let ts = time_Unix unix;
              tolerance = (if tolerance \<le> 0 then DefaultTolerance else tolerance);
              skew = Time_Sub now ts in
          if skew > tolerance \<or> skew < - tolerance then Some (TimestampSkew skew)
          else let got = Header_Get h HeaderSignature in
          if \<not> prefix (SchemeV1 @ ''='') got then Some UnsupportedScheme
          else if got \<noteq> Signature mac secret ts body then Some InvalidSignature
          else None)"

section \<open>What is accepted\<close>

abbreviation effective_tolerance :: "duration \<Rightarrow> duration" where
  "effective_tolerance tol \<equiv> if tol \<le> 0 then DefaultTolerance else tol"

lemma header_names_differ:
  "CanonicalHeaderKey HeaderSignature \<noteq> CanonicalHeaderKey HeaderTimestamp"
  by code_simp

lemma Header_Get_Sign:
  "Header_Get (Sign mac h secret ts body) HeaderTimestamp = FormatInt (Unix_seconds ts)"
  "Header_Get (Sign mac h secret ts body) HeaderSignature = Signature mac secret ts body"
  using header_names_differ by (simp_all add: Sign_def Header_Get_Set)

lemma prefix_Signature: "prefix (SchemeV1 @ ''='') (Signature mac secret ts body)"
  by (simp add: Signature_def)

lemma Verify_None:
  "Verify mac h secret body now tol = None \<longleftrightarrow>
     secret \<noteq> [] \<and>
     (\<exists>unix. ParseInt (Header_Get h HeaderTimestamp) = Some unix \<and>
        \<bar>Time_Sub now (time_Unix unix)\<bar> \<le> effective_tolerance tol \<and>
        Header_Get h HeaderSignature = Signature mac secret (time_Unix unix) body)"
proof -
  have "ParseInt [] = None" by (simp add: ParseInt_def)
  then show ?thesis
    using prefix_Signature
    by (auto simp: Verify_def Let_def abs_le_iff split: option.splits)
qed

lemma Verify_Sign:
  assumes "secret \<noteq> []" "representable ts"
    "\<bar>Time_Sub now (ts div Second * Second)\<bar> \<le> effective_tolerance tol"
  shows "Verify mac (Sign mac h secret ts body) secret body now tol = None"
proof -
  have parse: "ParseInt (FormatInt (Unix_seconds ts)) = Some (Unix_seconds ts)"
    using wrap64_range [of "ts div Second"]
    by (intro ParseInt_FormatInt) (simp_all add: Unix_seconds_def MinInt64_def MaxInt64_def)
  have floor: "time_Unix (Unix_seconds ts) = ts div Second * Second"
    by (rule time_Unix_Unix_seconds [OF assms(2)])
  have "Unix_seconds (ts div Second * Second) = Unix_seconds ts"
    by (simp add: Unix_seconds_def Second_def)
  then have "Signature mac secret ts body = Signature mac secret (ts div Second * Second) body"
    by (simp add: Signature_def)
  with parse floor assms(1,3) show ?thesis
    by (simp add: Verify_None Header_Get_Sign)
qed

text \<open>
  The signed text determines the timestamp and the body: the timestamp has no dot, so no byte can
  be moved between them.
\<close>

lemma signed_text_inject: "signed_text i b = signed_text j c \<longleftrightarrow> i = j \<and> b = c"
proof
  have dot: "takeWhile (\<lambda>c. c \<noteq> CHR ''.'') (signed_text i b) = FormatInt i" for i b
  proof -
    have "\<forall>c \<in> set (FormatInt i). c \<noteq> CHR ''.''"
      by (auto dest: FormatInt_chars simp: is_digit_def)
    then show ?thesis by (simp add: signed_text_def takeWhile_append2)
  qed
  assume eq: "signed_text i b = signed_text j c"
  then have "FormatInt i = FormatInt j" using dot by metis
  with eq show "i = j \<and> b = c" by (simp add: signed_text_def)
qed simp

lemma Signature_inject:
  "Signature mac secret ts body = Signature mac secret' ts' body' \<longleftrightarrow>
     mac secret (signed_text (Unix_seconds ts) body) = mac secret' (signed_text (Unix_seconds ts') body')"
  by (simp add: Signature_def)

lemma ParseInt_timestamp: "ParseInt s = Some unix \<Longrightarrow> Unix_seconds (time_Unix unix) = unix"
  using ParseInt_range [of s unix] by (simp add: Unix_seconds_time_Unix MinInt64_def MaxInt64_def)

text \<open>
  A delivery accepted with a signature that was made for another one shows two messages on which
  the code of the secret agrees.
\<close>

lemma Verify_binds:
  assumes "Verify mac h secret body now tol = None"
    and "Header_Get h HeaderSignature = Signature mac secret ts' body'"
  obtains unix where "ParseInt (Header_Get h HeaderTimestamp) = Some unix"
    "mac secret (signed_text unix body) = mac secret (signed_text (Unix_seconds ts') body')"
proof -
  from assms(1) obtain unix where "ParseInt (Header_Get h HeaderTimestamp) = Some unix"
    "Header_Get h HeaderSignature = Signature mac secret (time_Unix unix) body"
    by (auto simp: Verify_None)
  with assms(2) show thesis
    by (intro that [of unix]) (simp_all add: Signature_inject ParseInt_timestamp)
qed

end
