(* ===== verification/Tenant_Router.thy ===== *)
theory Tenant_Router
  imports Webhook_Sign Webhook_Envelope "HOL-Library.AList_Mapping" "HOL-Library.List_Lexorder" "HOL-Library.Multiset"
begin

text \<open>
  \<^verbatim>\<open>gateway/internal/tenant/tenant.go\<close>: tenants, the routing table and the routing of an event.
  \<^verbatim>\<open>net/url\<close> is the parameter \<open>url_scheme\<close>: the scheme of a parsed URL or the error.  The order in
  which a Go map is visited is the parameter \<open>order\<close>, of which the lemmas assume only that it lists
  each key once.
\<close>

section \<open>Tenants\<close>

definition DefaultWebhookTimeout :: duration where
  "DefaultWebhookTimeout = 5 * Second"

record Tenant =
  tn_Name :: string
  tn_Shortcode :: string
  tn_Prefix :: "string list"
  tn_WebhookURL :: string
  tn_Secret :: string
  tn_Timeout :: duration

datatype tenant_error =
    TenantNoName
  | TenantNoShortcode string
  | TenantNoWebhookURL string
  | TenantNoSecret string
  | TenantURLUnparseable string string
  | TenantURLScheme string string
  | TenantEmptySegment string nat
  | TenantDeclaredTwice string
  | TenantCollides string string string
  | ShortcodeRoots string nat

fun Validate_prefix :: "string \<Rightarrow> nat \<Rightarrow> string list \<Rightarrow> tenant_error option" where
  "Validate_prefix name i [] = None"
| "Validate_prefix name i (seg # segs) =
     (if seg = [] then Some (TenantEmptySegment name i) else Validate_prefix name (i + 1) segs)"

definition Tenant_Validate :: "(string \<Rightarrow> string + string) \<Rightarrow> Tenant \<Rightarrow> tenant_error option" where
  "Tenant_Validate url_scheme t =
     (if tn_Name t = [] then Some TenantNoName
      else if tn_Shortcode t = [] then Some (TenantNoShortcode (tn_Name t))
      else if tn_WebhookURL t = [] then Some (TenantNoWebhookURL (tn_Name t))
      else if tn_Secret t = [] then Some (TenantNoSecret (tn_Name t))
      else case url_scheme (tn_WebhookURL t) of
        Inl err \<Rightarrow> Some (TenantURLUnparseable (tn_Name t) err)
      | Inr scheme \<Rightarrow>
          if scheme \<noteq> ''http'' \<and> scheme \<noteq> ''https'' then Some (TenantURLScheme (tn_Name t) scheme)
          else Validate_prefix (tn_Name t) 0 (tn_Prefix t))"

definition EffectiveTimeout :: "Tenant \<Rightarrow> duration" where
  "EffectiveTimeout t = (if tn_Timeout t > 0 then tn_Timeout t else DefaultWebhookTimeout)"

section \<open>The routing table\<close>

type_synonym table = "(string, Tenant list) mapping"

record Router =
  rt_byShortcode :: table

definition route_key :: "Tenant \<Rightarrow> string" where
  "route_key t = tn_Shortcode t @ ''|'' @ join ''*'' (tn_Prefix t)"

fun NewRouter_loop ::
    "(string \<Rightarrow> string + string) \<Rightarrow> Tenant list \<Rightarrow> table \<Rightarrow> (string \<rightharpoonup> string) \<Rightarrow> string set \<Rightarrow> tenant_error + table" where
  "NewRouter_loop url_scheme [] table seen names = Inr table"
| "NewRouter_loop url_scheme (t # ts) table seen names =
     (case Tenant_Validate url_scheme t of
        Some err \<Rightarrow> Inl err
      | None \<Rightarrow>
          if tn_Name t \<in> names then Inl (TenantDeclaredTwice (tn_Name t))
          else case seen (route_key t) of
            Some other \<Rightarrow> Inl (TenantCollides (tn_Name t) other (route_key t))
          | None \<Rightarrow>
              NewRouter_loop url_scheme ts
                (Mapping.update (tn_Shortcode t)
                  (Mapping.lookup_default [] table (tn_Shortcode t) @ [t]) table)
                (seen(route_key t \<mapsto> tn_Name t)) (insert (tn_Name t) names))"

definition longest_first :: "Tenant list \<Rightarrow> Tenant list" where
  "longest_first ts = sort_key (\<lambda>t. - int (length (tn_Prefix t))) ts"

fun NewRouter_groups :: "string list \<Rightarrow> table \<Rightarrow> tenant_error + table" where
  "NewRouter_groups [] table = Inr table"
| "NewRouter_groups (shortcode # shortcodes) table =
     (let gr = Mapping.lookup_default [] table shortcode;
          roots = length (filter (\<lambda>t. length (tn_Prefix t) = 0) gr) in
      if roots \<noteq> 1 then Inl (ShortcodeRoots shortcode roots)
      else NewRouter_groups shortcodes (Mapping.update shortcode (longest_first gr) table))"

definition NewRouter ::
    "(string \<Rightarrow> string + string) \<Rightarrow> (string set \<Rightarrow> string list) \<Rightarrow> Tenant list \<Rightarrow> tenant_error + Router" where
  "NewRouter url_scheme order tenants =
     (case NewRouter_loop url_scheme tenants Mapping.empty Map.empty {} of
        Inl err \<Rightarrow> Inl err
      | Inr table \<Rightarrow>
          (case NewRouter_groups (order (Mapping.keys table)) table of
             Inl err \<Rightarrow> Inl err
           | Inr table \<Rightarrow> Inr \<lparr>rt_byShortcode = table\<rparr>))"

section \<open>Routing\<close>

record ErrNoRoute =
  nr_Shortcode :: string
  nr_Segments :: nat

definition hasPrefix :: "string list \<Rightarrow> string list \<Rightarrow> bool" where
  "hasPrefix path pre =
     (if length pre > length path then False
      else list_all (\<lambda>i. path ! i = pre ! i) [0..<length pre])"

fun Route_loop :: "Tenant list \<Rightarrow> Event \<Rightarrow> (Tenant \<times> Event) option" where
  "Route_loop [] ev = None"
| "Route_loop (t # ts) ev =
     (if hasPrefix (ev_Path ev) (tn_Prefix t)
      then Some (t, ev\<lparr>ev_Path := drop (length (tn_Prefix t)) (ev_Path ev)\<rparr>)
      else Route_loop ts ev)"

definition Route :: "Router \<Rightarrow> Event \<Rightarrow> ErrNoRoute + Tenant \<times> Event" where
  "Route r ev =
     (case Route_loop (Mapping.lookup_default [] (rt_byShortcode r) (ev_Shortcode ev)) ev of
        Some (t, routed) \<Rightarrow> Inr (t, routed)
      | None \<Rightarrow> Inl \<lparr>nr_Shortcode = ev_Shortcode ev, nr_Segments = length (ev_Path ev)\<rparr>)"

text \<open>Names are unique in a router, so the order of the sort is the only one.\<close>

definition Tenants :: "(string set \<Rightarrow> string list) \<Rightarrow> Router \<Rightarrow> Tenant list" where
  "Tenants order r =
     sort_key tn_Name
       (concat (map (Mapping.lookup_default [] (rt_byShortcode r)) (order (Mapping.keys (rt_byShortcode r)))))"

section \<open>What the constructor checks\<close>

lemma hasPrefix_iff: "hasPrefix path pre \<longleftrightarrow> prefix pre path"
proof
  assume h: "hasPrefix path pre"
  then have len: "length pre \<le> length path" by (auto simp: hasPrefix_def split: if_splits)
  with h have "pre = take (length pre) path"
    by (intro nth_equalityI) (auto simp: hasPrefix_def list_all_iff)
  then show "prefix pre path" by (metis take_is_prefix)
next
  assume "prefix pre path"
  then show "hasPrefix path pre"
    by (auto simp: hasPrefix_def list_all_iff nth_append elim!: prefixE)
qed

definition map_order :: "(string set \<Rightarrow> string list) \<Rightarrow> bool" where
  "map_order order \<longleftrightarrow> (\<forall>S. finite S \<longrightarrow> distinct (order S) \<and> set (order S) = S)"

lemma route_key_cong: "tn_Shortcode t = tn_Shortcode u \<Longrightarrow> tn_Prefix t = tn_Prefix u \<Longrightarrow> route_key t = route_key u"
  by (simp add: route_key_def)

definition on_code :: "string \<Rightarrow> Tenant list \<Rightarrow> Tenant list" where
  "on_code sc ts = filter (\<lambda>t. tn_Shortcode t = sc) ts"

text \<open>The configuration a router accepts.\<close>

definition wf_tenants :: "(string \<Rightarrow> string + string) \<Rightarrow> Tenant list \<Rightarrow> bool" where
  "wf_tenants url_scheme ts \<longleftrightarrow>
     (\<forall>t \<in> set ts. Tenant_Validate url_scheme t = None) \<and>
     distinct (map tn_Name ts) \<and> distinct (map route_key ts) \<and>
     (\<forall>t \<in> set ts. length (filter (\<lambda>u. tn_Prefix u = []) (on_code (tn_Shortcode t) ts)) = 1)"

lemma lookup_default_update:
  "Mapping.lookup_default d (Mapping.update k v m) k' = (if k = k' then v else Mapping.lookup_default d m k')"
  by (simp add: Mapping.lookup_default_def Mapping.lookup_update')

lemma NewRouter_loop_Inr:
  assumes "NewRouter_loop url ts table seen names = Inr table'"
  shows "(\<forall>t \<in> set ts. Tenant_Validate url t = None \<and> tn_Name t \<notin> names \<and> seen (route_key t) = None) \<and>
     distinct (map tn_Name ts) \<and> distinct (map route_key ts) \<and>
     (\<forall>sc. Mapping.lookup_default [] table' sc = Mapping.lookup_default [] table sc @ on_code sc ts) \<and>
     Mapping.keys table' = Mapping.keys table \<union> tn_Shortcode ` set ts"
  using assms
proof (induction url ts table seen names rule: NewRouter_loop.induct)
  case (2 url t ts table seen names)
  have v: "Tenant_Validate url t = None" and n: "tn_Name t \<notin> names" and s: "seen (route_key t) = None"
    using 2(2) by (auto split: option.splits if_splits)
  have rest: "NewRouter_loop url ts
      (Mapping.update (tn_Shortcode t) (Mapping.lookup_default [] table (tn_Shortcode t) @ [t]) table)
      (seen(route_key t \<mapsto> tn_Name t)) (insert (tn_Name t) names) = Inr table'"
    using 2(2) v n s by simp
  show ?case
    using 2(1) [OF v n s rest] v n s
    by (auto simp: on_code_def lookup_default_update split: if_splits)
qed (simp add: on_code_def)

lemma NewRouter_loop_ok:
  assumes "\<forall>t \<in> set ts. Tenant_Validate url t = None \<and> tn_Name t \<notin> names \<and> seen (route_key t) = None"
    "distinct (map tn_Name ts)" "distinct (map route_key ts)"
  shows "\<exists>table'. NewRouter_loop url ts table seen names = Inr table'"
  using assms
proof (induction url ts table seen names rule: NewRouter_loop.induct)
  case (2 url t ts table seen names)
  have v: "Tenant_Validate url t = None" and n: "tn_Name t \<notin> names" and s: "seen (route_key t) = None"
    using 2(2) by simp_all
  have "tn_Name u \<noteq> tn_Name t \<and> route_key u \<noteq> route_key t" if "u \<in> set ts" for u
    using 2(3,4) that by (auto simp: image_iff)
  then have "\<forall>u \<in> set ts. Tenant_Validate url u = None \<and> tn_Name u \<notin> insert (tn_Name t) names \<and>
      (seen(route_key t \<mapsto> tn_Name t)) (route_key u) = None"
    using 2(2) by simp
  then have "\<exists>table'. NewRouter_loop url ts
      (Mapping.update (tn_Shortcode t) (Mapping.lookup_default [] table (tn_Shortcode t) @ [t]) table)
      (seen(route_key t \<mapsto> tn_Name t)) (insert (tn_Name t) names) = Inr table'"
    by (rule 2(1) [OF v n s]) (use 2(3,4) in simp_all)
  then show ?case by (simp only: NewRouter_loop.simps v n s option.case if_False)
qed simp

lemma NewRouter_groups_Inr:
  assumes "NewRouter_groups scs table = Inr table'" "distinct scs"
  shows "(\<forall>sc \<in> set scs. length (filter (\<lambda>u. tn_Prefix u = []) (Mapping.lookup_default [] table sc)) = 1) \<and>
     (\<forall>sc. Mapping.lookup_default [] table' sc =
        (if sc \<in> set scs then longest_first else id) (Mapping.lookup_default [] table sc)) \<and>
     Mapping.keys table' = Mapping.keys table \<union> set scs"
  using assms
proof (induction scs table rule: NewRouter_groups.induct)
  case (2 sc scs table)
  let ?g = "Mapping.lookup_default [] table sc"
  have one: "length (filter (\<lambda>u. tn_Prefix u = []) ?g) = 1"
    using 2(2) by (simp add: Let_def split: if_splits)
  have rest: "NewRouter_groups scs (Mapping.update sc (longest_first ?g) table) = Inr table'"
    using 2(2) one by (simp add: Let_def)
  have "\<not> length (filter (\<lambda>t. length (tn_Prefix t) = 0) ?g) \<noteq> 1" using one by simp
  note ih = 2(1) [OF refl refl this rest]
  have same: "Mapping.lookup_default [] (Mapping.update sc v table) x = Mapping.lookup_default [] table x"
    if "x \<noteq> sc" for x v
    using that by (simp add: lookup_default_update)
  have "length (filter (\<lambda>u. tn_Prefix u = []) (Mapping.lookup_default [] table x)) = 1" if "x \<in> set (sc # scs)" for x
    using that ih same [of x "longest_first ?g"] one 2(3) by (cases "x = sc") auto
  moreover have "Mapping.lookup_default [] table' x =
      (if x \<in> set (sc # scs) then longest_first else id) (Mapping.lookup_default [] table x)" for x
    using ih 2(3) by (cases "x = sc") (simp_all add: lookup_default_update)
  moreover have "Mapping.keys table' = Mapping.keys table \<union> set (sc # scs)" using ih 2(3) by simp
  ultimately show ?case by blast
qed simp

lemma NewRouter_groups_ok:
  assumes "\<forall>sc \<in> set scs. length (filter (\<lambda>u. tn_Prefix u = []) (Mapping.lookup_default [] table sc)) = 1" "distinct scs"
  shows "\<exists>table'. NewRouter_groups scs table = Inr table'"
  using assms by (induction scs table rule: NewRouter_groups.induct) (auto simp: Let_def lookup_default_update)

lemma NewRouter_Inr:
  assumes "map_order order" "NewRouter url order ts = Inr r"
  shows "wf_tenants url ts \<and> (\<forall>sc. Mapping.lookup_default [] (rt_byShortcode r) sc = longest_first (on_code sc ts)) \<and>
    Mapping.keys (rt_byShortcode r) = tn_Shortcode ` set ts"
proof -
  from assms(2) obtain table table' where
    loop: "NewRouter_loop url ts Mapping.empty Map.empty {} = Inr table"
    and groups: "NewRouter_groups (order (Mapping.keys table)) table = Inr table'" and r: "rt_byShortcode r = table'"
    by (auto simp: NewRouter_def split: sum.splits)
  note l = NewRouter_loop_Inr [OF loop]
  then have keys: "Mapping.keys table = tn_Shortcode ` set ts" by simp
  then have order: "distinct (order (Mapping.keys table))" "set (order (Mapping.keys table)) = tn_Shortcode ` set ts"
    using assms(1) by (simp_all add: map_order_def)
  note g = NewRouter_groups_Inr [OF groups order(1), unfolded order(2)]
  have tab: "Mapping.lookup_default [] table sc = on_code sc ts" for sc
    using l by (simp add: lookup_default_empty)
  have "on_code sc ts = []" if "sc \<notin> tn_Shortcode ` set ts" for sc
    using that by (auto simp: on_code_def filter_empty_conv)
  then show ?thesis
    using l g tab by (auto simp: wf_tenants_def r keys longest_first_def)
qed

lemma NewRouter_ok:
  assumes "map_order order" "wf_tenants url ts"
  shows "\<exists>r. NewRouter url order ts = Inr r"
proof -
  from assms(2) obtain table where loop: "NewRouter_loop url ts Mapping.empty Map.empty {} = Inr table"
    using NewRouter_loop_ok [of ts url "{}" Map.empty Mapping.empty] by (auto simp: wf_tenants_def)
  note l = NewRouter_loop_Inr [OF loop]
  have tab: "Mapping.lookup_default [] table sc = on_code sc ts" for sc
    using l by (simp add: lookup_default_empty)
  have order: "distinct (order (Mapping.keys table))" "set (order (Mapping.keys table)) = tn_Shortcode ` set ts"
    using l assms(1) by (simp_all add: map_order_def)
  obtain table' where "NewRouter_groups (order (Mapping.keys table)) table = Inr table'"
    using NewRouter_groups_ok [OF _ order(1), of table] assms(2) order(2) tab by (auto simp: wf_tenants_def)
  with loop show ?thesis by (simp add: NewRouter_def)
qed

section \<open>What routing returns\<close>

lemma Route_loop_None: "Route_loop ts ev = None \<longleftrightarrow> (\<forall>t \<in> set ts. \<not> prefix (tn_Prefix t) (ev_Path ev))"
  by (induction ts ev rule: Route_loop.induct) (auto simp: hasPrefix_iff)

lemma Route_loop_Some:
  assumes "Route_loop ts ev = Some (t, routed)" "sorted (map (\<lambda>t. - int (length (tn_Prefix t))) ts)"
  shows "t \<in> set ts \<and> prefix (tn_Prefix t) (ev_Path ev) \<and>
    routed = ev\<lparr>ev_Path := drop (length (tn_Prefix t)) (ev_Path ev)\<rparr> \<and>
    (\<forall>u \<in> set ts. prefix (tn_Prefix u) (ev_Path ev) \<longrightarrow> length (tn_Prefix u) \<le> length (tn_Prefix t))"
  using assms by (induction ts ev rule: Route_loop.induct) (auto simp: hasPrefix_iff split: if_splits)

text \<open>The tenant that answers: the most specific one of the shortcode whose selector was dialled.\<close>

definition answers :: "Tenant list \<Rightarrow> Event \<Rightarrow> Tenant \<Rightarrow> bool" where
  "answers ts ev t \<longleftrightarrow>
     t \<in> set ts \<and> tn_Shortcode t = ev_Shortcode ev \<and> prefix (tn_Prefix t) (ev_Path ev) \<and>
     (\<forall>u \<in> set ts. tn_Shortcode u = ev_Shortcode ev \<and> prefix (tn_Prefix u) (ev_Path ev) \<longrightarrow>
        length (tn_Prefix u) \<le> length (tn_Prefix t))"

lemma answers_unique:
  assumes "distinct (map route_key ts)" "answers ts ev t" "answers ts ev u"
  shows "t = u"
proof -
  have "tn_Prefix t = tn_Prefix u"
    using assms(2,3) by (auto simp: answers_def) (metis append_eq_conv_conj le_antisym prefix_def)
  with assms(2,3) have "route_key t = route_key u" by (simp add: answers_def route_key_cong)
  with assms show ?thesis by (auto simp: answers_def distinct_map inj_on_def)
qed

lemma wf_tenants_root:
  assumes "wf_tenants url ts" "t \<in> set ts"
  obtains root where "root \<in> set ts" "tn_Shortcode root = tn_Shortcode t" "tn_Prefix root = []"
proof -
  from assms have "filter (\<lambda>u. tn_Prefix u = []) (on_code (tn_Shortcode t) ts) \<noteq> []"
    by (auto simp: wf_tenants_def)
  then show thesis using that by (auto simp: filter_empty_conv on_code_def)
qed

lemma Route_Inr:
  assumes "map_order order" "NewRouter url order ts = Inr r"
  shows "Route r ev = Inr (t, routed) \<longleftrightarrow>
    answers ts ev t \<and> routed = ev\<lparr>ev_Path := drop (length (tn_Prefix t)) (ev_Path ev)\<rparr>"
proof -
  let ?g = "longest_first (on_code (ev_Shortcode ev) ts)"
  have r: "wf_tenants url ts" "Mapping.lookup_default [] (rt_byShortcode r) (ev_Shortcode ev) = ?g"
    using NewRouter_Inr [OF assms] by auto
  have mem: "u \<in> set ?g \<longleftrightarrow> u \<in> set ts \<and> tn_Shortcode u = ev_Shortcode ev" for u
    by (auto simp: longest_first_def on_code_def)
  have sorted: "sorted (map (\<lambda>t. - int (length (tn_Prefix t))) ?g)"
    by (simp add: longest_first_def)
  have some: "answers ts ev t \<and> routed = ev\<lparr>ev_Path := drop (length (tn_Prefix t)) (ev_Path ev)\<rparr>"
    if "Route_loop ?g ev = Some (t, routed)" for t routed
    using Route_loop_Some [OF that sorted] by (auto simp: mem answers_def)
  show ?thesis
  proof
    assume "Route r ev = Inr (t, routed)"
    then show "answers ts ev t \<and> routed = ev\<lparr>ev_Path := drop (length (tn_Prefix t)) (ev_Path ev)\<rparr>"
      by (intro some) (simp add: Route_def r split: option.splits)
  next
    assume a: "answers ts ev t \<and> routed = ev\<lparr>ev_Path := drop (length (tn_Prefix t)) (ev_Path ev)\<rparr>"
    then have "Route_loop ?g ev \<noteq> None" by (auto simp: Route_loop_None mem answers_def)
    then obtain u routed' where u: "Route_loop ?g ev = Some (u, routed')" by auto
    have "distinct (map route_key ts)" using r(1) by (simp add: wf_tenants_def)
    from answers_unique [OF this] a some [OF u] have "u = t" by blast
    with a u some [OF u] show "Route r ev = Inr (t, routed)" by (simp add: Route_def r)
  qed
qed

lemma Route_Inl:
  assumes "map_order order" "NewRouter url order ts = Inr r"
  shows "(\<exists>e. Route r ev = Inl e) \<longleftrightarrow> ev_Shortcode ev \<notin> tn_Shortcode ` set ts"
proof -
  let ?g = "longest_first (on_code (ev_Shortcode ev) ts)"
  have r: "wf_tenants url ts" "Mapping.lookup_default [] (rt_byShortcode r) (ev_Shortcode ev) = ?g"
    using NewRouter_Inr [OF assms] by auto
  have "(\<exists>e. Route r ev = Inl e) \<longleftrightarrow> Route_loop ?g ev = None"
    by (auto simp: Route_def r split: option.splits)
  also have "\<dots> \<longleftrightarrow> (\<forall>t \<in> set ts. tn_Shortcode t = ev_Shortcode ev \<longrightarrow> \<not> prefix (tn_Prefix t) (ev_Path ev))"
    by (auto simp: Route_loop_None longest_first_def on_code_def)
  also have "\<dots> \<longleftrightarrow> ev_Shortcode ev \<notin> tn_Shortcode ` set ts"
  proof
    assume none: "\<forall>t \<in> set ts. tn_Shortcode t = ev_Shortcode ev \<longrightarrow> \<not> prefix (tn_Prefix t) (ev_Path ev)"
    show "ev_Shortcode ev \<notin> tn_Shortcode ` set ts"
    proof
      assume "ev_Shortcode ev \<in> tn_Shortcode ` set ts"
      then obtain t where t: "t \<in> set ts" "tn_Shortcode t = ev_Shortcode ev" by auto
      obtain root where "root \<in> set ts" "tn_Shortcode root = tn_Shortcode t" "tn_Prefix root = []"
        by (rule wf_tenants_root [OF r(1) t(1)])
      with none t(2) show False by auto
    qed
  qed (auto simp: image_iff)
  finally show ?thesis .
qed

lemma Route_error: "Route r ev = Inl e \<Longrightarrow> e = \<lparr>nr_Shortcode = ev_Shortcode ev, nr_Segments = length (ev_Path ev)\<rparr>"
  by (auto simp: Route_def split: option.splits)

section \<open>Listing the tenants\<close>

lemma mset_on_codes:
  "distinct scs \<Longrightarrow>
   mset (concat (map (\<lambda>sc. longest_first (on_code sc ts)) scs)) = {# t \<in># mset ts. tn_Shortcode t \<in> set scs #}"
proof (induction scs)
  case (Cons sc scs)
  have "{# t \<in># mset ts. tn_Shortcode t = sc #} + {# t \<in># mset ts. tn_Shortcode t \<in> set scs #} =
      {# t \<in># mset ts. tn_Shortcode t \<in> set (sc # scs) #}"
    using Cons.prems by (induction ts) auto
  with Cons show ?case by (simp add: longest_first_def on_code_def)
qed simp

lemma mset_Tenants:
  assumes "map_order order" "NewRouter url order ts = Inr r"
  shows "mset (Tenants order r) = mset ts"
proof -
  note n = NewRouter_Inr [OF assms]
  have fin: "distinct (order (tn_Shortcode ` set ts))" "set (order (tn_Shortcode ` set ts)) = tn_Shortcode ` set ts"
    using assms(1) by (simp_all add: map_order_def)
  have "{# t \<in># mset ts. tn_Shortcode t \<in> tn_Shortcode ` set ts #} = mset ts"
    by (simp add: mset_filter [symmetric] del: mset_filter)
  moreover have "Mapping.lookup_default [] (rt_byShortcode r) = (\<lambda>sc. longest_first (on_code sc ts))"
    using n by auto
  ultimately show ?thesis
    using n mset_on_codes [OF fin(1), of ts] fin(2) by (simp add: Tenants_def)
qed

end
