(* ===== verification/Tenant_Dispatch.thy ===== *)
theory Tenant_Dispatch
  imports Tenant_Router
begin

text \<open>
  \<^verbatim>\<open>gateway/internal/tenant/dispatch.go\<close>: delivering an event to a tenant's webhook.  The JSON codec,
  the HTTP client and the parser of request URLs are fields of the dispatcher, so every statement
  holds whatever they do.  An event's path is a list, so the nil slice the code replaces by an empty
  one is the empty list already.
\<close>

definition maxTenantResponseBytes :: nat where
  "maxTenantResponseBytes = 16 * 1024"

record outbound =
  ob_URL :: string
  ob_Header :: header
  ob_Body :: string
  ob_Timeout :: duration

text \<open>
  A response: its status and the bytes that arrive, followed by the end of the body or by an error
  of the connection.
\<close>

record http_response =
  hp_StatusCode :: nat
  hp_Status :: string
  hp_Body :: string
  hp_ReadError :: "string option"

record Dispatcher =
  dp_Marshal :: "Request \<Rightarrow> string + string"
  dp_Unmarshal :: "string \<Rightarrow> string + Reply"
  dp_RequestError :: "string \<Rightarrow> string option"
  dp_Do :: "outbound \<Rightarrow> string + http_response"
  dp_mac :: "string \<Rightarrow> string \<Rightarrow> string"

datatype delivery_error =
    EncodingEvent string string
  | BuildingRequest string string
  | DeliveringEvent string string
  | RepliedStatus string string
  | ReadingReply string string
  | ReplyTooLong string nat
  | DecodingReply string string
  | ReplyInvalid string response_error

definition delivered_payload :: "Request \<Rightarrow> Request" where
  "delivered_payload payload =
     payload\<lparr>rq_Version := Version, rq_Event := (rq_Event payload)\<lparr>ev_Raw := []\<rparr>\<rparr>"

definition build_request :: "Dispatcher \<Rightarrow> time \<Rightarrow> Tenant \<Rightarrow> string \<Rightarrow> outbound" where
  "build_request d now t body =
     (let h = Header_Set Map.empty ''Content-Type'' ''application/json'';
          h = Header_Set h ''User-Agent'' ''openussd-gateway/0.1'';
          h = Header_Set h HeaderTenant (tn_Name t);
          h = Sign (dp_mac d) h (tn_Secret t) now body
      in \<lparr>ob_URL = tn_WebhookURL t, ob_Header = h, ob_Body = body, ob_Timeout = EffectiveTimeout t\<rparr>)"

definition decode_reply :: "Dispatcher \<Rightarrow> Tenant \<Rightarrow> http_response \<Rightarrow> delivery_error + Reply" where
  "decode_reply d t resp =
     (if hp_StatusCode resp \<noteq> 200 then Inl (RepliedStatus (tn_Name t) (hp_Status resp))
      else case ReadAll_limited (maxTenantResponseBytes + 1) (hp_Body resp) (hp_ReadError resp) of
        Inl err \<Rightarrow> Inl (ReadingReply (tn_Name t) err)
      | Inr raw \<Rightarrow>
          if length raw > maxTenantResponseBytes then Inl (ReplyTooLong (tn_Name t) maxTenantResponseBytes)
          else case dp_Unmarshal d raw of
            Inl err \<Rightarrow> Inl (DecodingReply (tn_Name t) err)
          | Inr out \<Rightarrow>
              let out = out\<lparr>rp_State := NormaliseState (rp_State out)\<rparr> in
              case Response_Validate (rp_Response out) of
                Some err \<Rightarrow> Inl (ReplyInvalid (tn_Name t) err)
              | None \<Rightarrow> Inr out)"

text \<open>The result, and the request that went out on the way to it, if one did.\<close>

definition Deliver :: "Dispatcher \<Rightarrow> time \<Rightarrow> Tenant \<Rightarrow> Request \<Rightarrow> (delivery_error + Reply) \<times> outbound option" where
  "Deliver d now t payload =
     (case dp_Marshal d (delivered_payload payload) of
        Inl err \<Rightarrow> (Inl (EncodingEvent (tn_Name t) err), None)
      | Inr body \<Rightarrow>
          (case dp_RequestError d (tn_WebhookURL t) of
             Some err \<Rightarrow> (Inl (BuildingRequest (tn_Name t) err), None)
           | None \<Rightarrow>
               let req = build_request d now t body in
               (case dp_Do d req of
                  Inl err \<Rightarrow> (Inl (DeliveringEvent (tn_Name t) err), Some req)
                | Inr resp \<Rightarrow> (decode_reply d t resp, Some req))))"

section \<open>What goes out and what comes back\<close>

lemma decode_reply_Inr:
  assumes "decode_reply d t resp = Inr reply"
  shows "hp_StatusCode resp = 200 \<and> length (hp_Body resp) \<le> maxTenantResponseBytes \<and>
    hp_ReadError resp = None \<and> FitsScreen (resp_Body (rp_Response reply)) \<and>
    NormaliseState (rp_State reply) = rp_State reply \<and>
    (\<exists>out. dp_Unmarshal d (hp_Body resp) = Inr out \<and> reply = out\<lparr>rp_State := NormaliseState (rp_State out)\<rparr>)"
proof -
  from assms have ok: "hp_StatusCode resp = 200" by (simp add: decode_reply_def split: if_splits)
  with assms obtain raw out where
    raw: "ReadAll_limited (maxTenantResponseBytes + 1) (hp_Body resp) (hp_ReadError resp) = Inr raw" "length raw \<le> maxTenantResponseBytes"
    and out: "dp_Unmarshal d raw = Inr out" "reply = out\<lparr>rp_State := NormaliseState (rp_State out)\<rparr>"
      "Response_Validate (rp_Response out) = None"
    by (auto simp: decode_reply_def Let_def split: sum.splits if_splits option.splits)
  from ReadAll_limited_within [OF raw] raw(2)
  have "length (hp_Body resp) \<le> maxTenantResponseBytes \<and> hp_ReadError resp = None \<and> raw = hp_Body resp" by simp
  with ok out show ?thesis by (simp add: NormaliseState_idem Response_Validate_None)
qed

lemma Deliver_Inr:
  assumes "Deliver d now t payload = (Inr reply, sent)"
  obtains body resp where "dp_Marshal d (delivered_payload payload) = Inr body"
    "sent = Some (build_request d now t body)" "dp_Do d (build_request d now t body) = Inr resp"
    "decode_reply d t resp = Inr reply"
  using assms by (auto simp: Deliver_def Let_def split: sum.splits option.splits)

lemma Deliver_sent:
  assumes "Deliver d now t payload = (result, Some req)"
  shows "dp_Marshal d (delivered_payload payload) = Inr (ob_Body req) \<and> req = build_request d now t (ob_Body req)"
  using assms by (auto simp: Deliver_def Let_def build_request_def split: sum.splits option.splits)

lemma Deliver_valid: "Deliver d now t payload = (Inr reply, sent) \<Longrightarrow> FitsScreen (resp_Body (rp_Response reply))"
  by (erule Deliver_Inr) (simp add: decode_reply_Inr)

lemma Deliver_state: "Deliver d now t payload = (Inr reply, sent) \<Longrightarrow> NormaliseState (rp_State reply) = rp_State reply"
  by (erule Deliver_Inr) (simp add: decode_reply_Inr)

lemma tenant_header_differs:
  "CanonicalHeaderKey HeaderTenant \<noteq> CanonicalHeaderKey HeaderTimestamp"
  "CanonicalHeaderKey HeaderTenant \<noteq> CanonicalHeaderKey HeaderSignature"
  by code_simp+

lemma Header_Get_build_request:
  "Header_Get (ob_Header (build_request d now t body)) HeaderTenant = tn_Name t"
  using tenant_header_differs [symmetric] by (simp add: build_request_def Let_def Sign_def Header_Get_Set)

lemma Verify_build_request:
  assumes "tn_Secret t \<noteq> []" "representable now" "\<bar>Time_Sub clock (now div Second * Second)\<bar> \<le> effective_tolerance tol"
  shows "Verify (dp_mac d) (ob_Header (build_request d now t body)) (tn_Secret t) body clock tol = None"
  using Verify_Sign [OF assms] by (simp add: build_request_def Let_def)

lemma EffectiveTimeout_pos: "0 < EffectiveTimeout t"
  by (simp add: EffectiveTimeout_def DefaultWebhookTimeout_def)

end
