(* ===== verification/Telco_Adapter.thy ===== *)
theory Telco_Adapter
  imports Canonical_Event Go_Http "HOL-Library.AList_Mapping" "HOL-Library.List_Lexorder"
begin

text \<open>
  \<^verbatim>\<open>gateway/internal/adapter/adapter.go\<close>: the contract of a telco adapter and the registry of the
  adapters of a gateway.  The Go interface is a record of its methods; the contract that the rest of
  the gateway relies on is a locale over two of them.
\<close>

section \<open>Adapters\<close>

datatype untrusted =
    UnparseableRemote string
  | NotAllowed

datatype parse_error =
    ExpectedPOST string
  | ReadingBody string
  | BodyExceeds nat
  | MalformedBody string
  | InvalidEvent event_error

datatype render_error =
    InvalidResponse response_error
  | WritingResponse string

record Adapter =
  ad_Name :: string
  ad_Verify :: "http_request \<Rightarrow> untrusted option"
  ad_Parse :: "time \<Rightarrow> http_request \<Rightarrow> parse_error + Event"
  ad_Render :: "Response \<Rightarrow> http_writer \<Rightarrow> render_error option \<times> http_writer"
  ad_RequiresAllowlist :: "bool option"

text \<open>An adapter that does not implement \<^verbatim>\<open>AllowlistRequirer\<close> has no answer.\<close>

definition NeedsAllowlist :: "Adapter \<Rightarrow> bool" where
  "NeedsAllowlist a = (case ad_RequiresAllowlist a of None \<Rightarrow> False | Some required \<Rightarrow> required)"

locale telco_adapter =
  fixes adapter_name :: string
    and parse :: "time \<Rightarrow> http_request \<Rightarrow> parse_error + Event"
    and render :: "Response \<Rightarrow> http_writer \<Rightarrow> render_error option \<times> http_writer"
  assumes parse_valid: "parse now r = Inr ev \<Longrightarrow> wf_event ev"
    and parse_name: "parse now r = Inr ev \<Longrightarrow> ev_MNO ev = adapter_name"
    and render_too_long: "\<not> FitsScreen (resp_Body resp) \<Longrightarrow> \<exists>e. render resp w = (Some e, w)"
    and render_fits: "FitsScreen (resp_Body resp) \<Longrightarrow> hw_Status w = None \<Longrightarrow>
      hw_Status (snd (render resp w)) = Some 200"
begin

lemma render_status:
  assumes "hw_Status w = None"
  shows "hw_Status (snd (render resp w)) = (if FitsScreen (resp_Body resp) then Some 200 else None)"
  using assms render_too_long [of resp w] render_fits [of resp w] by auto

lemma parse_named: "parse now r = Inr ev \<Longrightarrow> adapter_name \<noteq> []"
  using parse_valid [of now r ev] parse_name [of now r ev] by (simp add: wf_event_def)

end

section \<open>The registry\<close>

record Registry =
  rg_adapters :: "(string, Adapter) mapping"

datatype register_error = NilAdapter | EmptyName | AlreadyRegistered string

definition NewRegistry :: Registry where
  "NewRegistry = \<lparr>rg_adapters = Mapping.empty\<rparr>"

definition Register :: "Adapter option \<Rightarrow> Registry \<Rightarrow> register_error option \<times> Registry" where
  "Register a reg =
     (case a of
        None \<Rightarrow> (Some NilAdapter, reg)
      | Some a \<Rightarrow>
          if ad_Name a = [] then (Some EmptyName, reg)
          else case Mapping.lookup (rg_adapters reg) (ad_Name a) of
            Some _ \<Rightarrow> (Some (AlreadyRegistered (ad_Name a)), reg)
          | None \<Rightarrow> (None, reg\<lparr>rg_adapters := Mapping.update (ad_Name a) a (rg_adapters reg)\<rparr>))"

definition Lookup :: "Registry \<Rightarrow> string \<Rightarrow> Adapter option" where
  "Lookup reg adapter = Mapping.lookup (rg_adapters reg) adapter"

text \<open>The names in the order in which the map is visited, sorted.\<close>

definition Names :: "(string set \<Rightarrow> string list) \<Rightarrow> Registry \<Rightarrow> string list" where
  "Names order reg = sort (order (Mapping.keys (rg_adapters reg)))"

section \<open>What the registry keeps\<close>

definition registry_inv :: "Registry \<Rightarrow> bool" where
  "registry_inv reg \<longleftrightarrow> (\<forall>n a. Lookup reg n = Some a \<longrightarrow> ad_Name a = n \<and> n \<noteq> [])"

lemma registry_inv_NewRegistry: "registry_inv NewRegistry"
  by (simp add: registry_inv_def Lookup_def NewRegistry_def)

lemma registry_inv_Register: "registry_inv reg \<Longrightarrow> registry_inv (snd (Register a reg))"
  by (auto simp: registry_inv_def Lookup_def Register_def Mapping.lookup_update' split: option.splits)

lemma Lookup_Register:
  "Lookup (snd (Register a reg)) n =
     (case a of
        Some a' \<Rightarrow> if fst (Register a reg) = None \<and> ad_Name a' = n then a else Lookup reg n
      | None \<Rightarrow> Lookup reg n)"
  by (auto simp: Lookup_def Register_def Mapping.lookup_update' split: option.splits)

lemma Register_ok:
  "fst (Register a reg) = None \<longleftrightarrow> (\<exists>a'. a = Some a' \<and> ad_Name a' \<noteq> [] \<and> Lookup reg (ad_Name a') = None)"
  by (auto simp: Register_def Lookup_def split: option.splits)

text \<open>Whatever is registered later, an adapter once found stays the one that is found.\<close>

lemma Lookup_stable:
  assumes "Lookup reg n = Some a"
  shows "Lookup (snd (Register b reg)) n = Some a"
proof (cases b)
  case (Some b')
  have "ad_Name b' = n \<Longrightarrow> fst (Register b reg) \<noteq> None"
    using assms Some by (simp add: Register_ok)
  with assms Some show ?thesis by (auto simp: Lookup_Register)
qed (simp add: Lookup_Register assms)

end
