(* ===== verification/Inbound.thy ===== *)
theory Inbound
  imports Session_Memory Tenant_Dispatch Telco_Adapter
begin

text \<open>
  \<^verbatim>\<open>gateway/internal/httpx/inbound.go\<close>: one turn of a dialogue, from the callback of a network to the
  screen it is answered with.  The store is any record of the three operations, so what is proved
  under the contract of a store holds of each; the clock is read at three instants of a turn.
\<close>

section \<open>A turn\<close>

record 's Store =
  st_Load :: "time \<Rightarrow> Key \<Rightarrow> 's \<Rightarrow> session_error + Session"
  st_Save :: "time \<Rightarrow> Session \<Rightarrow> 's \<Rightarrow> session_error option \<times> 's"
  st_Delete :: "Key \<Rightarrow> 's \<Rightarrow> session_error option \<times> 's"

record instants =
  at_Load :: time
  at_Deliver :: time
  at_Save :: time

datatype handle_error =
    NoRoute ErrNoRoute
  | DeliveryFailed delivery_error
  | SaveFailed session_error

definition userFacingError :: string where
  "userFacingError = ''Service unavailable. Please try again later.''"

definition event_key :: "Event \<Rightarrow> Key" where
  "event_key ev = \<lparr>key_MNO = ev_MNO ev, key_SessionID = ev_SessionID ev\<rparr>"

definition fresh_session :: "Event \<Rightarrow> Session" where
  "fresh_session ev =
     empty_Session\<lparr>se_Key := event_key ev, se_MSISDN := ev_MSISDN ev, se_Shortcode := ev_Shortcode ev\<rparr>"

definition load_session :: "'s Store \<Rightarrow> time \<Rightarrow> Event \<Rightarrow> 's \<Rightarrow> Session" where
  "load_session store now ev s =
     (case st_Load store now (event_key ev) s of
        Inl NotFound \<Rightarrow> fresh_session ev
      | Inl _ \<Rightarrow> fresh_session ev
      | Inr sess \<Rightarrow> if se_MSISDN sess \<noteq> ev_MSISDN ev then fresh_session ev else sess)"

definition enter_tenant :: "Tenant \<Rightarrow> Session \<Rightarrow> Session" where
  "enter_tenant target sess =
     (let sess =
        (if se_Tenant sess \<noteq> [] \<and> se_Tenant sess \<noteq> tn_Name target
         then sess\<lparr>se_State := None, se_Turn := 0\<rparr> else sess)
      in sess\<lparr>se_Tenant := tn_Name target, se_Turn := se_Turn sess + 1\<rparr>)"

definition turn_request :: "Event \<Rightarrow> Session \<Rightarrow> Request" where
  "turn_request routed sess =
     \<lparr>rq_Version = [], rq_Event = routed, rq_Turn = se_Turn sess, rq_State = se_State sess\<rparr>"

definition apply_reply :: "Reply \<Rightarrow> Session \<Rightarrow> Session" where
  "apply_reply reply sess =
     (if rp_ClearState reply then sess\<lparr>se_State := None\<rparr>
      else if rp_State reply \<noteq> None then sess\<lparr>se_State := rp_State reply\<rparr>
      else sess)"

text \<open>What a turn exchanged with a tenant: the request given to the dispatcher and its result.\<close>

record exchange =
  ex_Tenant :: Tenant
  ex_Request :: Request
  ex_Result :: "delivery_error + Reply"

definition handle ::
    "'s Store \<Rightarrow> Router \<Rightarrow> Dispatcher \<Rightarrow> instants \<Rightarrow> Event \<Rightarrow> 's \<Rightarrow>
     (handle_error + Response) \<times> 's \<times> exchange option" where
  "handle store router d i ev s =
     (let key = event_key ev; sess = load_session store (at_Load i) ev s in
      if Phase_Terminal (ev_Phase ev) then (Inr empty_Response, snd (st_Delete store key s), None)
      else case Route router ev of
        Inl err \<Rightarrow> (Inl (NoRoute err), s, None)
      | Inr (target, routed) \<Rightarrow>
          let sess = enter_tenant target sess;
              rq = turn_request routed sess;
              result = fst (Deliver d (at_Deliver i) target rq);
              ex = Some \<lparr>ex_Tenant = target, ex_Request = rq, ex_Result = result\<rparr>
          in case result of
            Inl err \<Rightarrow> (Inl (DeliveryFailed err), s, ex)
          | Inr reply \<Rightarrow>
              let sess = apply_reply reply sess in
              if resp_EndSession (rp_Response reply)
              then (Inr (rp_Response reply), snd (st_Delete store key s), ex)
              else case st_Save store (at_Save i) sess s of
                (Some err, s') \<Rightarrow> (Inl (SaveFailed err), s', ex)
              | (None, s') \<Rightarrow> (Inr (rp_Response reply), s', ex))"

section \<open>The endpoint\<close>

definition HeaderRequestID :: string where
  "HeaderRequestID = ''X-Request-Id''"

definition maxRequestIDLen :: nat where
  "maxRequestIDLen = 64"

definition sanitiseID :: "string \<Rightarrow> string" where
  "sanitiseID s =
     (let s = (if length s > maxRequestIDLen then take maxRequestIDLen s else s) in
      Map_runes (\<lambda>r. if r < 0x20 \<or> r > 0x7E then None else Some r) s)"

fun digits36 :: "nat \<Rightarrow> string" where
  "digits36 n =
     (let digit = (\<lambda>d. char_of (if d < 10 then 48 + d else 87 + d)) in
      if n < 36 then [digit n] else digits36 (n div 36) @ [digit (n mod 36)])"

declare digits36.simps [simp del]

text \<open>\<open>rand\<close>: the eight random bytes, if there were any; \<open>nanos\<close>: the clock otherwise.\<close>

definition requestID :: "string option \<Rightarrow> nat \<Rightarrow> http_request \<Rightarrow> string" where
  "requestID rand nanos r =
     (let given = Header_Get (hr_Header r) HeaderRequestID in
      if given \<noteq> [] \<and> sanitiseID given \<noteq> [] then sanitiseID given
      else case rand of Some buf \<Rightarrow> hex_EncodeToString buf | None \<Rightarrow> digits36 nanos)"

definition ServeHTTP ::
    "Adapter \<Rightarrow> 's Store \<Rightarrow> Router \<Rightarrow> Dispatcher \<Rightarrow> instants \<Rightarrow> string \<Rightarrow> http_request \<Rightarrow> 's \<Rightarrow>
     http_writer \<times> 's \<times> exchange option" where
  "ServeHTTP a store router d i reqID r s =
     (let w = set_header HeaderRequestID reqID new_writer in
      if ad_Verify a r \<noteq> None then (http_Error ''forbidden'' 403 w, s, None)
      else case ad_Parse a (at_Load i) r of
        Inl err \<Rightarrow> (http_Error ''bad request'' 400 w, s, None)
      | Inr ev \<Rightarrow>
          (case handle store router d i ev s of
             (result, s', ex) \<Rightarrow>
               let resp = (case result of Inl err \<Rightarrow> End userFacingError | Inr resp \<Rightarrow> resp) in
               if Phase_Terminal (ev_Phase ev) then (WriteHeader 200 w, s', ex)
               else (snd (ad_Render a resp w), s', ex)))"

definition Health :: "http_writer \<Rightarrow> http_writer" where
  "Health w =
     Write ([CHR ''{'', CHR 0x22] @ ''status'' @ [CHR 0x22, CHR '':'', CHR 0x22] @ ''ok'' @ [CHR 0x22, CHR ''}''])
       (set_header ''Content-Type'' ''application/json'' w)"

text \<open>The readiness report: a status, the adapters and how many tenants there are, never which.\<close>

record ready_report =
  ready_status :: string
  ready_adapters :: "string list"
  ready_tenants :: nat

definition Ready ::
    "(ready_report \<Rightarrow> string) \<Rightarrow> string list \<Rightarrow> Tenant list \<Rightarrow> http_writer \<Rightarrow> http_writer" where
  "Ready encode adapters tenants w =
     Write (encode \<lparr>ready_status = ''ready'', ready_adapters = adapters, ready_tenants = length tenants\<rparr> @ [CHR 0x0A])
       (set_header ''Content-Type'' ''application/json'' w)"

section \<open>Steps of a turn\<close>

lemma event_key_simps [simp]: "key_MNO (event_key ev) = ev_MNO ev" "key_SessionID (event_key ev) = ev_SessionID ev"
  by (simp_all add: event_key_def)

lemma fresh_session_simps [simp]:
  "se_Key (fresh_session ev) = event_key ev" "se_MSISDN (fresh_session ev) = ev_MSISDN ev"
  "se_State (fresh_session ev) = None" "se_Turn (fresh_session ev) = 0" "se_Tenant (fresh_session ev) = []"
  "se_CreatedAt (fresh_session ev) = zero_time"
  by (simp_all add: fresh_session_def empty_Session_def)

lemma load_session_eq:
  "load_session store now ev s =
     (case st_Load store now (event_key ev) s of
        Inl _ \<Rightarrow> fresh_session ev
      | Inr sess \<Rightarrow> if se_MSISDN sess = ev_MSISDN ev then sess else fresh_session ev)"
  by (simp add: load_session_def split: sum.split session_error.split)

lemma load_session_MSISDN: "se_MSISDN (load_session store now ev s) = ev_MSISDN ev"
  by (simp add: load_session_eq split: sum.split)

lemma enter_tenant_simps [simp]:
  "se_Key (enter_tenant t sess) = se_Key sess" "se_MSISDN (enter_tenant t sess) = se_MSISDN sess"
  "se_Tenant (enter_tenant t sess) = tn_Name t"
  by (simp_all add: enter_tenant_def Let_def)

lemma enter_tenant_same:
  "se_Tenant sess = [] \<or> se_Tenant sess = tn_Name t \<Longrightarrow>
   se_State (enter_tenant t sess) = se_State sess \<and> se_Turn (enter_tenant t sess) = se_Turn sess + 1"
  by (auto simp: enter_tenant_def)

lemma enter_tenant_other:
  "se_Tenant sess \<noteq> [] \<Longrightarrow> se_Tenant sess \<noteq> tn_Name t \<Longrightarrow>
   se_State (enter_tenant t sess) = None \<and> se_Turn (enter_tenant t sess) = 1"
  by (simp add: enter_tenant_def Let_def)

lemma apply_reply_simps [simp]:
  "se_Key (apply_reply reply sess) = se_Key sess" "se_MSISDN (apply_reply reply sess) = se_MSISDN sess"
  "se_Tenant (apply_reply reply sess) = se_Tenant sess" "se_Turn (apply_reply reply sess) = se_Turn sess"
  by (simp_all add: apply_reply_def)

lemma apply_reply_State:
  "se_State (apply_reply reply sess) =
     (if rp_ClearState reply then None
      else case rp_State reply of None \<Rightarrow> se_State sess | Some st \<Rightarrow> Some st)"
  by (simp add: apply_reply_def split: option.split)

lemma FitsScreen_userFacingError: "FitsScreen userFacingError"
  by (subst FitsScreen_plain) (simp_all add: userFacingError_def plain_def MaxSeptets_def)

lemma FitsScreen_Nil: "FitsScreen []"
  by (simp add: FitsScreen_plain)

text \<open>The seven ways a turn can go.\<close>

lemma handle_cases:
  obtains (terminal) "Phase_Terminal (ev_Phase ev)"
      "handle store router d i ev s = (Inr empty_Response, snd (st_Delete store (event_key ev) s), None)"
  | (unrouted) err where "\<not> Phase_Terminal (ev_Phase ev)" "Route router ev = Inl err"
      "handle store router d i ev s = (Inl (NoRoute err), s, None)"
  | (failed) target routed sess ex err where "\<not> Phase_Terminal (ev_Phase ev)" "Route router ev = Inr (target, routed)"
      "sess = enter_tenant target (load_session store (at_Load i) ev s)"
      "ex = \<lparr>ex_Tenant = target, ex_Request = turn_request routed sess, ex_Result = Inl err\<rparr>"
      "fst (Deliver d (at_Deliver i) target (turn_request routed sess)) = Inl err"
      "handle store router d i ev s = (Inl (DeliveryFailed err), s, Some ex)"
  | (ended) target routed sess ex reply where "\<not> Phase_Terminal (ev_Phase ev)" "Route router ev = Inr (target, routed)"
      "sess = enter_tenant target (load_session store (at_Load i) ev s)"
      "ex = \<lparr>ex_Tenant = target, ex_Request = turn_request routed sess, ex_Result = Inr reply\<rparr>"
      "fst (Deliver d (at_Deliver i) target (turn_request routed sess)) = Inr reply"
      "resp_EndSession (rp_Response reply)"
      "handle store router d i ev s =
         (Inr (rp_Response reply), snd (st_Delete store (event_key ev) s), Some ex)"
  | (unsaved) target routed sess ex reply err s' where "\<not> Phase_Terminal (ev_Phase ev)"
      "Route router ev = Inr (target, routed)"
      "sess = enter_tenant target (load_session store (at_Load i) ev s)"
      "ex = \<lparr>ex_Tenant = target, ex_Request = turn_request routed sess, ex_Result = Inr reply\<rparr>"
      "fst (Deliver d (at_Deliver i) target (turn_request routed sess)) = Inr reply"
      "\<not> resp_EndSession (rp_Response reply)"
      "st_Save store (at_Save i) (apply_reply reply sess) s = (Some err, s')"
      "handle store router d i ev s = (Inl (SaveFailed err), s', Some ex)"
  | (saved) target routed sess ex reply s' where "\<not> Phase_Terminal (ev_Phase ev)"
      "Route router ev = Inr (target, routed)"
      "sess = enter_tenant target (load_session store (at_Load i) ev s)"
      "ex = \<lparr>ex_Tenant = target, ex_Request = turn_request routed sess, ex_Result = Inr reply\<rparr>"
      "fst (Deliver d (at_Deliver i) target (turn_request routed sess)) = Inr reply"
      "\<not> resp_EndSession (rp_Response reply)"
      "st_Save store (at_Save i) (apply_reply reply sess) s = (None, s')"
      "handle store router d i ev s = (Inr (rp_Response reply), s', Some ex)"
proof (cases "Phase_Terminal (ev_Phase ev)")
  case True
  then show thesis by (intro terminal) (simp_all add: handle_def Let_def)
next
  case live: False
  show thesis
  proof (cases "Route router ev")
    case (Inl err)
    with live show thesis by (intro unrouted [of err]) (simp_all add: handle_def Let_def)
  next
    case (Inr tr)
    then obtain target routed where route: "Route router ev = Inr (target, routed)" by (cases tr) auto
    define sess where "sess = enter_tenant target (load_session store (at_Load i) ev s)"
    show thesis
    proof (cases "fst (Deliver d (at_Deliver i) target (turn_request routed sess))")
      case (Inl err)
      with live route show thesis by (intro failed [OF _ route sess_def refl]) (simp_all add: handle_def Let_def sess_def)
    next
      case (Inr reply)
      note reply = this
      show thesis
      proof (cases "resp_EndSession (rp_Response reply)")
        case True
        with live route reply show thesis
          by (intro ended [OF _ route sess_def refl]) (simp_all add: handle_def Let_def sess_def)
      next
        case False
        obtain r s' where save: "st_Save store (at_Save i) (apply_reply reply sess) s = (r, s')" by force
        show thesis
        proof (cases r)
          case None
          with live route reply False save show thesis
            by (intro saved [OF _ route sess_def refl]) (simp_all add: handle_def Let_def sess_def)
        next
          case (Some err)
          with live route reply False save show thesis
            by (intro unsaved [OF _ route sess_def refl]) (simp_all add: handle_def Let_def sess_def)
        qed
      qed
    qed
  qed
qed

lemma Deliver_fits: "fst (Deliver d now t rq) = Inr reply \<Longrightarrow> FitsScreen (resp_Body (rp_Response reply))"
  by (metis Deliver_valid prod.collapse)

lemma handle_fits:
  assumes "handle store router d i ev s = (Inr resp, s', ex)"
  shows "FitsScreen (resp_Body resp)"
  by (cases rule: handle_cases [of ev store router d i s])
    (use assms in \<open>auto simp: empty_Response_def FitsScreen_Nil dest: Deliver_fits\<close>)

section \<open>What the endpoint answers\<close>

definition rendered :: "handle_error + Response \<Rightarrow> Response" where
  "rendered result = (case result of Inl err \<Rightarrow> End userFacingError | Inr resp \<Rightarrow> resp)"

lemma rendered_fits: "FitsScreen (resp_Body (rendered (fst (handle store router d i ev s))))"
proof (cases "fst (handle store router d i ev s)")
  case (Inl err)
  then show ?thesis by (simp add: rendered_def FitsScreen_userFacingError)
next
  case (Inr resp)
  then have "handle store router d i ev s = (Inr resp, snd (handle store router d i ev s))" by (metis prod.collapse)
  then show ?thesis using handle_fits Inr by (metis prod.collapse rendered_def sum.case(2))
qed

lemma ServeHTTP_rejected:
  "ad_Verify a r \<noteq> None \<Longrightarrow>
   ServeHTTP a store router d i reqID r s =
     (http_Error ''forbidden'' 403 (set_header HeaderRequestID reqID new_writer), s, None)"
  by (simp add: ServeHTTP_def Let_def)

lemma ServeHTTP_unparsed:
  "ad_Verify a r = None \<Longrightarrow> ad_Parse a (at_Load i) r = Inl err \<Longrightarrow>
   ServeHTTP a store router d i reqID r s =
     (http_Error ''bad request'' 400 (set_header HeaderRequestID reqID new_writer), s, None)"
  by (simp add: ServeHTTP_def Let_def)

lemma ServeHTTP_parsed:
  assumes "ad_Verify a r = None" "ad_Parse a (at_Load i) r = Inr ev"
  shows "ServeHTTP a store router d i reqID r s =
    (if Phase_Terminal (ev_Phase ev) then WriteHeader 200 (set_header HeaderRequestID reqID new_writer)
     else snd (ad_Render a (rendered (fst (handle store router d i ev s))) (set_header HeaderRequestID reqID new_writer)),
     snd (handle store router d i ev s))"
  using assms by (simp add: ServeHTTP_def Let_def case_prod_beta rendered_def)

section \<open>Correlation ids\<close>

definition printable :: "string \<Rightarrow> bool" where
  "printable s \<longleftrightarrow> (\<forall>c \<in> set s. 0x20 \<le> (of_char c :: nat) \<and> of_char c \<le> (0x7E :: nat))"

lemma digits36_printable: "c \<in> set (digits36 n) \<Longrightarrow> 0x20 \<le> (of_char c :: nat) \<and> of_char c \<le> (0x7E :: nat)"
proof (induction n rule: digits36.induct)
  case (1 n)
  have digit: "m < 36 \<Longrightarrow> 0x20 \<le> (of_char (char_of (if m < 10 then 48 + m else 87 + m) :: char) :: nat) \<and>
      of_char (char_of (if m < 10 then 48 + m else 87 + m) :: char) \<le> (0x7E :: nat)" for m :: nat
    by simp
  from 1 show ?case
    by (cases "n < 36") (use digit [of n] digit [of "n mod 36"] in \<open>auto simp: digits36.simps [of n] Let_def\<close>)
qed

lemma hex_printable: "c \<in> set (hex_EncodeToString s) \<Longrightarrow> 0x20 \<le> (of_char c :: nat) \<and> of_char c \<le> (0x7E :: nat)"
proof (induction s)
  case (Cons d s)
  have digit: "m < 16 \<Longrightarrow> 0x20 \<le> (of_char (hex_digit m) :: nat) \<and> of_char (hex_digit m) \<le> (0x7E :: nat)" for m
    by (simp add: hex_digit_def)
  have "of_char d div 16 < (16 :: nat)" "of_char d mod 16 < (16 :: nat)"
    using of_char_less_256 [of d] by (auto intro: less_mult_imp_div_less)
  with Cons digit show ?case by auto
qed simp

lemma length_runes: "length (runes s) \<le> length s"
proof (induction s rule: chunks_induct)
  case (rune s)
  have "1 \<le> snd (decode_rune s)" "0 < length s" using decode_rune_width [of s] rune(1) by auto
  moreover have "length (runes s) = Suc (length (runes (drop (snd (decode_rune s)) s)))"
    using rune(1) by (simp add: runes_def chunks_unfold [of s])
  ultimately show ?case using rune(2) unfolding length_drop by linarith
qed simp

text \<open>A correlation id taken from the caller: at most 64 bytes, all of them printable ASCII.\<close>

lemma sanitiseID_bytes: "length (sanitiseID s) \<le> maxRequestIDLen \<and> printable (sanitiseID s)"
proof -
  let ?f = "\<lambda>r. case if r < 0x20 \<or> r > 0x7E then None else Some r of None \<Rightarrow> [] | Some q \<Rightarrow> encode_rune q"
  have enc: "?f r = (if r < 0x20 \<or> r > 0x7E then [] else [char_of r])" for r :: nat
    by (simp add: encode_rune_def valid_rune_def Let_def)
  have len: "length (concat (map ?f rs)) \<le> length rs" for rs
    unfolding enc by (induction rs) auto
  have print: "c \<in> set (concat (map ?f rs)) \<Longrightarrow> 0x20 \<le> (of_char c :: nat) \<and> of_char c \<le> (0x7E :: nat)" for c rs
    unfolding enc by (induction rs) (auto split: if_splits)
  obtain t where t: "sanitiseID s = concat (map ?f (runes t))" "length t \<le> maxRequestIDLen"
    using that [of "take maxRequestIDLen s"] that [of s]
    by (cases "length s > maxRequestIDLen") (simp_all add: sanitiseID_def Map_runes_def Let_def)
  then have "length (sanitiseID s) \<le> maxRequestIDLen"
    using len [of "runes t"] length_runes [of t] by simp
  moreover have "printable (sanitiseID s)"
    unfolding printable_def t(1) using print by blast
  ultimately show ?thesis ..
qed

lemma requestID_printable: "printable (requestID rand nanos r)"
  using sanitiseID_bytes [of "Header_Get (hr_Header r) HeaderRequestID"] hex_printable digits36_printable
  by (auto simp: requestID_def Let_def printable_def split: option.splits)

end
