(* ===== verification/Inbound_Isolation.thy ===== *)
theory Inbound_Isolation
  imports Inbound
begin

text \<open>
  What a history of turns guarantees: a tenant is only ever given state that the same tenant
  returned, for the same session and the same subscriber; turns are counted from one; a session that
  continues carries its state on, and one that ended starts afresh.  Isolation is proved under the weak
  contract \<open>session_history\<close>, the rest under that of a session store, and used at the in-process store.
\<close>

section \<open>Histories\<close>

definition store_of ::
    "(time \<Rightarrow> Key \<Rightarrow> 's \<Rightarrow> session_error + Session) \<Rightarrow> (time \<Rightarrow> Session \<Rightarrow> 's \<Rightarrow> session_error option \<times> 's) \<Rightarrow>
     (Key \<Rightarrow> 's \<Rightarrow> session_error option \<times> 's) \<Rightarrow> 's Store" where
  "store_of load save delete = \<lparr>st_Load = load, st_Save = save, st_Delete = delete\<rparr>"

lemma store_of_simps [simp]:
  "st_Load (store_of l sv dl) = l" "st_Save (store_of l sv dl) = sv" "st_Delete (store_of l sv dl) = dl"
  by (simp_all add: store_of_def)

definition memory_store :: "Memory Store" where
  "memory_store = store_of Memory_Load Memory_Save Memory_Delete"

fun handle_run ::
    "'s Store \<Rightarrow> Router \<Rightarrow> (instants \<times> Dispatcher \<times> Event) list \<Rightarrow> 's \<Rightarrow> (Event \<times> exchange) list \<times> 's" where
  "handle_run store router [] s = ([], s)"
| "handle_run store router ((i, d, ev) # turns) s =
     (case handle store router d i ev s of
        (result, s', ex) \<Rightarrow>
          (case handle_run store router turns s' of
             (exs, s'') \<Rightarrow> ((case ex of None \<Rightarrow> [] | Some x \<Rightarrow> [(ev, x)]) @ exs, s'')))"

text \<open>What the reply of an exchange gave the gateway to keep, and for whom.\<close>

definition kept :: "Event \<times> exchange \<Rightarrow> (string \<times> string \<times> string \<times> string) option" where
  "kept evx =
     (case ex_Result (snd evx) of
        Inl _ \<Rightarrow> None
      | Inr reply \<Rightarrow>
          (case rp_State reply of
             None \<Rightarrow> None
           | Some st \<Rightarrow>
               Some (Key_String (event_key (fst evx)), ev_MSISDN (fst evx), tn_Name (ex_Tenant (snd evx)), st)))"

text \<open>The same up to what the store makes of strings and of the state.\<close>

definition kept_norm ::
    "(string \<Rightarrow> string) \<Rightarrow> (string \<Rightarrow> string) \<Rightarrow> Event \<times> exchange \<Rightarrow> (string \<times> string \<times> string \<times> string) option" where
  "kept_norm enc norm evx = map_option (\<lambda>(k, m, t, st). (enc k, enc m, enc t, norm st)) (kept evx)"

lemma kept_norm_same [simp]: "kept_norm (\<lambda>s. s) (\<lambda>st. st) = kept"
  by (rule ext) (simp add: kept_norm_def option.map_id)

lemma kept_norm_Some:
  "kept_norm enc norm evx = Some (k, m, t, st) \<longleftrightarrow>
     (\<exists>k' m' t' st'. kept evx = Some (k', m', t', st') \<and> enc k' = k \<and> enc m' = m \<and> enc t' = t \<and> norm st' = st)"
  by (auto simp: kept_norm_def)

definition named_routes :: "Router \<Rightarrow> bool" where
  "named_routes router \<longleftrightarrow> (\<forall>ev t routed. Route router ev = Inr (t, routed) \<longrightarrow> tn_Name t \<noteq> [])"

lemma named_routes_NewRouter:
  assumes "map_order order" "NewRouter url order ts = Inr router"
  shows "named_routes router"
proof -
  have "tn_Name t \<noteq> []" if "t \<in> set ts" for t
  proof -
    have "Tenant_Validate url t = None" using NewRouter_Inr [OF assms] that by (simp add: wf_tenants_def)
    then show ?thesis by (auto simp: Tenant_Validate_def)
  qed
  then show ?thesis
    using Route_Inr [OF assms] by (auto simp: named_routes_def answers_def)
qed

section \<open>Under the weaker contract of a store\<close>

context session_history
begin

abbreviation run_turn ::
    "Router \<Rightarrow> Dispatcher \<Rightarrow> instants \<Rightarrow> Event \<Rightarrow> 's \<Rightarrow> (handle_error + Response) \<times> 's \<times> exchange option" where
  "run_turn \<equiv> handle (store_of load save delete)"

definition session_inv :: "(string \<times> string \<times> string \<times> string) set \<Rightarrow> 's \<Rightarrow> bool" where
  "session_inv past s \<longleftrightarrow>
     (\<forall>t k sess. load t k s = Inr sess \<longrightarrow>
        enc (Key_String (se_Key sess)) = enc (Key_String k) \<and> Key_Validate (se_Key sess) = None \<and> se_Tenant sess \<noteq> [] \<and> 1 \<le> se_Turn sess \<and>
        (\<forall>st. se_State sess = Some st \<longrightarrow> (enc (Key_String k), enc (se_MSISDN sess), enc (se_Tenant sess), norm st) \<in> past))"

lemma session_invD:
  assumes "session_inv past s" "load t k s = Inr sess"
  shows "enc (Key_String (se_Key sess)) = enc (Key_String k)" "se_Tenant sess \<noteq> []" "1 \<le> se_Turn sess"
    "Key_Validate (se_Key sess) = None"
    "se_State sess = Some st \<Longrightarrow> (enc (Key_String k), enc (se_MSISDN sess), enc (se_Tenant sess), norm st) \<in> past"
  using assms unfolding session_inv_def by blast+

lemma session_inv_mono: "session_inv past s \<Longrightarrow> past \<subseteq> past' \<Longrightarrow> session_inv past' s"
  unfolding session_inv_def by blast

lemma load_session_held:
  "load_session (store_of load save delete) t ev s =
     (case load t (event_key ev) s of
        Inl _ \<Rightarrow> fresh_session ev
      | Inr sess \<Rightarrow> if se_MSISDN sess = ev_MSISDN ev then sess else fresh_session ev)"
  by (simp add: load_session_eq split: sum.split)

text \<open>The session a turn gives to the tenant it is routed to.\<close>

lemma entered_session:
  assumes "session_inv past s" "sess = enter_tenant target (load_session (store_of load save delete) t ev s)"
    "tn_Name target \<noteq> []"
  shows "enc (Key_String (se_Key sess)) = enc (Key_String (event_key ev))" "se_MSISDN sess = ev_MSISDN ev"
    "se_Tenant sess = tn_Name target" "1 \<le> se_Turn sess"
    "se_State sess = Some st \<Longrightarrow>
       2 \<le> se_Turn sess \<and> (enc (Key_String (event_key ev)), enc (ev_MSISDN ev), enc (tn_Name target), norm st) \<in> past"
proof -
  let ?old = "load_session (store_of load save delete) t ev s"
  show "se_MSISDN sess = ev_MSISDN ev" "se_Tenant sess = tn_Name target"
    using assms(2) by (simp_all add: load_session_MSISDN)
  consider (fresh) "?old = fresh_session ev" | (found) "load t (event_key ev) s = Inr ?old" "se_MSISDN ?old = ev_MSISDN ev"
    by (cases "load t (event_key ev) s"; cases "?old = fresh_session ev")
      (auto simp: load_session_held split: if_splits)
  then have "enc (Key_String (se_Key sess)) = enc (Key_String (event_key ev)) \<and> 1 \<le> se_Turn sess \<and>
      (\<forall>st. se_State sess = Some st \<longrightarrow>
         2 \<le> se_Turn sess \<and> (enc (Key_String (event_key ev)), enc (ev_MSISDN ev), enc (tn_Name target), norm st) \<in> past)"
  proof cases
    case fresh
    then show ?thesis using assms(2) enter_tenant_same [of "fresh_session ev" target] by simp
  next
    case found
    note inv = session_invD [OF assms(1) found(1)]
    show ?thesis
    proof (cases "se_Tenant ?old = tn_Name target")
      case True
      then show ?thesis using assms(2) inv found(2) enter_tenant_same [of ?old target] by fastforce
    next
      case False
      then show ?thesis using assms(2) inv(1,2) enter_tenant_other [of ?old target] by simp
    qed
  qed
  then show "enc (Key_String (se_Key sess)) = enc (Key_String (event_key ev))" "1 \<le> se_Turn sess"
    "se_State sess = Some st \<Longrightarrow>
       2 \<le> se_Turn sess \<and> (enc (Key_String (event_key ev)), enc (ev_MSISDN ev), enc (tn_Name target), norm st) \<in> past" by auto
qed

lemma entered_session_valid:
  assumes "session_inv past s" "Key_Validate (event_key ev) = None"
  shows "Key_Validate (se_Key (enter_tenant target (load_session (store_of load save delete) t ev s))) = None"
  using assms(2) session_invD(4) [OF assms(1)] by (simp add: load_session_held split: sum.split)

lemma session_inv_delete: "session_inv past s \<Longrightarrow> session_inv past (snd (delete k s))"
  using load_deleted unfolding session_inv_def by blast

lemma session_inv_save:
  assumes "session_inv past s" "se_Tenant sess \<noteq> []" "1 \<le> se_Turn sess"
    "\<And>st. se_State sess = Some st \<Longrightarrow> (enc (Key_String (se_Key sess)), enc (se_MSISDN sess), enc (se_Tenant sess), norm st) \<in> past"
  shows "session_inv past (snd (save now sess s))"
  unfolding session_inv_def
proof (intro allI impI)
  fix t k x
  assume "load t k (snd (save now sess s)) = Inr x"
  then consider "load t k s = Inr x"
    | "reads_back enc norm sess x" "Key_String k = Key_String (se_Key sess)" "Key_Validate (se_Key sess) = None"
    using load_saved [of t k now sess s x] by auto
  then show "enc (Key_String (se_Key x)) = enc (Key_String k) \<and> Key_Validate (se_Key x) = None \<and> se_Tenant x \<noteq> [] \<and> 1 \<le> se_Turn x \<and>
      (\<forall>st. se_State x = Some st \<longrightarrow> (enc (Key_String k), enc (se_MSISDN x), enc (se_Tenant x), norm st) \<in> past)"
  proof cases
    case 1
    then show ?thesis using session_invD [OF assms(1)] by blast
  next
    case 2
    have x: "se_MSISDN x = enc (se_MSISDN sess)" "se_Tenant x = enc (se_Tenant sess)" "se_Turn x = se_Turn sess"
      using 2(1) by (simp_all add: reads_back_def)
    have "(enc (Key_String k), enc (se_MSISDN x), enc (se_Tenant x), norm st) \<in> past" if held: "se_State x = Some st" for st
    proof -
      obtain st0 where "se_State sess = Some st0" "norm st0 = norm st" using 2(1) held by (auto simp: reads_back_def)
      with assms(4) [of st0] show ?thesis by (simp add: x enc_idem 2(2))
    qed
    with 2(2,3) reads_back_key [OF 2(1)] assms(2,3) show ?thesis by (simp add: x enc_Nil)
  qed
qed

text \<open>One turn keeps the invariant, extended by what its reply gave to keep.\<close>

lemma run_turn_inv:
  assumes inv: "session_inv past s" and names: "named_routes router"
    and run: "run_turn router d i ev s = (result, s', ex)"
  shows "session_inv (past \<union> {x. \<exists>e. ex = Some e \<and> kept_norm enc norm (ev, e) = Some x}) s'"
    and "ex = Some x \<Longrightarrow> 1 \<le> rq_Turn (ex_Request x) \<and>
      (\<forall>st. rq_State (ex_Request x) = Some st \<longrightarrow> 2 \<le> rq_Turn (ex_Request x) \<and>
         (enc (Key_String (event_key ev)), enc (ev_MSISDN ev), enc (tn_Name (ex_Tenant x)), norm st) \<in> past)"
proof -
  let ?store = "store_of load save delete"
  let ?past = "past \<union> {x. \<exists>e. ex = Some e \<and> kept_norm enc norm (ev, e) = Some x}"
  have grow: "session_inv ?past s" using inv by (rule session_inv_mono) simp
  have entered: "1 \<le> rq_Turn (turn_request routed sess) \<and>
      (\<forall>st. rq_State (turn_request routed sess) = Some st \<longrightarrow> 2 \<le> rq_Turn (turn_request routed sess) \<and>
         (enc (Key_String (event_key ev)), enc (ev_MSISDN ev), enc (tn_Name target), norm st) \<in> past)"
    if "Route router ev = Inr (target, routed)" "sess = enter_tenant target (load_session ?store (at_Load i) ev s)"
    for target routed sess
    using entered_session [OF inv that(2)] names that(1) by (auto simp: named_routes_def turn_request_def)
  have replied: "session_inv ?past (snd (save now (apply_reply reply sess) s))"
    if "Route router ev = Inr (target, routed)" "sess = enter_tenant target (load_session ?store (at_Load i) ev s)"
      "ex = Some \<lparr>ex_Tenant = target, ex_Request = turn_request routed sess, ex_Result = Inr reply\<rparr>"
    for target routed sess reply now
  proof -
    have name: "tn_Name target \<noteq> []" using names that(1) by (auto simp: named_routes_def)
    note e = entered_session [OF inv that(2) name]
    have "(enc (Key_String (event_key ev)), enc (ev_MSISDN ev), enc (tn_Name target), norm st) \<in> ?past"
      if "se_State (apply_reply reply sess) = Some st" for st
    proof (cases "rp_State reply")
      case None
      then show ?thesis using that e(5) by (auto simp: apply_reply_State split: if_splits)
    next
      case (Some st')
      then show ?thesis using that \<open>ex = _\<close>
        by (auto simp: kept_norm_Some kept_def apply_reply_State split: if_splits)
    qed
    then show ?thesis by (intro session_inv_save [OF grow]) (use e(1-4) name in auto)
  qed
  have "session_inv ?past s' \<and> (\<forall>x. ex = Some x \<longrightarrow> 1 \<le> rq_Turn (ex_Request x) \<and>
      (\<forall>st. rq_State (ex_Request x) = Some st \<longrightarrow> 2 \<le> rq_Turn (ex_Request x) \<and>
         (enc (Key_String (event_key ev)), enc (ev_MSISDN ev), enc (tn_Name (ex_Tenant x)), norm st) \<in> past))"
  proof (cases rule: handle_cases [of ev ?store router d i s])
    case terminal
    then show ?thesis using run session_inv_delete [OF grow, of "event_key ev"] by simp
  next
    case (unrouted err)
    then show ?thesis using run grow by simp
  next
    case (failed target routed sess x err)
    then show ?thesis using run grow entered [OF failed(2,3)] by simp
  next
    case (ended target routed sess x reply)
    then show ?thesis
      using run entered [OF ended(2,3)] session_inv_delete [OF grow, of "event_key ev"] by simp
  next
    case (unsaved target routed sess x reply err s2)
    have ex: "ex = Some x" "s' = s2" using run unsaved by simp_all
    have "session_inv ?past (snd (save (at_Save i) (apply_reply reply sess) s))"
      by (rule replied [OF unsaved(2,3)]) (simp add: ex unsaved(4))
    then show ?thesis using ex unsaved(4,7) entered [OF unsaved(2,3)] by simp
  next
    case (saved target routed sess x reply s2)
    have ex: "ex = Some x" "s' = s2" using run saved by simp_all
    have "session_inv ?past (snd (save (at_Save i) (apply_reply reply sess) s))"
      by (rule replied [OF saved(2,3)]) (simp add: ex saved(4))
    then show ?thesis using ex saved(4,7) entered [OF saved(2,3)] by simp
  qed
  then show "session_inv ?past s'"
    and "ex = Some x \<Longrightarrow> 1 \<le> rq_Turn (ex_Request x) \<and>
      (\<forall>st. rq_State (ex_Request x) = Some st \<longrightarrow> 2 \<le> rq_Turn (ex_Request x) \<and>
         (enc (Key_String (event_key ev)), enc (ev_MSISDN ev), enc (tn_Name (ex_Tenant x)), norm st) \<in> past)"
    by auto
qed

text \<open>A history: whatever a tenant was given, an earlier reply of the same tenant had returned.\<close>

lemma run_isolated:
  assumes "session_inv past s" "named_routes router"
    "handle_run (store_of load save delete) router turns s = (exs, s')"
    "n < length exs" "rq_State (ex_Request (snd (exs ! n))) = Some st"
  shows "(enc (Key_String (event_key (fst (exs ! n)))), enc (ev_MSISDN (fst (exs ! n))),
      enc (tn_Name (ex_Tenant (snd (exs ! n)))), norm st) \<in> past \<union> {x. \<exists>m < n. kept_norm enc norm (exs ! m) = Some x}"
  using assms
proof (induction turns arbitrary: past s exs n)
  case (Cons turn turns)
  obtain i d ev where turn: "turn = (i, d, ev)" by (cases turn) auto
  obtain result s1 ex where step: "run_turn router d i ev s = (result, s1, ex)" by (metis prod_cases3)
  obtain exs' where rest: "handle_run (store_of load save delete) router turns s1 = (exs', s')"
    and exs: "exs = (case ex of None \<Rightarrow> [] | Some x \<Rightarrow> [(ev, x)]) @ exs'"
    using Cons.prems(3) turn step by (auto split: prod.splits)
  note inv = run_turn_inv [OF Cons.prems(1,2) step]
  show ?case
  proof (cases ex)
    case None
    then show ?thesis using Cons.IH [OF inv(1) Cons.prems(2) rest] Cons.prems(4,5) exs by simp
  next
    case (Some x)
    show ?thesis
    proof (cases n)
      case 0
      then show ?thesis using inv(2) [OF Some] Cons.prems(5) exs Some by simp
    next
      case (Suc m)
      have "exs ! n = exs' ! m" "m < length exs'" using Suc Some exs Cons.prems(4) by simp_all
      then have "(enc (Key_String (event_key (fst (exs ! n)))), enc (ev_MSISDN (fst (exs ! n))),
          enc (tn_Name (ex_Tenant (snd (exs ! n)))), norm st)
          \<in> (past \<union> {x. \<exists>e. ex = Some e \<and> kept_norm enc norm (ev, e) = Some x}) \<union> {x. \<exists>j < m. kept_norm enc norm (exs' ! j) = Some x}"
        using Cons.IH [OF inv(1) Cons.prems(2) rest, of m] Cons.prems(5) by simp
      moreover have "kept_norm enc norm (ev, x) = Some q \<Longrightarrow> \<exists>j < n. kept_norm enc norm (exs ! j) = Some q" for q
        using Suc Some exs by (intro exI [of _ 0]) simp
      moreover have "j < m \<Longrightarrow> kept_norm enc norm (exs' ! j) = Some q \<Longrightarrow> \<exists>j < n. kept_norm enc norm (exs ! j) = Some q" for j q
        using Suc Some exs by (intro exI [of _ "Suc j"]) simp
      ultimately show ?thesis using Some by blast
    qed
  qed
qed simp

lemma run_inv:
  assumes "session_inv past s" "named_routes router"
    "handle_run (store_of load save delete) router turns s = (exs, s')"
  shows "\<exists>past'. session_inv past' s'"
  using assms
proof (induction turns arbitrary: past s exs)
  case (Cons turn turns)
  obtain i d ev where turn: "turn = (i, d, ev)" by (cases turn) auto
  obtain result s1 ex where step: "run_turn router d i ev s = (result, s1, ex)" by (metis prod_cases3)
  obtain exs' where rest: "handle_run (store_of load save delete) router turns s1 = (exs', s')"
    using Cons.prems(3) turn step by (auto split: prod.splits)
  show ?case by (rule Cons.IH [OF run_turn_inv(1) [OF Cons.prems(1,2) step] Cons.prems(2) rest])
qed auto

text \<open>Turns are counted from one, and a turn that is given state is not the first.\<close>

lemma run_counted:
  assumes "session_inv past s" "named_routes router"
    "handle_run (store_of load save delete) router turns s = (exs, s')" "evx \<in> set exs"
  shows "1 \<le> rq_Turn (ex_Request (snd evx)) \<and>
    (rq_State (ex_Request (snd evx)) \<noteq> None \<longrightarrow> 2 \<le> rq_Turn (ex_Request (snd evx)))"
  using assms
proof (induction turns arbitrary: past s exs)
  case (Cons turn turns)
  obtain i d ev where turn: "turn = (i, d, ev)" by (cases turn) auto
  obtain result s1 ex where step: "run_turn router d i ev s = (result, s1, ex)" by (metis prod_cases3)
  obtain exs' where rest: "handle_run (store_of load save delete) router turns s1 = (exs', s')"
    and exs: "exs = (case ex of None \<Rightarrow> [] | Some x \<Rightarrow> [(ev, x)]) @ exs'"
    using Cons.prems(3) turn step by (auto split: prod.splits)
  note inv = run_turn_inv [OF Cons.prems(1,2) step]
  consider x where "ex = Some x" "evx = (ev, x)" | "evx \<in> set exs'"
    using Cons.prems(4) exs by (auto split: option.splits)
  then show ?case
  proof cases
    case 1
    then show ?thesis using inv(2) [OF 1(1)] by auto
  next
    case 2
    then show ?thesis by (rule Cons.IH [OF inv(1) Cons.prems(2) rest])
  qed
qed simp

end

section \<open>Under the contract of a store\<close>

context session_store
begin

lemma load_session_live:
  "load_session (store_of load save delete) t ev s =
     (case live t s (event_key ev) of
        None \<Rightarrow> fresh_session ev
      | Some sess \<Rightarrow> if se_MSISDN sess = ev_MSISDN ev then sess else fresh_session ev)"
  by (simp add: load_session_eq live_def split: sum.split)

text \<open>The turn after one that was answered and saved.\<close>

lemma turn_continues:
  assumes inv: "history.session_inv past s" and names: "named_routes router"
    and first: "history.run_turn router d i ev s = (Inr resp, s', Some x)" "\<not> resp_EndSession resp"
    and reply: "ex_Result x = Inr reply"
    and second: "history.run_turn router d' i' ev' s' = (result, s'', Some y)"
    and same: "event_key ev' = event_key ev" "ev_MSISDN ev' = ev_MSISDN ev" "Key_Validate (event_key ev) = None"
    and soon: "at_Load i' < at_Save i + ttl s"
  shows "rq_Turn (ex_Request y) = (if tn_Name (ex_Tenant y) = tn_Name (ex_Tenant x) then rq_Turn (ex_Request x) + 1 else 1)
    \<and> rq_State (ex_Request y) =
      (if tn_Name (ex_Tenant y) \<noteq> tn_Name (ex_Tenant x) \<or> rp_ClearState reply then None
       else if rp_State reply \<noteq> None then rp_State reply else rq_State (ex_Request x))"
proof -
  let ?store = "store_of load save delete"
  obtain target routed sess where x: "Route router ev = Inr (target, routed)"
    "sess = enter_tenant target (load_session ?store (at_Load i) ev s)"
    "x = \<lparr>ex_Tenant = target, ex_Request = turn_request routed sess, ex_Result = Inr reply\<rparr>"
    "save (at_Save i) (apply_reply reply sess) s = (None, s')"
    by (cases rule: handle_cases [of ev ?store router d i s]) (use first reply in auto)
  have name: "tn_Name target \<noteq> []" using names x(1) by (auto simp: named_routes_def)
  note e = history.entered_session [OF inv x(2) name]
  let ?saved = "stamp (at_Save i) (apply_reply reply sess)"
  have "live (at_Load i') s' (event_key ev') = Some ?saved"
    using live_save [OF x(4), of "event_key ev'" "at_Load i'"] e(1) same soon by simp
  then have old: "load_session ?store (at_Load i') ev' s' = ?saved"
    using e(2) same by (simp add: load_session_live)
  obtain target' routed' sess' where y: "sess' = enter_tenant target' ?saved" "ex_Tenant y = target'"
    "ex_Request y = turn_request routed' sess'"
    by (cases rule: handle_cases [of ev' ?store router d' i' s']) (use second old in auto)
  show ?thesis
  proof (cases "tn_Name target' = tn_Name target")
    case True
    then show ?thesis using y x(3) e(3) enter_tenant_same [of ?saved target']
      by (auto simp: turn_request_def apply_reply_State split: option.splits)
  next
    case False
    then show ?thesis using y x(3) e(3) name enter_tenant_other [of ?saved target']
      by (simp add: turn_request_def)
  qed
qed

text \<open>The turn after one that ended the session, by the tenant or by the network.\<close>

lemma turn_after_end:
  assumes first: "history.run_turn router d i ev s = (Inr resp, s', ex)"
      "Phase_Terminal (ev_Phase ev) \<or> resp_EndSession resp"
    and deleted: "fst (delete (event_key ev) s) = None"
    and second: "history.run_turn router d' i' ev' s' = (result, s'', Some y)"
    and same: "event_key ev' = event_key ev" "Key_Validate (event_key ev) = None"
  shows "rq_Turn (ex_Request y) = 1 \<and> rq_State (ex_Request y) = None"
proof -
  let ?store = "store_of load save delete"
  have "s' = snd (delete (event_key ev) s)"
    by (cases rule: handle_cases [of ev ?store router d i s]) (use first in auto)
  with deleted have del: "delete (event_key ev) s = (None, s')" by (metis prod.collapse)
  have "live (at_Load i') s' (event_key ev') = None"
    using live_delete [OF del, of "event_key ev'"] same by simp
  then have old: "load_session ?store (at_Load i') ev' s' = fresh_session ev'" by (simp add: load_session_live)
  obtain target' routed' where "ex_Request y = turn_request routed' (enter_tenant target' (fresh_session ev'))"
    by (cases rule: handle_cases [of ev' ?store router d' i' s']) (use second old in auto)
  then show ?thesis using enter_tenant_same [of "fresh_session ev'" target'] by (simp add: turn_request_def)
qed

text \<open>A turn that failed leaves the store as it was.\<close>

lemma failed_turn:
  assumes "history.run_turn router d i ev s = (Inl err, s', ex)"
  shows "s' = s"
  by (cases rule: handle_cases [of ev "store_of load save delete" router d i s])
    (use assms save_failed in auto)

end

section \<open>The in-process store\<close>

lemma memory_session_inv: "memory.history.session_inv past (NewMemory opts)"
proof -
  have empty: "mem_items (NewMemory_options m opts) = mem_items m" for m
    by (induction m opts rule: NewMemory_options.induct) simp_all
  have "Memory_Load t k (NewMemory opts) \<noteq> Inr sess" for t k sess
    by (simp add: Memory_Load_def NewMemory_def empty split: option.split)
  then show ?thesis
    by (simp add: memory.history.session_inv_def)
qed

end
