(* ===== verification/Sdk_Gsm.thy ===== *)
theory Sdk_Gsm
  imports Canonical_Encoding
begin

text \<open>
  \<^verbatim>\<open>sdk/go/gsm.go\<close>: rewriting text into the GSM alphabet, so that one foreign character
  does not cost a menu most of its screen, and collapsing a text to one line, so that a label
  cannot forge a menu option.  (\<open>Label\<close>, the third function of the file, also truncates and is
  in \<^verbatim>\<open>Sdk_Render\<close>.)
\<close>

section \<open>The code\<close>

text \<open>The map literal, as an association list in the source's order.\<close>

definition transliterations :: "(rune \<times> string) list" where
  "transliterations =
    [(0x2018, [CHR 0x27]), (0x2019, [CHR 0x27]), (0x201A, '',''), (0x201B, [CHR 0x27]),
     (0x201C, [CHR 0x22]), (0x201D, [CHR 0x22]), (0x201E, [CHR 0x22]), (0x201F, [CHR 0x22]),
     (0x2013, ''-''), (0x2014, ''-''), (0x2212, ''-''), (0x2012, ''-''), (0x2026, ''...''),
     (0x2022, ''*''), (0xB7, ''.''), (0x2030, ''%''), (0xAB, [CHR 0x22]), (0xBB, [CHR 0x22]),
     (0x2032, [CHR 0x27]), (0x2033, [CHR 0x22]), (0xE1, ''a''), (0xE2, ''a''), (0xE3, ''a''),
     (0xE5, ''a''), (0x101, ''a''), (0xE9, ''e''), (0xEA, ''e''), (0xEB, ''e''),
     (0x113, ''e''), (0xED, ''i''), (0xEE, ''i''), (0xEF, ''i''), (0x12B, ''i''),
     (0xF3, ''o''), (0xF4, ''o''), (0xF5, ''o''), (0x14D, ''o''), (0xFA, ''u''), (0xFB, ''u''),
     (0x16B, ''u''), (0xE7, ''c''), (0x161, ''s''), (0x17E, ''z''), (0xFD, ''y''),
     (0xC1, ''A''), (0xC2, ''A''), (0xC3, ''A''), (0x100, ''A''), (0xC8, ''E''), (0xCA, ''E''),
     (0xCB, ''E''), (0xCD, ''I''), (0xCE, ''I''), (0xCF, ''I''), (0xD3, ''O''), (0xD4, ''O''),
     (0xD5, ''O''), (0xDA, ''U''), (0xDB, ''U''), (0xA0, '' ''), (0x200B, ''''),
     (0xFE0F, ''''), (0x9, '' '')]"

definition ToGSM_piece :: "rune \<Rightarrow> string" where
  "ToGSM_piece r =
     (if EncodingOf (encode_rune r) = EncodingGSM7 then encode_rune r
      else case map_of transliterations r of Some repl \<Rightarrow> repl | None \<Rightarrow> '' '')"

definition ToGSM :: "string \<Rightarrow> string" where
  "ToGSM s =
     (if EncodingOf s = EncodingGSM7 then s
      else join '' '' (Fields (concat (map ToGSM_piece (runes s)))))"

definition line_break :: "rune \<Rightarrow> bool" where
  "line_break r \<longleftrightarrow> r = 0x0A \<or> r = 0x0D \<or> r = 0x09 \<or> r = 0x0B \<or> r = 0x0C \<or> r = 0x20"

definition OneLine :: "string \<Rightarrow> string" where
  "OneLine s = join '' '' (FieldsFunc s line_break)"

section \<open>The result is in the alphabet\<close>

lemma transliterations_ascii:
  "map_of transliterations r = Some t \<Longrightarrow> ascii t \<and> gsm_text (map of_char t)"
proof -
  have "list_all (\<lambda>(r, t). ascii t \<and> gsm_text (map of_char t)) transliterations"
    by (simp add: transliterations_def gsm_rune_def gsm7Basic_def)
  then show "map_of transliterations r = Some t \<Longrightarrow> ascii t \<and> gsm_text (map of_char t)"
    by (auto simp: list_all_iff dest!: map_of_SomeD)
qed

lemma gsm_rune_space [simp]: "gsm_rune 0x20"
  by (simp add: gsm_rune_def gsm7Basic_def)

lemma runes_ToGSM_piece:
  assumes "valid_rune r"
  shows "\<exists>qs. (\<forall>t. runes (ToGSM_piece r @ t) = qs @ runes t) \<and> gsm_text qs"
proof (cases "EncodingOf (encode_rune r) = EncodingGSM7")
  case True
  have one: "runes (encode_rune r @ t) = r # runes t" for t
    using assms by (simp add: runes_def chunks_encode_rune)
  from one [of "[]"] True have "gsm_rune r" by (auto simp: EncodingOf_runes split: if_splits)
  with one True show ?thesis by (intro exI [of _ "[r]"]) (simp add: ToGSM_piece_def)
next
  case False
  show ?thesis
  proof (cases "map_of transliterations r")
    case None
    with False show ?thesis
      by (intro exI [of _ "[0x20]"]) (simp add: ToGSM_piece_def runes_ascii_Cons)
  next
    case (Some t)
    with False transliterations_ascii [OF Some] show ?thesis
      by (intro exI [of _ "map of_char t"]) (simp add: ToGSM_piece_def runes_ascii_append)
  qed
qed

lemma gsm_text_pieces:
  "\<forall>r \<in> set rs. valid_rune r \<Longrightarrow> gsm_text (runes (concat (map ToGSM_piece rs)))"
proof (induction rs)
  case (Cons r rs)
  then obtain qs where "runes (ToGSM_piece r @ concat (map ToGSM_piece rs)) =
      qs @ runes (concat (map ToGSM_piece rs))" "gsm_text qs"
    using runes_ToGSM_piece [of r] by auto
  with Cons show ?case by simp
qed simp

lemma gsm_text_join_fields: "gsm_text rs \<Longrightarrow> gsm_text (join [0x20] (fields_by p rs))"
proof -
  assume "gsm_text rs"
  moreover have "set (join [0x20] (fields_by p rs)) \<subseteq> insert 0x20 (set rs)"
    using set_join [of "[0x20]" "fields_by p rs"] set_concat [of "fields_by p rs"]
    by (auto simp: concat_fields_by)
  ultimately show ?thesis by (auto simp: gsm_text_def)
qed

lemma gsm_text_ToGSM: "gsm_text (runes (ToGSM s))"
proof (cases "gsm_text (runes s)")
  case True
  then show ?thesis by (simp add: ToGSM_def EncodingOf_runes)
next
  case False
  have "gsm_text (runes (concat (map ToGSM_piece (runes s))))"
    by (rule gsm_text_pieces) (auto intro: runes_valid)
  with False show ?thesis
    by (simp add: ToGSM_def EncodingOf_runes Fields_def runes_join_FieldsFunc gsm_text_join_fields)
qed

lemma ToGSM_idem: "ToGSM (ToGSM s) = ToGSM s"
  by (subst ToGSM_def) (simp add: EncodingOf_runes gsm_text_ToGSM)

section \<open>The result is one line\<close>

lemma runes_OneLine: "runes (OneLine s) = join [0x20] (fields_by line_break (runes s))"
  by (simp add: OneLine_def runes_join_FieldsFunc)

lemma OneLine_runes: "r \<in> set (runes (OneLine s)) \<Longrightarrow> r = 0x20 \<or> (r \<in> set (runes s) \<and> \<not> line_break r)"
  using set_join [of "[0x20]" "fields_by line_break (runes s)"]
    set_concat [of "fields_by line_break (runes s)"]
  by (auto simp: runes_OneLine concat_fields_by)

lemma gsm_text_OneLine: "gsm_text (runes s) \<Longrightarrow> gsm_text (runes (OneLine s))"
  by (simp add: runes_OneLine gsm_text_join_fields)

lemma OneLine_no_break: "0x0A \<notin> set (runes (OneLine s))"
  by (auto dest: OneLine_runes simp: line_break_def)

lemma join_fields_map_bytes:
  assumes "\<forall>w \<in> set ws. well_chunked w \<and> w \<noteq> [] \<and> (\<forall>x \<in> set w. \<not> p (snd x))" "of_char c < (0x80 :: nat)" "p (of_char c)"
  shows "FieldsFunc (join [c] (map bytes_of ws)) p = map bytes_of ws"
proof -
  have "chunks (join [c] (map bytes_of ws)) = join [([c], of_char c)] ws"
    using assms(1)
  proof (induction "[] :: (string \<times> rune) list" ws rule: join.induct)
    case (3 x y zs)
    have "starts_rune (c # join [c] (map bytes_of (y # zs)))"
      using assms(2) by (simp add: is_cont_def)
    from chunks_append [OF this, of "bytes_of x"] 3 assms(2) show ?case
      by (simp add: well_chunked_def chunks_ascii_Cons)
  qed (simp_all add: well_chunked_def)
  moreover have "fields_by (p \<circ> snd) (join [([c], of_char c)] ws) = ws"
    using assms by (intro fields_by_join) auto
  ultimately show ?thesis by (simp add: FieldsFunc_def)
qed

lemma OneLine_idem: "OneLine (OneLine s) = OneLine s"
proof -
  have "FieldsFunc (OneLine s) line_break = FieldsFunc s line_break"
    unfolding OneLine_def FieldsFunc_def [of s]
    by (rule join_fields_map_bytes)
       (auto intro: well_chunked_fields dest: fields_by_nonempty fields_by_elems simp: line_break_def)
  then show ?thesis by (simp add: OneLine_def)
qed

end
