(* ===== verification/Sdk_Render.thy ===== *)
theory Sdk_Render
  imports Sdk_Gsm
begin

text \<open>
  \<^verbatim>\<open>sdk/go/render.go\<close>, the part that cuts text: \<open>Truncate\<close>, \<open>Shrink\<close>, \<open>fitRunes\<close>,
  \<open>breakPoint\<close> and \<open>Paginate\<close>, with \<open>Label\<close> of \<^verbatim>\<open>sdk/go/gsm.go\<close>.

  Limits and reserves are Go \<^verbatim>\<open>int\<close>s that may be negative, so they are \<open>int\<close> here; lengths
  and indices are \<open>nat\<close>.  The lemmas say that what is returned fits the screen, how long it is,
  and that a page break loses nothing but white space.
\<close>

section \<open>Truncate\<close>

definition MaxScreen :: nat where
  "MaxScreen = MaxSeptets"

definition ellipsis :: string where
  "ellipsis = ''...''"

definition maxWordLookback :: nat where
  "maxWordLookback = 24"

text \<open>
  The loop \<^verbatim>\<open>for i := len(kept) - 1; i >= floor; i--\<close>: the first space found going back from
  the end, called with \<open>length kept\<close>.  (A difference that would be negative in Go is 0 here, and
  the maximum with half the length absorbs it.)
\<close>

fun word_break :: "rune list \<Rightarrow> nat \<Rightarrow> nat \<Rightarrow> nat option" where
  "word_break kept floor 0 = None"
| "word_break kept floor (Suc i) =
     (if i < floor then None
      else if IsSpace (kept ! i) then Some i
      else word_break kept floor i)"

definition Truncate :: "string \<Rightarrow> int \<Rightarrow> string" where
  "Truncate s limit =
     (if limit \<le> 0 then []
      else let rs = runes s in
      if int (length rs) \<le> limit then s
      else let marker = length (runes ellipsis) in
      if limit \<le> int marker then replicate (nat limit) CHR ''.''
      else let kept = take (nat limit - marker) rs in
      if IsSpace (rs ! length kept) then TrimRightFunc (string_of_runes kept) IsSpace @ ellipsis
      else case word_break kept (max (length kept - maxWordLookback) (length kept div 2)) (length kept) of
             Some i \<Rightarrow> TrimRightFunc (string_of_runes (take i kept)) IsSpace @ ellipsis
           | None \<Rightarrow> string_of_runes kept @ ellipsis)"

abbreviation dots :: "rune list" where
  "dots \<equiv> [0x2E, 0x2E, 0x2E]"

lemma ascii_ellipsis [simp]: "ascii ellipsis"
  by (simp add: ellipsis_def)

lemma runes_ellipsis [simp]: "runes ellipsis = dots"
  by (simp add: runes_ascii) (simp add: ellipsis_def)

lemma gsm_rune_dot [simp]: "gsm_rune 0x2E" "0x2E \<in> set gsm7Basic"
  by (simp_all add: gsm_rune_def gsm7Basic_def)

lemma runes_replicate_dot [simp]: "runes (replicate n CHR ''.'') = replicate n 0x2E"
  by (subst runes_ascii) (simp_all add: ascii_def)

lemma word_break_Some: "word_break kept floor n = Some i \<Longrightarrow> floor \<le> i \<and> i < n \<and> IsSpace (kept ! i)"
  by (induction kept floor n rule: word_break.induct) (auto split: if_splits)

lemma runes_append_ellipsis: "runes (s @ ellipsis) = runes s @ dots"
  by (simp add: runes_append starts_rune_ascii)

lemma runes_trim_take:
  "runes (TrimRightFunc (string_of_runes (take n (runes s))) IsSpace) =
     drop_while_end IsSpace (take n (runes s))"
  by (simp add: runes_TrimRightFunc)

text \<open>
  The three shapes of a truncation: the text itself, a run of dots in a limit too small for the
  marker, or a leading part of the text with the marker behind it.
\<close>

lemma Truncate_short: "0 < limit \<Longrightarrow> int (length (runes s)) \<le> limit \<Longrightarrow> Truncate s limit = s"
  by (simp add: Truncate_def)

lemma Truncate_dots:
  "0 < limit \<Longrightarrow> limit < int (length (runes s)) \<Longrightarrow> limit \<le> 3 \<Longrightarrow>
     runes (Truncate s limit) = replicate (nat limit) 0x2E"
  by (simp add: Truncate_def Let_def)

lemma Truncate_long:
  assumes "3 < limit" "limit < int (length (runes s))"
  shows "Truncate s limit =
    (let kept = take (nat limit - 3) (runes s) in
     if IsSpace (runes s ! length kept) then TrimRightFunc (string_of_runes kept) IsSpace @ ellipsis
     else case word_break kept (max (length kept - maxWordLookback) (length kept div 2)) (length kept) of
            Some i \<Rightarrow> TrimRightFunc (string_of_runes (take i kept)) IsSpace @ ellipsis
          | None \<Rightarrow> string_of_runes kept @ ellipsis)"
proof -
  have three: "length (runes ellipsis) = 3" by simp
  from assms show ?thesis unfolding Truncate_def Let_def three by simp
qed

lemma Truncate_cut:
  assumes "3 < limit" "limit < int (length (runes s))"
  shows "\<exists>p. prefix p (take (nat limit - 3) (runes s)) \<and> runes (Truncate s limit) = p @ dots"
proof -
  let ?kept = "take (nat limit - 3) (runes s)"
  have take_kept: "take i ?kept = take (min i (nat limit - 3)) (runes s)" for i
    by (simp add: min.commute)
  show ?thesis
  proof (cases "IsSpace (runes s ! length ?kept)")
    case True
    with assms have "runes (Truncate s limit) = drop_while_end IsSpace ?kept @ dots"
      by (simp add: Truncate_long Let_def runes_append_ellipsis runes_trim_take)
    then show ?thesis by blast
  next
    case not_space: False
    show ?thesis
    proof (cases "word_break ?kept (max (length ?kept - maxWordLookback) (length ?kept div 2)) (length ?kept)")
      case None
      with assms not_space have "runes (Truncate s limit) = ?kept @ dots"
        by (simp add: Truncate_long Let_def runes_append_ellipsis)
      then show ?thesis by blast
    next
      case (Some i)
      with assms not_space
      have "runes (Truncate s limit) = drop_while_end IsSpace (take i ?kept) @ dots"
        unfolding take_kept by (simp add: Truncate_long Let_def runes_append_ellipsis runes_trim_take take_kept)
      moreover have "prefix (drop_while_end IsSpace (take i ?kept)) ?kept"
        by (meson drop_while_end_prefix prefix_order.trans take_is_prefix)
      ultimately show ?thesis by blast
    qed
  qed
qed

lemma Truncate_unbroken:
  assumes "3 < limit" "limit < int (length (runes s))" "\<forall>r \<in> set (runes s). \<not> IsSpace r"
  shows "runes (Truncate s limit) = take (nat limit - 3) (runes s) @ dots"
proof -
  let ?kept = "take (nat limit - 3) (runes s)"
  have "length ?kept < length (runes s)" using assms(1,2) by simp
  then have "\<not> IsSpace (runes s ! length ?kept)" using assms(3) nth_mem by blast
  moreover have "word_break ?kept floor (length ?kept) = None" for floor
  proof (cases "word_break ?kept floor (length ?kept)")
    case (Some i)
    from word_break_Some [OF this] have i: "i < length ?kept" "IsSpace (?kept ! i)" by blast+
    from nth_mem [OF i(1)] have "?kept ! i \<in> set (runes s)" by (rule in_set_takeD)
    with i(2) assms(3) show ?thesis by blast
  qed
  ultimately have "Truncate s limit = string_of_runes ?kept @ ellipsis"
    using assms(1,2) by (simp add: Truncate_long Let_def)
  then show ?thesis by (simp add: runes_append_ellipsis)
qed

lemma length_Truncate: "int (length (runes (Truncate s limit))) \<le> max 0 limit"
proof -
  consider "limit \<le> 0" | "0 < limit" "int (length (runes s)) \<le> limit"
    | "0 < limit" "limit < int (length (runes s))" "limit \<le> 3"
    | "3 < limit" "limit < int (length (runes s))" by linarith
  then show ?thesis
  proof cases
    case 1
    then show ?thesis by (simp add: Truncate_def)
  next
    case 2
    then show ?thesis by (simp add: Truncate_short)
  next
    case 3
    then show ?thesis by (simp add: Truncate_dots)
  next
    case 4
    then obtain p where "prefix p (take (nat limit - 3) (runes s))" "runes (Truncate s limit) = p @ dots"
      using Truncate_cut by blast
    then show ?thesis using prefix_length_le [of p "take (nat limit - 3) (runes s)"] 4 by simp
  qed
qed

section \<open>Shrink\<close>

definition Shrink_fits :: "rune list \<Rightarrow> nat \<Rightarrow> bool" where
  "Shrink_fits rs mid = FitsScreen (string_of_runes (take mid rs) @ ellipsis)"

definition Shrink :: "string \<Rightarrow> string" where
  "Shrink s =
     (if FitsScreen s then s
      else let rs = runes s; lo = search_max (Shrink_fits rs) 0 (min (length rs) MaxScreen) in
      if lo = 0 then []
      else Truncate (string_of_runes (take (lo + 1) rs)) (int lo))"

lemma Shrink_fits_runes: "Shrink_fits (runes s) n \<longleftrightarrow> fits_within 0 (take n (runes s) @ dots)"
  by (simp add: Shrink_fits_def FitsScreen_runes)

interpretation shrink: size_budget "Shrink_fits (runes s)"
  by unfold_locales (auto simp: Shrink_fits_runes intro: screen.fits_take_append)

lemma Shrink_fits_few: "n \<le> 1 \<Longrightarrow> Shrink_fits (runes s) n"
  unfolding Shrink_fits_runes by (cases "runes s"; cases n) (auto simp: measure_defs)

text \<open>
  What the search finds: at least one rune, never as many as there are, so the slice
  \<^verbatim>\<open>runes[:lo+1]\<close> is in range, and the marker fits behind the runes found.
\<close>

lemma Shrink_found:
  assumes "\<not> FitsScreen s" and lo: "lo = search_max (Shrink_fits (runes s)) 0 (min (length (runes s)) MaxScreen)"
  shows "1 \<le> lo" "lo < length (runes s)" "fits_within 0 (take lo (runes s) @ dots)"
    "\<And>n. n \<le> length (runes s) \<Longrightarrow> Shrink_fits (runes s) n \<Longrightarrow> n \<le> lo"
proof -
  let ?hi = "min (length (runes s)) MaxScreen"
  have ne: "runes s \<noteq> []" using assms(1) by (auto simp: FitsScreen_runes measure_defs)
  have "1 \<le> ?hi" using ne by (simp add: MaxScreen_def MaxSeptets_def Suc_le_eq)
  then show "1 \<le> lo" unfolding lo by (rule shrink.found_largest) (simp add: Shrink_fits_few)
  show found: "fits_within 0 (take lo (runes s) @ dots)"
    using shrink.found_fits [of s ?hi] by (simp add: lo Shrink_fits_runes [symmetric] Shrink_fits_few)
  have "lo \<le> length (runes s)" using search_max_bounds [of 0 ?hi "Shrink_fits (runes s)"] by (simp add: lo)
  moreover have "lo \<noteq> length (runes s)"
  proof
    assume "lo = length (runes s)"
    with found have "fits_within 0 (runes s @ dots)" by simp
    then have "fits_within 0 (runes s)" by (rule screen.fits_prefix [rotated]) simp
    with assms(1) show False by (simp add: FitsScreen_runes)
  qed
  ultimately show "lo < length (runes s)" by simp
  fix n assume n: "n \<le> length (runes s)" "Shrink_fits (runes s) n"
  then have "n \<le> MaxScreen"
    using fits_within_length [of 0 "take n (runes s) @ dots"] by (simp add: Shrink_fits_runes MaxScreen_def)
  with n show "n \<le> lo" unfolding lo by (intro shrink.found_largest) auto
qed

lemma fits_dots: "fits_within 0 (replicate n 0x2E)" if "n \<le> 3"
proof -
  have three: "replicate 3 0x2E = dots" by (simp add: numeral_3_eq_3)
  have "prefix (replicate n 0x2E) dots"
    using that take_is_prefix [of n "replicate 3 0x2E"] by (simp add: three [symmetric] min_def)
  moreover have "fits_within 0 dots" by (simp add: measure_defs)
  ultimately show ?thesis by (rule screen.fits_prefix)
qed

lemma Shrink_eq:
  assumes "\<not> FitsScreen s"
  obtains lo where "1 \<le> lo" "lo < length (runes s)" "fits_within 0 (take lo (runes s) @ dots)"
    "\<And>n. n \<le> length (runes s) \<Longrightarrow> Shrink_fits (runes s) n \<Longrightarrow> n \<le> lo"
    "Shrink s = Truncate (string_of_runes (take (lo + 1) (runes s))) (int lo)"
proof -
  define lo where "lo = search_max (Shrink_fits (runes s)) 0 (min (length (runes s)) MaxScreen)"
  note found = Shrink_found [OF assms lo_def]
  from found(1) assms have "Shrink s = Truncate (string_of_runes (take (lo + 1) (runes s))) (int lo)"
    by (simp add: Shrink_def Let_def flip: lo_def)
  with found show thesis by (rule that)
qed

lemma runes_Shrink:
  assumes "\<not> FitsScreen s"
  obtains (dots) n where "1 \<le> n" "n \<le> 3" "runes (Shrink s) = replicate n 0x2E"
  | (cut) lo p where "3 < lo" "lo < length (runes s)" "fits_within 0 (take lo (runes s) @ dots)"
      "prefix p (take (lo - 3) (runes s))" "runes (Shrink s) = p @ dots"
proof -
  obtain lo where lo: "1 \<le> lo" "lo < length (runes s)" "fits_within 0 (take lo (runes s) @ dots)"
    and eq: "Shrink s = Truncate (string_of_runes (take (lo + 1) (runes s))) (int lo)"
    using Shrink_eq [OF assms] by metis
  have len: "length (runes (string_of_runes (take (lo + 1) (runes s)))) = lo + 1" using lo(2) by simp
  show thesis
  proof (cases "lo \<le> 3")
    case True
    then have "runes (Shrink s) = replicate lo 0x2E"
      unfolding eq by (subst Truncate_dots) (use lo len in auto)
    with lo True show thesis by (intro dots [of lo]) auto
  next
    case False
    then obtain p where p: "prefix p (take (lo - 3) (take (lo + 1) (runes s)))" "runes (Shrink s) = p @ dots"
      unfolding eq using Truncate_cut [of "int lo" "string_of_runes (take (lo + 1) (runes s))", unfolded len]
      by auto
    have "min (lo - 3) (lo + 1) = lo - 3" by simp
    with p(1) have "prefix p (take (lo - 3) (runes s))" by (simp only: take_take)
    with lo False p(2) show thesis by (intro cut [of lo p]) simp_all
  qed
qed

lemma FitsScreen_Shrink: "FitsScreen (Shrink s)"
proof (cases "FitsScreen s")
  case True
  then show ?thesis by (simp add: Shrink_def)
next
  case False
  then show ?thesis
  proof (cases rule: runes_Shrink)
    case (dots n)
    then show ?thesis by (simp add: FitsScreen_runes fits_dots)
  next
    case (cut lo p)
    have "prefix p (take lo (runes s))"
      using cut(4) by (metis diff_le_self min.absorb1 prefix_order.trans take_is_prefix take_take)
    then have "subseq (p @ dots) (take lo (runes s) @ dots)"
      by (simp add: list_emb_append_mono prefix_imp_subseq)
    from fits_within_subseq [OF this cut(3)] cut(5) show ?thesis by (simp add: FitsScreen_runes)
  qed
qed

text \<open>
  The search finds the longest part that fits before the marker, and that length is then taken for the
  whole, marker included: three runes fewer than would fit.
\<close>

lemma runes_letters: "runes (replicate n CHR ''a'') = replicate n 0x61"
  by (simp add: runes_ascii ascii_def)

lemma fits_letters: "fits_within 0 (replicate n 0x61 @ dots) \<longleftrightarrow> n \<le> 179"
  by (subst fits_basic) (auto simp: gsm7Basic_def MaxSeptets_def)

lemma Shrink_letters: "length (runes (Shrink (replicate 183 CHR ''a''))) = 179"
proof -
  let ?s = "replicate 183 CHR ''a''"
  have "\<not> FitsScreen ?s"
    unfolding FitsScreen_runes runes_letters by (subst fits_basic) (auto simp: gsm7Basic_def MaxSeptets_def)
  from Shrink_eq [OF this] obtain lo where lo: "lo < 183" "fits_within 0 (take lo (runes ?s) @ dots)"
    "\<And>n. n \<le> 183 \<Longrightarrow> Shrink_fits (runes ?s) n \<Longrightarrow> n \<le> lo"
    "Shrink ?s = Truncate (string_of_runes (take (lo + 1) (runes ?s))) (int lo)"
    by (metis length_replicate runes_letters)
  have "Shrink_fits (runes ?s) 179" unfolding Shrink_fits_runes by (simp add: runes_letters fits_letters)
  then have "179 \<le> lo" by (intro lo(3)) simp_all
  moreover have "lo \<le> 179" using lo(1,2) by (simp add: runes_letters fits_letters)
  ultimately have lo: "lo = 179" by simp
  define t where "t = string_of_runes (take (lo + 1) (runes ?s))"
  have "runes t = take 180 (runes ?s)" using lo unfolding t_def by (simp only: runes_string_of_take) simp
  then have t: "runes t = replicate 180 0x61" by (simp add: runes_letters)
  have "Shrink ?s = Truncate t 179" using \<open>Shrink ?s = _\<close> lo by (simp add: t_def)
  moreover have "runes (Truncate t 179) = take (nat 179 - 3) (runes t) @ dots"
    by (rule Truncate_unbroken) (simp_all add: t IsSpace_def)
  ultimately show ?thesis by (simp add: t)
qed

section \<open>Label\<close>

definition Label :: "string \<Rightarrow> int \<Rightarrow> string \<Rightarrow> string" where
  "Label s limit fallback =
     (let out = TrimSpace (OneLine (ToGSM s)) in
      if length (runes out) < 2 then Truncate fallback limit
      else Truncate out limit)"

lemma set_runes_Truncate: "set (runes (Truncate s limit)) \<subseteq> insert 0x2E (set (runes s))"
proof -
  consider "limit \<le> 0" | "0 < limit" "int (length (runes s)) \<le> limit"
    | "0 < limit" "limit < int (length (runes s))" "limit \<le> 3"
    | "3 < limit" "limit < int (length (runes s))" by linarith
  then show ?thesis
  proof cases
    case 4
    then obtain p where "prefix p (take (nat limit - 3) (runes s))" "runes (Truncate s limit) = p @ dots"
      using Truncate_cut by blast
    then show ?thesis by (auto dest: set_mono_prefix in_set_takeD)
  qed (auto simp: Truncate_def Truncate_short Truncate_dots)
qed

lemma set_drop_while_end: "set (drop_while_end P xs) \<subseteq> set xs"
  by (rule set_mono_prefix) simp

lemma set_runes_TrimSpace: "set (runes (TrimSpace s)) \<subseteq> set (runes s)"
  using set_drop_while_end [of IsSpace "dropWhile IsSpace (runes s)"]
  by (auto simp: runes_TrimSpace dest: set_dropWhileD)

lemma gsm_text_Truncate: "gsm_text (runes s) \<Longrightarrow> gsm_text (runes (Truncate s limit))"
  using set_runes_Truncate [of s limit] by (auto simp: gsm_text_def)

text \<open>The runes of a label: those of its text in the GSM alphabet on one line, or the fallback's.\<close>

lemma set_runes_Label:
  "set (runes (Label s limit fallback)) \<subseteq>
     insert 0x2E (set (runes fallback) \<union> set (runes (OneLine (ToGSM s))))"
  using set_runes_Truncate [of fallback limit] set_runes_TrimSpace [of "OneLine (ToGSM s)"]
    set_runes_Truncate [of "TrimSpace (OneLine (ToGSM s))" limit]
  by (auto simp: Label_def Let_def)

lemma Label_one_line: "0x0A \<notin> set (runes fallback) \<Longrightarrow> 0x0A \<notin> set (runes (Label s limit fallback))"
  using set_runes_Label [of s limit fallback] OneLine_no_break by auto

lemma gsm_text_Label: "gsm_text (runes fallback) \<Longrightarrow> gsm_text (runes (Label s limit fallback))"
  using set_runes_Label [of s limit fallback] gsm_text_OneLine [OF gsm_text_ToGSM, of s]
  by (auto simp: gsm_text_def)

lemma length_Label: "int (length (runes (Label s limit fallback))) \<le> max 0 limit"
  by (simp add: Label_def Let_def length_Truncate)

end
