(* ===== verification/Sdk_Menu.thy ===== *)
theory Sdk_Menu
  imports Sdk_Render
begin

text \<open>
  \<^verbatim>\<open>sdk/go/render.go\<close>, menus: \<open>MenuItem\<close>, \<open>longestLabelThatFits\<close>, \<open>Menu\<close> and \<open>MenuFit\<close>.  The
  string builders are the accumulated text; the \<^verbatim>\<open>break\<close> of each loop returns the text so far.
\<close>

section \<open>The code\<close>

definition minLabelRunes :: nat where
  "minLabelRunes = 4"

record MenuItem =
  mi_Key :: string
  mi_Label :: string

definition line :: "MenuItem \<Rightarrow> string" where
  "line m = [CHR 0x0A] @ OneLine (mi_Key m) @ ''. '' @ OneLine (mi_Label m)"

definition label_fits :: "string \<Rightarrow> string \<Rightarrow> string \<Rightarrow> nat \<Rightarrow> bool" where
  "label_fits rendered key label n =
     FitsScreen (rendered @ line \<lparr>mi_Key = key, mi_Label = Truncate label (int n)\<rparr>)"

definition longestLabelThatFits :: "string \<Rightarrow> string \<Rightarrow> string \<Rightarrow> string" where
  "longestLabelThatFits rendered key label =
     (let lo = search_max (label_fits rendered key label) 0 (length (runes label)) in
      if lo < minLabelRunes then [] else OneLine (Truncate label (int lo)))"

fun Menu_loop :: "string \<Rightarrow> MenuItem list \<Rightarrow> string" where
  "Menu_loop b [] = b"
| "Menu_loop b (item # items) =
     (if FitsScreen (b @ line item) then Menu_loop (b @ line item) items
      else let label = longestLabelThatFits b (mi_Key item) (mi_Label item) in
        if label = [] then b
        else Menu_loop (b @ line \<lparr>mi_Key = mi_Key item, mi_Label = label\<rparr>) items)"

definition Menu :: "string \<Rightarrow> MenuItem list \<Rightarrow> string" where
  "Menu title items = Menu_loop title items"

fun MenuFit_loop :: "string \<Rightarrow> string \<Rightarrow> nat \<Rightarrow> MenuItem list \<Rightarrow> string \<times> nat" where
  "MenuFit_loop footerText b shown [] = (b @ footerText, shown)"
| "MenuFit_loop footerText b shown (item # items) =
     (if \<not> FitsScreen (b @ line item @ footerText) then (b @ footerText, shown)
      else MenuFit_loop footerText (b @ line item) (shown + 1) items)"

definition MenuFit :: "string \<Rightarrow> MenuItem list \<Rightarrow> MenuItem list \<Rightarrow> string \<times> nat" where
  "MenuFit title items footer =
     (let footerText = concat (map line footer) in
      if \<not> FitsScreen (title @ footerText) then (Shrink (title @ footerText), 0)
      else MenuFit_loop footerText title 0 items)"

definition Fits :: "string \<Rightarrow> bool" where
  "Fits s = FitsScreen s"

section \<open>One row\<close>

lemma starts_rune_line [simp]: "starts_rune (line m @ t)"
  by (simp add: line_def is_cont_def)

lemma line_Cons: "\<exists>u. line m = CHR 0x0A # u"
  by (simp add: line_def)

lemma starts_rune_lines [simp]: "starts_rune (concat (map line ms))"
  by (cases ms) simp_all

lemma runes_line: "runes (line m) = 0x0A # runes (OneLine (mi_Key m)) @ [0x2E, 0x20] @ runes (OneLine (mi_Label m))"
proof -
  have "runes (OneLine (mi_Key m) @ ''. '' @ OneLine (mi_Label m)) =
      runes (OneLine (mi_Key m)) @ [0x2E, 0x20] @ runes (OneLine (mi_Label m))"
    by (subst runes_append) (simp_all add: starts_rune_append_ascii runes_ascii_Cons is_cont_def)
  then show ?thesis by (simp add: line_def runes_ascii_Cons)
qed

lemma runes_append_line: "runes (b @ line m @ t) = runes b @ runes (line m @ t)"
  by (rule runes_append) simp

text \<open>A row begins with the only line break it has: no label can add an option.\<close>

lemma line_one_break: "filter (\<lambda>r. r = 0x0A) (runes (line m)) = [0x0A]"
  using OneLine_no_break [of "mi_Key m"] OneLine_no_break [of "mi_Label m"]
  by (simp add: runes_line filter_empty_conv) metis

lemma runes_append_lines: "runes (b @ concat (map line ms)) = runes b @ concat (map (\<lambda>m. runes (line m)) ms)"
proof (induction ms arbitrary: b)
  case (Cons m ms)
  have "runes (b @ line m) = runes b @ runes (line m)" using runes_append_line [of b m "[]"] by simp
  with Cons.IH [of "b @ line m"] show ?case by simp
qed simp

section \<open>Menu\<close>

lemma longestLabelThatFits_fits:
  assumes "longestLabelThatFits b key label \<noteq> []"
  shows "FitsScreen (b @ line \<lparr>mi_Key = key, mi_Label = longestLabelThatFits b key label\<rparr>)"
proof -
  let ?lo = "search_max (label_fits b key label) 0 (length (runes label))"
  from assms have "0 < ?lo" by (auto simp: longestLabelThatFits_def Let_def minLabelRunes_def intro!: gr0I)
  then have "label_fits b key label ?lo"
    using search_max_sound [of "label_fits b key label" 0 "length (runes label)"] by simp
  then show ?thesis
    using assms by (auto simp: longestLabelThatFits_def label_fits_def line_def OneLine_idem Let_def split: if_splits)
qed

lemma FitsScreen_Menu_loop: "FitsScreen b \<Longrightarrow> FitsScreen (Menu_loop b items)"
  by (induction b items rule: Menu_loop.induct) (auto simp: Let_def longestLabelThatFits_fits)

lemma FitsScreen_append_lines:
  assumes "FitsScreen (b @ concat (map line (ms @ ns)))"
  shows "FitsScreen (b @ concat (map line ms))"
  using assms unfolding FitsScreen_runes runes_append_lines
  by (rule screen.fits_prefix [rotated]) simp

lemma Menu_loop_all:
  "FitsScreen (b @ concat (map line items)) \<Longrightarrow> Menu_loop b items = b @ concat (map line items)"
proof (induction items arbitrary: b)
  case (Cons item items)
  then have "FitsScreen (b @ line item)" using FitsScreen_append_lines [of b "[item]" items] by simp
  with Cons.IH [of "b @ line item"] Cons.prems show ?case by simp
qed simp

text \<open>The rows shown: an initial segment of the options, under their own keys.\<close>

lemma Menu_loop_rows:
  "\<exists>shown. Menu_loop b items = b @ concat (map line shown) \<and>
     prefix (map mi_Key shown) (map mi_Key items)"
proof (induction b items rule: Menu_loop.induct)
  case (1 b)
  have "b = b @ concat (map line [])" by simp
  then show ?case by fastforce
next
  case (2 b item items)
  let ?label = "longestLabelThatFits b (mi_Key item) (mi_Label item)"
  let ?item = "\<lparr>mi_Key = mi_Key item, mi_Label = ?label\<rparr>"
  have step: ?case if "mi_Key i = mi_Key item"
      "Menu_loop b (item # items) = Menu_loop (b @ line i) items"
      "Menu_loop (b @ line i) items = (b @ line i) @ concat (map line shown)"
      "prefix (map mi_Key shown) (map mi_Key items)" for i shown
    by (rule exI [of _ "i # shown"]) (use that in simp)
  consider "FitsScreen (b @ line item)" | "\<not> FitsScreen (b @ line item)" "?label = []"
    | "\<not> FitsScreen (b @ line item)" "?label \<noteq> []" by blast
  then show ?case
  proof cases
    case 1
    with 2(1) show ?thesis using step [of item] by auto
  next
    case 2
    then have "Menu_loop b (item # items) = b @ concat (map line [])" by simp
    then show ?thesis by (intro exI [of _ "[]"]) simp
  next
    case 3
    with 2(2) show ?thesis using step [of ?item] by (auto simp: Let_def)
  qed
qed

section \<open>MenuFit\<close>

lemma MenuFit_loop_result:
  "MenuFit_loop footer b shown items =
     (b @ concat (map line (take (snd (MenuFit_loop footer b shown items) - shown) items)) @ footer,
      snd (MenuFit_loop footer b shown items))
   \<and> shown \<le> snd (MenuFit_loop footer b shown items)
   \<and> snd (MenuFit_loop footer b shown items) \<le> shown + length items"
proof (induction items arbitrary: b shown)
  case (Cons item items)
  show ?case
  proof (cases "FitsScreen (b @ line item @ footer)")
    case True
    let ?n = "snd (MenuFit_loop footer (b @ line item) (shown + 1) items)"
    have le: "shown + 1 \<le> ?n" using Cons.IH [of "b @ line item" "shown + 1"] by simp
    then have "?n - shown = Suc (?n - (shown + 1))" by simp
    with True Cons.IH [of "b @ line item" "shown + 1"] show ?thesis by simp
  qed simp
qed simp

lemma FitsScreen_MenuFit_loop:
  "FitsScreen (b @ footer) \<Longrightarrow> FitsScreen (fst (MenuFit_loop footer b shown items))"
  by (induction footer b shown items rule: MenuFit_loop.induct) auto

text \<open>What follows a row may be dropped, and so may the row itself.\<close>

lemma FitsScreen_drop_rows:
  assumes "FitsScreen (b @ concat (map line (ms @ ns)) @ concat (map line footer))"
  shows "FitsScreen (b @ concat (map line ms) @ concat (map line footer))"
proof -
  have "subseq (runes (b @ concat (map line (ms @ footer)))) (runes (b @ concat (map line (ms @ ns @ footer))))"
    unfolding runes_append_lines
    by (simp only: map_append concat_append)
      (intro list_emb_append_mono subseq_order.refl list_emb_append2)
  from screen.fits_subseq [OF this, of 0] assms show ?thesis by (simp add: FitsScreen_runes)
qed

lemma MenuFit_loop_most:
  "FitsScreen (b @ concat (map line (take m items)) @ concat (map line footer)) \<Longrightarrow> m \<le> length items \<Longrightarrow>
   shown + m \<le> snd (MenuFit_loop (concat (map line footer)) b shown items)"
proof (induction items arbitrary: b shown m)
  case (Cons item items)
  show ?case
  proof (cases m)
    case 0
    then show ?thesis using MenuFit_loop_result [of "concat (map line footer)" b shown "item # items"] by simp
  next
    case (Suc k)
    with Cons.prems(1) have "FitsScreen (b @ line item @ concat (map line footer))"
      using FitsScreen_drop_rows [of b "[item]" "take k items" footer] by simp
    with Cons.IH [of "b @ line item" k "shown + 1"] Cons.prems Suc show ?thesis by simp
  qed
qed simp

end
