(* ===== verification/Sdk_Paginate.thy ===== *)
theory Sdk_Paginate
  imports Sdk_Render
begin

text \<open>
  \<^verbatim>\<open>sdk/go/render.go\<close>, pagination: \<open>fitRunes\<close>, \<open>breakPoint\<close> and \<open>Paginate\<close>.  The loop of
  \<open>Paginate\<close> walks an index over the runes of the body; it ends because every page moves the index
  by at least one rune.
\<close>

section \<open>The code\<close>

definition fits_beside :: "rune list \<Rightarrow> int \<Rightarrow> nat \<Rightarrow> bool" where
  "fits_beside rs reserve n =
     (let p = string_of_runes (take n rs) in int (fst (ScreenCost p)) + reserve \<le> int (Budget p))"

definition fitRunes :: "rune list \<Rightarrow> int \<Rightarrow> nat" where
  "fitRunes rs reserve = search_max (fits_beside rs reserve) 0 (min (length rs) MaxScreen)"

fun breakPoint_seps :: "string \<Rightarrow> nat \<Rightarrow> string list \<Rightarrow> nat option" where
  "breakPoint_seps window floor [] = None"
| "breakPoint_seps window floor (sep # seps) =
     (case LastIndex window sep of
        None \<Rightarrow> breakPoint_seps window floor seps
      | Some idx \<Rightarrow>
          if idx > 0 \<and> length (runes (take idx window)) \<ge> floor
          then Some (length (runes (take idx window)))
          else breakPoint_seps window floor seps)"

definition breakPoint :: "string \<Rightarrow> nat" where
  "breakPoint window =
     (let rs = runes window in
      case breakPoint_seps window (length rs div 3) [[CHR 0x0A, CHR 0x0A], [CHR 0x0A], '' ''] of
        Some at \<Rightarrow> at
      | None \<Rightarrow> length rs)"

text \<open>
  One round of the loop, once the index stands on a rune that is not a space: the text of the
  next page and how far the index moves.
\<close>

definition Paginate_cut :: "rune list \<Rightarrow> nat \<Rightarrow> string \<times> nat" where
  "Paginate_cut window fit =
     (let kept = breakPoint (string_of_runes (take fit window));
          page = TrimRightFunc (string_of_runes (take kept window)) IsSpace
      in if page = [] then (string_of_runes (take fit window), fit) else (page, kept))"

definition skip_spaces :: "rune list \<Rightarrow> nat \<Rightarrow> nat" where
  "skip_spaces rs at = at + length (takeWhile IsSpace (drop at rs))"

lemma Paginate_cut_progress: "0 < fit \<Longrightarrow> 0 < snd (Paginate_cut window fit)"
  by (auto simp: Paginate_cut_def Let_def TrimRightFunc_def intro!: gr0I)

function Paginate_loop :: "rune list \<Rightarrow> int \<Rightarrow> nat \<Rightarrow> string list" where
  "Paginate_loop rs reserve at =
     (if at < length rs then
        let at' = skip_spaces rs at in
        if at' \<ge> length rs then []
        else
          let window = take (min (at' + MaxScreen) (length rs) - at') (drop at' rs);
              fit = fitRunes window reserve in
          if fit = 0 then []
          else if fit \<ge> length window \<and> at' + length window \<ge> length rs then [string_of_runes window]
          else fst (Paginate_cut window fit)
                 # Paginate_loop rs reserve (at' + snd (Paginate_cut window fit))
      else [])"
  by pat_completeness auto
termination
proof (relation "measure (\<lambda>(rs, reserve, at). length rs - at)")
  fix rs reserve at and at' :: nat and window fit
  assume "at < length rs" "at' = skip_spaces rs at" "fit = fitRunes window reserve" "fit \<noteq> 0"
  then have "at < at' + snd (Paginate_cut window fit)"
    using Paginate_cut_progress [of fit window] by (auto simp: skip_spaces_def)
  with \<open>at < length rs\<close>
  show "((rs, reserve, at' + snd (Paginate_cut window fit)), rs, reserve, at)
      \<in> measure (\<lambda>(rs, reserve, at). length rs - at)" by simp
qed simp

declare Paginate_loop.simps [simp del]

definition Paginate :: "string \<Rightarrow> int \<Rightarrow> string list" where
  "Paginate body reserve =
     (if reserve \<ge> int MaxUCS2Units \<and> EncodingOf body = EncodingUCS2 then []
      else if reserve \<ge> int MaxScreen then []
      else Paginate_loop (runes (TrimSpace body)) reserve 0)"

section \<open>Every page fits\<close>

abbreviation all_valid :: "rune list \<Rightarrow> bool" where
  "all_valid rs \<equiv> \<forall>r \<in> set rs. valid_rune r"

lemma runes_take_valid: "all_valid rs \<Longrightarrow> runes (string_of_runes (take n rs)) = take n rs"
  by (rule runes_string_of_runes) (auto dest: in_set_takeD)

lemma fits_beside_runes:
  assumes "all_valid rs" "0 \<le> reserve"
  shows "fits_beside rs reserve n \<longleftrightarrow> fits_within (nat reserve) (take n rs)"
  using assms by (auto simp: fits_beside_def Let_def ScreenCost_runes Budget_runes runes_take_valid fits_within_def)

lemma fitRunes_fits:
  assumes "all_valid rs" "0 \<le> reserve" "fitRunes rs reserve \<noteq> 0"
  shows "fits_within (nat reserve) (take (fitRunes rs reserve) rs)"
  using search_max_sound [of "fits_beside rs reserve" 0 "min (length rs) MaxScreen"] assms
  by (simp add: fitRunes_def fits_beside_runes)

lemma fitRunes_le: "fitRunes rs reserve \<le> length rs"
  using search_max_bounds [of 0 "min (length rs) MaxScreen" "fits_beside rs reserve"]
  by (simp add: fitRunes_def)

lemma fitRunes_largest:
  assumes "all_valid rs" "0 \<le> reserve" "n \<le> length rs" "fits_within (nat reserve) (take n rs)"
  shows "n \<le> fitRunes rs reserve"
proof -
  have "n \<le> MaxScreen"
    using fits_within_length [OF assms(4)] assms(3) by (simp add: MaxScreen_def)
  moreover have "fits_beside rs reserve m" if "m \<le> k" "fits_beside rs reserve k" for m k
    using that assms(1,2) screen.fits_take_append [of m k "nat reserve" rs "[]"]
    by (simp add: fits_beside_runes)
  ultimately show ?thesis
    unfolding fitRunes_def using assms by (intro search_max_largest) (auto simp: fits_beside_runes)
qed

lemma fitRunes_positive:
  assumes "all_valid rs" "0 \<le> reserve" "reserve \<le> 68" "rs \<noteq> []"
  shows "0 < fitRunes rs reserve"
proof -
  have "fits_within (nat reserve) (take 1 rs)"
    using assms(2-4) by (cases rs) (auto simp: measure_defs)
  from fitRunes_largest [OF assms(1,2) _ this] assms(4) show ?thesis
    by (simp add: Suc_le_eq)
qed

lemma breakPoint_seps_bounds:
  assumes "\<forall>sep \<in> set seps. ascii sep \<and> sep \<noteq> []" "breakPoint_seps window floor seps = Some at"
  shows "0 < at \<and> at \<le> length (runes window)"
  using assms
proof (induction seps)
  case (Cons sep seps)
  show ?case
  proof (cases "breakPoint_seps window floor seps = Some at")
    case True
    with Cons show ?thesis by auto
  next
    case False
    with Cons.prems(2) obtain idx where idx: "LastIndex window sep = Some idx" "0 < idx"
      "at = length (runes (take idx window))"
      by (auto split: option.splits if_splits)
    then obtain u where u: "drop idx window = sep @ u" and le: "idx \<le> length window"
      using LastIndex_Some [OF idx(1)] by (auto elim: prefixE)
    then have "starts_rune (drop idx window)"
      using Cons.prems(1) by (simp add: starts_rune_append_ascii)
    then have "runes window = runes (take idx window) @ runes (drop idx window)"
      using runes_append [of "drop idx window" "take idx window"] by simp
    moreover have "runes (take idx window) \<noteq> []"
      using idx(2) le by auto
    ultimately show ?thesis using idx(3) by simp
  qed
qed simp

lemma breakPoint_bounds:
  assumes "runes window \<noteq> []"
  shows "0 < breakPoint window" "breakPoint window \<le> length (runes window)"
proof -
  let ?seps = "[[CHR 0x0A, CHR 0x0A], [CHR 0x0A], '' '']"
  let ?b = "breakPoint_seps window (length (runes window) div 3) ?seps"
  have "\<forall>sep \<in> set ?seps. ascii sep \<and> sep \<noteq> []" by simp
  then have "0 < breakPoint window \<and> breakPoint window \<le> length (runes window)"
    using breakPoint_seps_bounds [of ?seps window] assms
    by (cases ?b) (simp_all only: breakPoint_def Let_def option.case, simp)
  then show "0 < breakPoint window" "breakPoint window \<le> length (runes window)" by simp_all
qed

text \<open>
  A page is the longest break of a window that fits, without its trailing spaces.  The branch that
  splits hard is never taken: the window starts with a rune that is not a space.
\<close>

lemma Paginate_cut_page:
  assumes "all_valid window" "window \<noteq> []" "\<not> IsSpace (hd window)" "0 < fit" "fit \<le> length window"
  obtains k where "0 < k" "k \<le> fit" "snd (Paginate_cut window fit) = k"
    "runes (fst (Paginate_cut window fit)) = drop_while_end IsSpace (take k window)"
    "fst (Paginate_cut window fit) \<noteq> []"
proof -
  let ?k = "breakPoint (string_of_runes (take fit window))"
  have "take fit window \<noteq> []" using assms(2,4) by simp
  then have k: "0 < ?k" "?k \<le> fit"
    using breakPoint_bounds [of "string_of_runes (take fit window)"] assms(1,5)
    by (simp_all add: runes_take_valid)
  have r: "runes (TrimRightFunc (string_of_runes (take ?k window)) IsSpace) =
      drop_while_end IsSpace (take ?k window)"
    using assms(1) by (simp add: runes_TrimRightFunc runes_take_valid)
  have "hd window \<in> set (take ?k window)" using k(1) assms(2) by (cases window; cases ?k) auto
  with assms(3) have "drop_while_end IsSpace (take ?k window) \<noteq> []"
    by (auto simp: drop_while_end_eq_Nil)
  with r have "TrimRightFunc (string_of_runes (take ?k window)) IsSpace \<noteq> []" by auto
  with k r show thesis by (intro that [of ?k]) (simp_all add: Paginate_cut_def Let_def)
qed

abbreviation visible :: "rune list \<Rightarrow> rune list" where
  "visible rs \<equiv> filter (\<lambda>r. \<not> IsSpace r) rs"

lemma drop_skip_spaces: "drop (skip_spaces rs at) rs = dropWhile IsSpace (drop at rs)"
  by (simp add: skip_spaces_def dropWhile_eq_drop add.commute)

text \<open>The four things one round of the loop can do.\<close>

lemma Paginate_loop_cases:
  assumes valid: "all_valid rs" and reserve: "0 \<le> reserve"
  obtains (finished) "Paginate_loop rs reserve at = []" "visible (drop at rs) = []"
  | (stuck) "Paginate_loop rs reserve at = []" "68 < reserve"
  | (last) p where "Paginate_loop rs reserve at = [p]" "visible (runes p) = visible (drop at rs)"
      "fits_within (nat reserve) (runes p)" "runes p \<noteq> []" "\<not> IsSpace (hd (runes p))"
  | (page) p next_at where "Paginate_loop rs reserve at = p # Paginate_loop rs reserve next_at"
      "at < next_at" "next_at \<le> length rs"
      "visible (drop at rs) = visible (runes p) @ visible (drop next_at rs)"
      "fits_within (nat reserve) (runes p)" "runes p \<noteq> []" "\<not> IsSpace (hd (runes p))"
proof -
  define start where "start = skip_spaces rs at"
  define n where "n = min (start + MaxScreen) (length rs) - start"
  define window where "window = take n (drop start rs)"
  define fit where "fit = fitRunes window reserve"
  have vis: "visible (drop at rs) = visible (drop start rs)"
    by (simp add: start_def drop_skip_spaces filter_dropWhile)
  show thesis
  proof (cases "at < length rs \<and> start < length rs")
    case False
    then have "Paginate_loop rs reserve at = []"
      by (auto simp: start_def Paginate_loop.simps [of rs reserve at])
    moreover have "visible (drop at rs) = []" using False vis by auto
    ultimately show thesis by (rule finished)
  next
    case True
    then have at: "at < length rs" "start < length rs" by simp_all
    have at_le: "at \<le> start" by (simp add: start_def skip_spaces_def)
    have wvalid: "all_valid window" using valid by (auto simp: window_def dest: in_set_takeD in_set_dropD)
    have n: "0 < n" "start + n \<le> length rs" using at(2) by (auto simp: n_def MaxScreen_def MaxSeptets_def)
    have wlen: "length window = n" using n by (simp add: window_def)
    have ne: "window \<noteq> []" using n wlen by auto
    have hd: "\<not> IsSpace (hd window)"
      using at(2) n(1) hd_dropWhile [of IsSpace "drop at rs"]
      by (simp add: window_def start_def drop_skip_spaces [symmetric] hd_take)
    have unfold: "Paginate_loop rs reserve at =
        (if fit = 0 then []
         else if n \<le> fit \<and> length rs \<le> start + n then [string_of_runes window]
         else fst (Paginate_cut window fit)
                # Paginate_loop rs reserve (start + snd (Paginate_cut window fit)))"
      using at(1) not_le [THEN iffD2, OF at(2)]
      by (subst Paginate_loop.simps) (simp only: Let_def start_def [symmetric] n_def [symmetric]
          window_def [symmetric] fit_def [symmetric] wlen if_True if_False)
    consider "fit = 0" | "fit \<noteq> 0" "n \<le> fit \<and> length rs \<le> start + n"
      | "fit \<noteq> 0" "\<not> (n \<le> fit \<and> length rs \<le> start + n)" by blast
    then show thesis
    proof cases
      case 1
      then have "68 < reserve" using fitRunes_positive [OF wvalid reserve _ ne] by (cases "reserve \<le> 68") (simp_all add: fit_def)
      with 1 unfold show thesis by (intro stuck) simp_all
    next
      case 2
      then have all: "fit = n" "window = drop start rs"
        using fitRunes_le [of window reserve] wlen by (auto simp: fit_def window_def)
      have "fits_within (nat reserve) window"
        using fitRunes_fits [OF wvalid reserve] 2(1) all(1) wlen by (simp add: fit_def)
      moreover have "runes (string_of_runes window) = window"
        using runes_take_valid [OF wvalid, of n] wlen by simp
      ultimately show thesis
        using unfold 2 all(2) vis ne hd by (intro last [of "string_of_runes window"]) simp_all
    next
      case 3
      have fit: "0 < fit" "fit \<le> n" using 3(1) fitRunes_le [of window reserve] wlen by (simp_all add: fit_def)
      obtain k where k: "0 < k" "k \<le> fit" "snd (Paginate_cut window fit) = k"
        "runes (fst (Paginate_cut window fit)) = drop_while_end IsSpace (take k window)"
        "fst (Paginate_cut window fit) \<noteq> []"
        using Paginate_cut_page [OF wvalid ne hd fit(1)] fit(2) wlen by metis
      let ?p = "fst (Paginate_cut window fit)"
      have tk: "take k window = take k (drop start rs)" using k(2) fit(2) by (simp add: window_def min_def)
      have "visible (drop start rs) = visible (take k (drop start rs)) @ visible (drop (start + k) rs)"
        by (metis add.commute append_take_drop_id drop_drop filter_append)
      then have split: "visible (drop at rs) = visible (runes ?p) @ visible (drop (start + k) rs)"
        using k(4) tk vis by (simp add: filter_drop_while_end)
      have pre: "prefix (runes ?p) (take k window)"
        using k(4) by (simp add: drop_while_end_prefix)
      then have pre': "prefix (runes ?p) (take fit window)"
        using k(2) by (metis min.absorb1 prefix_order.trans take_is_prefix take_take)
      have fits: "fits_within (nat reserve) (runes ?p)"
        using fitRunes_fits [OF wvalid reserve] 3(1) pre' screen.fits_prefix by (metis fit_def)
      have "hd (runes ?p) = hd window"
        using pre k(1,5) by (metis hd_append2 hd_take prefixE runes_eq_Nil)
      with hd have hd': "\<not> IsSpace (hd (runes ?p))" by simp
      have "Paginate_loop rs reserve at = ?p # Paginate_loop rs reserve (start + k)"
        using unfold 3 k(3) by simp
      then show thesis
        by (rule page) (use k fit n at_le split fits hd' in auto)
    qed
  qed
qed

text \<open>Every page fits beside the reserve, shows something, and does not start with a space.\<close>

lemma Paginate_loop_pages:
  assumes "all_valid rs" "0 \<le> reserve" "p \<in> set (Paginate_loop rs reserve at)"
  shows "fits_within (nat reserve) (runes p) \<and> runes p \<noteq> [] \<and> \<not> IsSpace (hd (runes p))"
  using assms(3)
proof (induction "length rs - at" arbitrary: at rule: less_induct)
  case less
  show ?case
  using assms(1,2)
  proof (cases rule: Paginate_loop_cases [where at = at])
    case (page q next_at)
    then have "length rs - next_at < length rs - at" by simp
    from less.hyps [OF this] less.prems page show ?thesis by (cases "p = q") simp_all
  qed (use less.prems in auto)
qed

text \<open>The pages together show exactly the visible runes of the body, in order.\<close>

lemma Paginate_loop_content:
  assumes "all_valid rs" "0 \<le> reserve" "reserve \<le> 68"
  shows "concat (map (\<lambda>p. visible (runes p)) (Paginate_loop rs reserve at)) = visible (drop at rs)"
proof (induction "length rs - at" arbitrary: at rule: less_induct)
  case less
  show ?case
  using assms(1,2)
  proof (cases rule: Paginate_loop_cases [where at = at])
    case (page q next_at)
    then have "length rs - next_at < length rs - at" by simp
    from less [OF this] page show ?thesis by simp
  qed (use assms(3) in auto)
qed

lemma runes_TrimSpace_visible: "visible (runes (TrimSpace s)) = visible (runes s)"
  by (simp add: runes_TrimSpace filter_drop_while_end filter_dropWhile)

lemma valid_runes: "all_valid (runes s)"
  by (auto intro: runes_valid)

lemmas Paginate_pages = Paginate_loop_pages [OF valid_runes]

lemmas Paginate_content = Paginate_loop_content [OF valid_runes]

end
