(* ===== verification/Go_Netip.thy ===== *)
theory Go_Netip
  imports Go_Strconv "HOL-Library.Word"
begin

text \<open>
  What the program uses of \<^verbatim>\<open>net/netip\<close> and \<^verbatim>\<open>net.SplitHostPort\<close>: addresses and prefixes as words
  of 32 and 128 bits, how they are parsed, and when a prefix contains an address.
\<close>

unbundle bit_operations_syntax

section \<open>Addresses\<close>

datatype Addr = V4 "32 word" | V6 "128 word" string

definition Is4In6 :: "Addr \<Rightarrow> bool" where
  "Is4In6 a = (case a of V4 _ \<Rightarrow> False | V6 w _ \<Rightarrow> drop_bit 32 w = 0xFFFF)"

definition Unmap :: "Addr \<Rightarrow> Addr" where
  "Unmap a = (case a of V4 _ \<Rightarrow> a | V6 w _ \<Rightarrow> if Is4In6 a then V4 (ucast w) else a)"

definition BitLen :: "Addr \<Rightarrow> nat" where
  "BitLen a = (case a of V4 _ \<Rightarrow> 32 | V6 _ _ \<Rightarrow> 128)"

definition without_zone :: "Addr \<Rightarrow> Addr" where
  "without_zone a = (case a of V4 _ \<Rightarrow> a | V6 w _ \<Rightarrow> V6 w [])"

section \<open>Parsing addresses\<close>

definition of_bytes :: "int list \<Rightarrow> int" where
  "of_bytes bs = foldl (\<lambda>n b. 256 * n + b) 0 bs"

definition parse_octet :: "string \<Rightarrow> int option" where
  "parse_octet s =
     (if s \<noteq> [] \<and> (hd s = CHR ''0'' \<longrightarrow> length s = 1) \<and> list_all is_digit s then
        case ParseUint s of Some n \<Rightarrow> if n \<le> 255 then Some (int n) else None | None \<Rightarrow> None
      else None)"

fun parse_octets :: "string list \<Rightarrow> int list option" where
  "parse_octets [] = Some []"
| "parse_octets (s # ss) =
     (case parse_octet s of
        None \<Rightarrow> None
      | Some n \<Rightarrow> (case parse_octets ss of None \<Rightarrow> None | Some ns \<Rightarrow> Some (n # ns)))"

definition parse_fields4 :: "string \<Rightarrow> int list option" where
  "parse_fields4 s = (let parts = split_on CHR ''.'' s in if length parts = 4 then parse_octets parts else None)"

definition hex_number :: "string \<Rightarrow> int" where
  "hex_number s = foldl (\<lambda>n c. 16 * n + (case hex_value c of Some d \<Rightarrow> d | None \<Rightarrow> 0)) 0 s"

text \<open>
  The groups of an IPv6 address: the bytes read so far, the position of the ellipsis, and the text
  that is left.  The fuel bounds the groups; each takes two of the sixteen bytes.
\<close>

fun parse_groups :: "nat \<Rightarrow> int list \<Rightarrow> nat option \<Rightarrow> string \<Rightarrow> (int list \<times> nat option \<times> string) option" where
  "parse_groups 0 ip ellipsis s = Some (ip, ellipsis, s)"
| "parse_groups (Suc fuel) ip ellipsis s =
     (if \<not> length ip < 16 then Some (ip, ellipsis, s)
      else let digits = takeWhile (\<lambda>c. hex_value c \<noteq> None) s; rest = drop (length digits) s in
      if length digits = 0 \<or> length digits > 4 then None
      else if rest \<noteq> [] \<and> hd rest = CHR ''.'' then
        if ellipsis = None \<and> length ip \<noteq> 12 then None
        else if length ip + 4 > 16 then None
        else (case parse_fields4 s of None \<Rightarrow> None | Some fields \<Rightarrow> Some (ip @ fields, ellipsis, []))
      else let n = hex_number digits; ip = ip @ [n div 256, n mod 256] in
        case rest of
          [] \<Rightarrow> Some (ip, ellipsis, [])
        | c # s \<Rightarrow>
            if c \<noteq> CHR '':'' \<or> s = [] then None
            else if hd s = CHR '':'' then
              if ellipsis \<noteq> None then None
              else if tl s = [] then Some (ip, Some (length ip), [])
              else parse_groups fuel ip (Some (length ip)) (tl s)
            else parse_groups fuel ip ellipsis s)"

definition expand_groups :: "(int list \<times> nat option \<times> string) option \<Rightarrow> int list option" where
  "expand_groups parsed =
     (case parsed of
        None \<Rightarrow> None
      | Some (ip, ellipsis, s) \<Rightarrow>
          if s \<noteq> [] then None
          else if length ip < 16 then
            (case ellipsis of
               None \<Rightarrow> None
             | Some e \<Rightarrow> Some (take e ip @ replicate (16 - length ip) 0 @ drop e ip))
          else if ellipsis \<noteq> None then None else Some ip)"

definition parse_IPv6 :: "string \<Rightarrow> Addr option" where
  "parse_IPv6 s0 =
     (let s = takeWhile (\<lambda>c. c \<noteq> CHR ''%'') s0; zoned = CHR ''%'' \<in> set s0; zone = drop (length s + 1) s0 in
      if zoned \<and> zone = [] then None
      else if take 2 s = ''::'' \<and> length s = 2 then Some (V6 0 zone)
      else
        let parsed = (if take 2 s = ''::'' then parse_groups 8 [] (Some 0) (drop 2 s) else parse_groups 8 [] None s)
        in case expand_groups parsed of None \<Rightarrow> None | Some ip \<Rightarrow> Some (V6 (of_int (of_bytes ip)) zone))"

definition parse_IPv4 :: "string \<Rightarrow> Addr option" where
  "parse_IPv4 s = (case parse_fields4 s of None \<Rightarrow> None | Some fields \<Rightarrow> Some (V4 (of_int (of_bytes fields))))"

definition ParseAddr :: "string \<Rightarrow> Addr option" where
  "ParseAddr s =
     (case dropWhile (\<lambda>c. c \<notin> set ''.:%'') s of
        [] \<Rightarrow> None
      | c # _ \<Rightarrow> if c = CHR ''.'' then parse_IPv4 s else if c = CHR '':'' then parse_IPv6 s else None)"

text \<open>\<^verbatim>\<open>net.SplitHostPort\<close>, of which only the host is used.\<close>

definition last_colon :: "string \<Rightarrow> nat" where
  "last_colon s = length (drop_while_end (\<lambda>c. c \<noteq> CHR '':'') s) - 1"

definition SplitHost :: "string \<Rightarrow> string option" where
  "SplitHost s =
     (if CHR '':'' \<notin> set s then None
      else let i = last_colon s in
      if hd s = CHR ''['' then
        let inner = takeWhile (\<lambda>c. c \<noteq> CHR '']'') s in
        if CHR '']'' \<notin> set s \<or> length inner + 1 \<noteq> i then None
        else if CHR ''['' \<in> set (drop 1 s) \<or> CHR '']'' \<in> set (drop (length inner + 1) s) then None
        else Some (drop 1 inner)
      else
        let host = take i s in
        if CHR '':'' \<in> set host \<or> CHR ''['' \<in> set s \<or> CHR '']'' \<in> set s then None
        else Some host)"

section \<open>Prefixes\<close>

record Prefix =
  pf_Addr :: Addr
  pf_Bits :: nat

definition PrefixFrom :: "Addr \<Rightarrow> nat \<Rightarrow> Prefix" where
  "PrefixFrom a n = \<lparr>pf_Addr = without_zone a, pf_Bits = n\<rparr>"

definition ParsePrefix :: "string \<Rightarrow> Prefix option" where
  "ParsePrefix s =
     (let i = length (drop_while_end (\<lambda>c. c \<noteq> CHR ''/'') s) - 1; bits = drop (i + 1) s in
      if CHR ''/'' \<notin> set s then None
      else case ParseAddr (take i s) of
        None \<Rightarrow> None
      | Some ip \<Rightarrow>
          if without_zone ip \<noteq> ip then None
          else if length bits > 1 \<and> \<not> (is_digit (hd bits) \<and> hd bits \<noteq> CHR ''0'') then None
          else (case Atoi bits of
             None \<Rightarrow> None
           | Some n \<Rightarrow> if n < 0 \<or> n > int (BitLen ip) then None else Some (PrefixFrom ip (nat n))))"

definition mask6 :: "nat \<Rightarrow> 128 word" where
  "mask6 n = push_bit (128 - n) (- 1)"

definition Masked :: "Prefix \<Rightarrow> Prefix" where
  "Masked p =
     (case pf_Addr p of
        V4 w \<Rightarrow> p\<lparr>pf_Addr := V4 (w AND push_bit (32 - pf_Bits p) (- 1))\<rparr>
      | V6 w _ \<Rightarrow> p\<lparr>pf_Addr := V6 (w AND mask6 (pf_Bits p)) []\<rparr>)"

definition Contains :: "Prefix \<Rightarrow> Addr \<Rightarrow> bool" where
  "Contains p a =
     (case (pf_Addr p, a) of
        (V4 w, V4 v) \<Rightarrow> drop_bit (32 - pf_Bits p) (v XOR w) = 0
      | (V6 w _, V6 v zone) \<Rightarrow> zone = [] \<and> (v XOR w) AND mask6 (pf_Bits p) = 0
      | _ \<Rightarrow> False)"

section \<open>Prefixes by their leading bits\<close>

lemma word_zero_iff: "w = 0 \<longleftrightarrow> (\<forall>i. \<not> bit w i)" for w :: "'a::len word"
  by (metis bit_0_eq bit_word_eqI bot_apply bot_bool_def)

lemma Contains_V4: "Contains \<lparr>pf_Addr = V4 w, pf_Bits = n\<rparr> (V4 v) \<longleftrightarrow> (\<forall>i. 32 - n \<le> i \<longrightarrow> bit v i = bit w i)"
proof -
  have "bit (drop_bit (32 - n) (v XOR w)) i \<longleftrightarrow> bit v (32 - n + i) \<noteq> bit w (32 - n + i)" for i
    by (simp only: bit_drop_bit_eq bit_xor_iff comp_apply)
  then have "drop_bit (32 - n) (v XOR w) = 0 \<longleftrightarrow> (\<forall>i. bit v (32 - n + i) = bit w (32 - n + i))"
    by (simp only: word_zero_iff) simp
  also have "\<dots> \<longleftrightarrow> (\<forall>i. 32 - n \<le> i \<longrightarrow> bit v i = bit w i)"
    by (metis le_add1 le_add_diff_inverse)
  finally show ?thesis by (simp add: Contains_def)
qed

lemma bit_mask6: "bit (mask6 n) i \<longleftrightarrow> 128 - n \<le> i \<and> i < 128"
  unfolding mask6_def bit_push_bit_iff by (auto simp: bit_minus_1_iff)

lemma Contains_V6:
  "Contains \<lparr>pf_Addr = V6 w z, pf_Bits = n\<rparr> (V6 v []) \<longleftrightarrow> (\<forall>i. 128 - n \<le> i \<longrightarrow> bit v i = bit w i)"
proof -
  have len: "bit u i \<Longrightarrow> i < 128" for u :: "128 word" and i
    by (drule bit_imp_le_length) simp
  have "(v XOR w) AND mask6 n = 0 \<longleftrightarrow> (\<forall>i. \<not> ((bit v i \<noteq> bit w i) \<and> 128 - n \<le> i \<and> i < 128))"
    by (simp only: word_zero_iff bit_and_iff bit_xor_iff bit_mask6)
  also have "\<dots> \<longleftrightarrow> (\<forall>i. 128 - n \<le> i \<longrightarrow> bit v i = bit w i)"
    using len by blast
  finally show ?thesis by (simp add: Contains_def)
qed

text \<open>The IPv6 form of an IPv4 address.\<close>

definition mapped :: "32 word \<Rightarrow> Addr" where
  "mapped v = V6 (push_bit 32 0xFFFF OR ucast v) []"

lemma bit_high: "drop_bit 32 (w :: 128 word) = 0xFFFF \<Longrightarrow> bit w (32 + i) \<longleftrightarrow> bit (0xFFFF :: 128 word) i"
  by (metis bit_drop_bit_eq comp_apply)

lemma bit_mapped: "bit (push_bit 32 0xFFFF OR ucast (v :: 32 word) :: 128 word) i \<longleftrightarrow>
    (if i < 32 then bit v i else bit (0xFFFF :: 128 word) (i - 32) \<and> i < 128)"
proof -
  have "bit v i \<Longrightarrow> i < 32" by (drule bit_imp_le_length) simp
  then show ?thesis
    unfolding bit_or_iff bit_push_bit_iff bit_ucast_iff by (auto simp: not_less)
qed

end
