(* ===== verification/Trusted_Proxy.thy ===== *)
theory Trusted_Proxy
  imports Telco_Adapter Go_Netip
begin

text \<open>
  \<^verbatim>\<open>gateway/internal/adapter/trustedproxy.go\<close>: the source-address allowlist around an adapter whose
  network authenticates nothing.
\<close>

section \<open>Configuration\<close>

datatype prefix_error = BadCIDR string | BadAddress string

definition unmapPrefix :: "Prefix \<Rightarrow> Prefix" where
  "unmapPrefix p =
     (if \<not> Is4In6 (pf_Addr p) \<or> pf_Bits p < 96 then p
      else PrefixFrom (Unmap (pf_Addr p)) (pf_Bits p - 96))"

fun ParsePrefixes_loop :: "Prefix list \<Rightarrow> string list \<Rightarrow> prefix_error + Prefix list" where
  "ParsePrefixes_loop out [] = Inr out"
| "ParsePrefixes_loop out (s # ss) =
     (let s = TrimSpace s in
      if s = [] then ParsePrefixes_loop out ss
      else if CHR ''/'' \<in> set s then
        (case ParsePrefix s of
           None \<Rightarrow> Inl (BadCIDR s)
         | Some p \<Rightarrow> ParsePrefixes_loop (out @ [Masked (unmapPrefix p)]) ss)
      else
        (case ParseAddr s of
           None \<Rightarrow> Inl (BadAddress s)
         | Some a \<Rightarrow>
             let a = Unmap a in ParsePrefixes_loop (out @ [PrefixFrom a (BitLen a)]) ss))"

definition ParsePrefixes :: "string list \<Rightarrow> prefix_error + Prefix list" where
  "ParsePrefixes ss = ParsePrefixes_loop [] ss"

section \<open>The proxy\<close>

record TrustedProxy =
  tp_Adapter :: Adapter
  tp_Allowed :: "Prefix list"
  tp_Forwarders :: "Prefix list"

fun containsAddr :: "Prefix list \<Rightarrow> Addr \<Rightarrow> bool" where
  "containsAddr [] a = False"
| "containsAddr (p # ps) a = (if Contains p a then True else containsAddr ps a)"

definition peerAddr :: "http_request \<Rightarrow> Addr option" where
  "peerAddr r =
     (let host = (case SplitHost (hr_RemoteAddr r) of Some host \<Rightarrow> host | None \<Rightarrow> hr_RemoteAddr r);
          bracket = (\<lambda>c. c \<in> set ''[]'') in
      case ParseAddr (drop_while_end bracket (dropWhile bracket host)) of
        None \<Rightarrow> None
      | Some a \<Rightarrow> Some (Unmap a))"

text \<open>The scan of the hops from the last to the first: its argument is the list reversed.\<close>

fun scan_hops :: "Prefix list \<Rightarrow> string list \<Rightarrow> Addr option" where
  "scan_hops forwarders [] = None"
| "scan_hops forwarders (h # hs) =
     (case ParseAddr (TrimSpace h) of
        None \<Rightarrow> scan_hops forwarders hs
      | Some hop \<Rightarrow>
          let hop = Unmap hop in
          if \<not> containsAddr forwarders hop then Some hop else scan_hops forwarders hs)"

definition hops :: "http_request \<Rightarrow> string list" where
  "hops r = split_on CHR '','' (join '','' (Header_Values (hr_Header r) ''X-Forwarded-For''))"

definition clientAddr :: "TrustedProxy \<Rightarrow> http_request \<Rightarrow> Addr option" where
  "clientAddr t r =
     (case peerAddr r of
        None \<Rightarrow> None
      | Some peer \<Rightarrow>
          if length (tp_Forwarders t) = 0 \<or> \<not> containsAddr (tp_Forwarders t) peer then Some peer
          else case scan_hops (tp_Forwarders t) (rev (hops r)) of
            Some hop \<Rightarrow> Some hop
          | None \<Rightarrow> Some peer)"

definition TrustedProxy_Verify :: "TrustedProxy \<Rightarrow> http_request \<Rightarrow> untrusted option" where
  "TrustedProxy_Verify t r =
     (case clientAddr t r of
        None \<Rightarrow> Some (UnparseableRemote (hr_RemoteAddr r))
      | Some addr \<Rightarrow>
          if \<not> containsAddr (tp_Allowed t) addr then Some NotAllowed
          else ad_Verify (tp_Adapter t) r)"

text \<open>As an adapter: everything but \<^verbatim>\<open>Verify\<close> is the wrapped adapter's.\<close>

definition TrustedProxy_Adapter :: "TrustedProxy \<Rightarrow> Adapter" where
  "TrustedProxy_Adapter t =
     \<lparr>ad_Name = ad_Name (tp_Adapter t), ad_Verify = TrustedProxy_Verify t,
      ad_Parse = ad_Parse (tp_Adapter t), ad_Render = ad_Render (tp_Adapter t),
      ad_RequiresAllowlist = None\<rparr>"

section \<open>Rewriting a mapped prefix keeps its meaning\<close>

lemma Is4In6_mapped: "drop_bit 32 (w :: 128 word) = 0xFFFF \<Longrightarrow> 32 \<le> i \<Longrightarrow> bit w i \<longleftrightarrow> bit (0xFFFF :: 128 word) (i - 32)"
  using bit_high [of w "i - 32"] by simp

lemma unmapPrefix_Contains:
  assumes "Is4In6 (pf_Addr p)" "96 \<le> pf_Bits p" "pf_Bits p \<le> 128"
  shows "Contains (unmapPrefix p) (V4 v) \<longleftrightarrow> Contains p (mapped v)"
proof -
  obtain w z n where p: "p = \<lparr>pf_Addr = V6 w z, pf_Bits = n\<rparr>" and high: "drop_bit 32 w = 0xFFFF"
    using assms(1) by (cases p; cases "pf_Addr p") (auto simp: Is4In6_def)
  have n: "96 \<le> n" "n \<le> 128" using assms(2,3) p by simp_all
  have "Contains (unmapPrefix p) (V4 v) \<longleftrightarrow> (\<forall>i. 128 - n \<le> i \<longrightarrow> bit v i = bit (ucast w :: 32 word) i)"
    using n high by (simp add: p unmapPrefix_def Is4In6_def Unmap_def PrefixFrom_def without_zone_def Contains_V4)
  also have "\<dots> \<longleftrightarrow> (\<forall>i. 128 - n \<le> i \<longrightarrow> bit (push_bit 32 0xFFFF OR ucast v :: 128 word) i = bit w i)"
  proof -
    have "(128 - n \<le> i \<longrightarrow> bit v i = bit (ucast w :: 32 word) i) \<longleftrightarrow>
        (128 - n \<le> i \<longrightarrow> bit (push_bit 32 0xFFFF OR ucast v :: 128 word) i = bit w i)" for i
    proof (cases "i < 32")
      case True
      then have "bit (ucast w :: 32 word) i = bit w i" by (simp only: bit_ucast_iff) simp
      with True show ?thesis by (simp only: bit_mapped if_True)
    next
      case False
      have "\<not> bit v i" "\<not> bit (ucast w :: 32 word) i"
        using False by (auto dest: bit_imp_le_length)
      moreover have "bit w i \<Longrightarrow> i < 128" by (drule bit_imp_le_length) simp
      moreover have "i \<ge> 128 \<Longrightarrow> \<not> bit (0xFFFF :: 128 word) (i - 32) \<or> \<not> i < 128" by simp
      ultimately show ?thesis
        using False Is4In6_mapped [OF high, of i] unfolding bit_mapped by auto
    qed
    then show ?thesis by blast
  qed
  also have "\<dots> \<longleftrightarrow> Contains p (mapped v)" by (simp add: p mapped_def Contains_V6)
  finally show ?thesis .
qed

section \<open>Who is believed\<close>

lemma peerAddr_cong: "hr_RemoteAddr r = hr_RemoteAddr r' \<Longrightarrow> peerAddr r = peerAddr r'"
  by (simp only: peerAddr_def)

lemma containsAddr_iff: "containsAddr ps a \<longleftrightarrow> (\<exists>p \<in> set ps. Contains p a)"
  by (induction ps) auto

lemma scan_hops_append:
  "scan_hops fs (hs @ gs) = (case scan_hops fs hs of Some a \<Rightarrow> Some a | None \<Rightarrow> scan_hops fs gs)"
  by (induction fs hs rule: scan_hops.induct) (auto simp: Let_def split: option.splits)

lemma scan_hops_Some:
  "scan_hops fs hs = Some a \<Longrightarrow> \<not> containsAddr fs a \<and> (\<exists>h \<in> set hs. map_option Unmap (ParseAddr (TrimSpace h)) = Some a)"
proof (induction fs hs rule: scan_hops.induct)
  case (2 fs h hs)
  show ?case
  proof (cases "ParseAddr (TrimSpace h)")
    case None
    then show ?thesis using 2 by simp
  next
    case (Some hop)
    show ?thesis
    proof (cases "containsAddr fs (Unmap hop)")
      case True
      with Some 2(3) have rest: "scan_hops fs hs = Some a" by simp
      have "\<not> \<not> containsAddr fs (Unmap hop)" using True by simp
      from 2(2) [OF Some refl this rest] show ?thesis by simp
    next
      case False
      with Some 2(3) show ?thesis by simp
    qed
  qed
qed simp

lemma clientAddr_peer:
  "peerAddr r = Some peer \<Longrightarrow> \<not> containsAddr (tp_Forwarders t) peer \<Longrightarrow> clientAddr t r = Some peer"
  by (simp add: clientAddr_def)

lemma clientAddr_Some:
  assumes "clientAddr t r = Some a"
  obtains (peer) "peerAddr r = Some a"
  | (hop) peer h where "peerAddr r = Some peer" "containsAddr (tp_Forwarders t) peer" "h \<in> set (hops r)"
      "map_option Unmap (ParseAddr (TrimSpace h)) = Some a" "\<not> containsAddr (tp_Forwarders t) a"
  using assms by (auto simp: clientAddr_def split: option.splits if_splits dest: scan_hops_Some)

lemma TrustedProxy_Verify_None:
  "TrustedProxy_Verify t r = None \<longleftrightarrow>
     (\<exists>a. clientAddr t r = Some a \<and> containsAddr (tp_Allowed t) a) \<and> ad_Verify (tp_Adapter t) r = None"
  by (auto simp: TrustedProxy_Verify_def split: option.splits)

text \<open>Values that a forwarder puts behind the ones it received come last in the scanned list.\<close>

lemma hops_append:
  assumes "CHR '','' \<notin> set v" "vs \<noteq> []"
  shows "split_on CHR '','' (join '','' (vs @ [v])) = split_on CHR '','' (join '','' vs) @ [v]"
  using assms(2)
proof (induction "'',''" vs rule: join.induct)
  case (2 x)
  then show ?case using assms(1) by (induction x) (auto simp: split_on_notin split: list.splits)
next
  case (3 x y zs)
  have split_append: "split_on c (xs @ c # ys) = split_on c xs @ split_on c ys" for c :: char and xs ys
    by (induction xs) (auto split: list.splits)
  from 3 show ?case using split_append [of "CHR '',''" x] by simp
qed simp

lemma hops_last:
  assumes "Header_Values (hr_Header r) ''X-Forwarded-For'' = vs @ [v]" "CHR '','' \<notin> set v"
  shows "\<exists>hs. hops r = hs @ [v]"
proof (cases "vs = []")
  case True
  with assms show ?thesis by (simp add: hops_def split_on_notin)
next
  case False
  with assms hops_append [OF assms(2) False] show ?thesis by (simp add: hops_def)
qed

end
