(* ===== verification/Go_Url.thy ===== *)
theory Go_Url
  imports Go_Strconv
begin

text \<open>
  What the program uses of \<^verbatim>\<open>net/url\<close>: the parser of form bodies, and the encoder of form bodies that
  a conforming client uses, against which the parser is proved.
\<close>

section \<open>Parsing\<close>

fun QueryUnescape :: "string \<Rightarrow> string option" where
  "QueryUnescape [] = Some []"
| "QueryUnescape (c # cs) =
     (if c = CHR ''%'' then
        (case cs of
           a # b # rest \<Rightarrow>
             (case (hex_value a, hex_value b) of
                (Some x, Some y) \<Rightarrow>
                  (case QueryUnescape rest of
                     None \<Rightarrow> None
                   | Some s \<Rightarrow> Some (char_of (nat (16 * x + y)) # s))
              | _ \<Rightarrow> None)
         | _ \<Rightarrow> None)
      else
        (case QueryUnescape cs of
           None \<Rightarrow> None
         | Some s \<Rightarrow> Some ((if c = CHR ''+'' then CHR '' '' else c) # s)))"

definition Cut :: "char \<Rightarrow> string \<Rightarrow> string \<times> string" where
  "Cut c s = (takeWhile (\<lambda>x. x \<noteq> c) s, drop 1 (dropWhile (\<lambda>x. x \<noteq> c) s))"

type_synonym Values = "(string \<times> string) list"

text \<open>The first error is the result, whatever else the query holds.\<close>

fun ParseQuery_loop :: "string list \<Rightarrow> Values option" where
  "ParseQuery_loop [] = Some []"
| "ParseQuery_loop (part # parts) =
     (if CHR '';'' \<in> set part then None
      else if part = [] then ParseQuery_loop parts
      else case Cut CHR ''='' part of (k, v) \<Rightarrow>
        (case (QueryUnescape k, QueryUnescape v) of
           (Some key, Some value) \<Rightarrow>
             (case ParseQuery_loop parts of None \<Rightarrow> None | Some form \<Rightarrow> Some ((key, value) # form))
         | _ \<Rightarrow> None))"

definition ParseQuery :: "string \<Rightarrow> Values option" where
  "ParseQuery s = ParseQuery_loop (split_on CHR ''&'' s)"

definition Values_Get :: "Values \<Rightarrow> string \<Rightarrow> string" where
  "Values_Get form key = (case map_of form key of Some v \<Rightarrow> v | None \<Rightarrow> [])"

section \<open>Encoding\<close>

definition unreserved :: "char \<Rightarrow> bool" where
  "unreserved c \<longleftrightarrow>
     is_digit c \<or> (65 \<le> (of_char c :: nat) \<and> of_char c \<le> (90 :: nat)) \<or>
     (97 \<le> (of_char c :: nat) \<and> of_char c \<le> (122 :: nat)) \<or> c \<in> set ''-_.~''"

definition upper_hex :: "nat \<Rightarrow> char" where
  "upper_hex n = (if n < 10 then char_of (48 + n) else char_of (55 + n))"

fun QueryEscape :: "string \<Rightarrow> string" where
  "QueryEscape [] = []"
| "QueryEscape (c # cs) =
     (if unreserved c then [c]
      else if c = CHR '' '' then ''+''
      else [CHR ''%'', upper_hex (of_char c div 16), upper_hex (of_char c mod 16)]) @ QueryEscape cs"

definition encode_pair :: "string \<times> string \<Rightarrow> string" where
  "encode_pair kv = QueryEscape (fst kv) @ ''='' @ QueryEscape (snd kv)"

definition encode_form :: "Values \<Rightarrow> string" where
  "encode_form form = join ''&'' (map encode_pair form)"

section \<open>The parser undoes the encoder\<close>

lemma hex_value_upper_hex: "n < 16 \<Longrightarrow> hex_value (upper_hex n) = Some (int n)"
  by (cases "n < 10") (simp_all add: hex_value_def upper_hex_def is_digit_def Let_def)

lemma upper_hex_safe: "n < 16 \<Longrightarrow> upper_hex n \<notin> set ''&=;''"
proof -
  assume "n < 16"
  have "of_char (upper_hex n) \<notin> {0x26, 0x3D, 0x3B :: nat}"
    using \<open>n < 16\<close> by (auto simp: upper_hex_def)
  then show ?thesis by auto
qed

lemma QueryUnescape_QueryEscape: "QueryUnescape (QueryEscape s) = Some s"
proof (induction s)
  case (Cons c s)
  have lt: "of_char c div 16 < (16 :: nat)" "of_char c mod 16 < (16 :: nat)"
    using of_char_less_256 [of c] by (auto intro: less_mult_imp_div_less)
  have "nat (16 * int m + int n) = 16 * m + n" for m n by simp
  then have byte: "char_of (nat (16 * int (of_char c div 16) + int (of_char c mod 16))) = c"
    by (simp only: mult_div_mod_eq char_of_char)
  have "\<not> unreserved CHR ''%''" "\<not> unreserved CHR ''+''"
    by (simp_all add: unreserved_def is_digit_def)
  then show ?case using Cons hex_value_upper_hex [OF lt(1)] hex_value_upper_hex [OF lt(2)] byte
    by auto
qed simp

lemma QueryEscape_safe: "c \<in> set (QueryEscape s) \<Longrightarrow> c \<notin> set ''&=;''"
proof (induction s)
  case (Cons d s)
  have lt: "of_char d div 16 < (16 :: nat)" "of_char d mod 16 < (16 :: nat)"
    using of_char_less_256 [of d] by (auto intro: less_mult_imp_div_less)
  have un: "unreserved e \<Longrightarrow> e \<notin> set ''&=;''" for e
    by (auto simp: unreserved_def is_digit_def)
  from Cons.prems consider "unreserved d" "c = d" | "c = CHR ''+''" | "c = CHR ''%''"
    | "c = upper_hex (of_char d div 16)" | "c = upper_hex (of_char d mod 16)" | "c \<in> set (QueryEscape s)"
    by (auto split: if_splits)
  then show ?case
    by cases (use un upper_hex_safe [OF lt(1)] upper_hex_safe [OF lt(2)] Cons.IH in auto)
qed simp

lemma encode_pair_safe: "c \<in> set (encode_pair kv) \<Longrightarrow> c \<noteq> CHR ''&'' \<and> c \<noteq> CHR '';''"
  using QueryEscape_safe by (fastforce simp: encode_pair_def)

lemma Cut_encode_pair: "Cut CHR ''='' (encode_pair (k, v)) = (QueryEscape k, QueryEscape v)"
proof -
  have "\<forall>c \<in> set (QueryEscape k). c \<noteq> CHR ''=''" using QueryEscape_safe by fastforce
  then show ?thesis by (simp add: Cut_def encode_pair_def takeWhile_append2 dropWhile_append2)
qed

lemma ParseQuery_encode_form: "ParseQuery (encode_form form) = Some form"
proof (cases "form = []")
  case True
  then show ?thesis by (simp add: ParseQuery_def encode_form_def)
next
  case False
  have "ParseQuery_loop (map encode_pair form) = Some form"
  proof (induction form)
    case (Cons kv form)
    obtain k v where kv: "kv = (k, v)" by (cases kv)
    have "encode_pair kv \<noteq> []" by (simp add: encode_pair_def)
    moreover have "CHR '';'' \<notin> set (encode_pair kv)" using encode_pair_safe by fastforce
    ultimately show ?case using Cons
      by (simp add: kv Cut_encode_pair QueryUnescape_QueryEscape)
  qed simp
  moreover have "split_on CHR ''&'' (encode_form form) = map encode_pair form"
    unfolding encode_form_def using False encode_pair_safe by (intro split_on_join) fastforce+
  ultimately show ?thesis by (simp add: ParseQuery_def)
qed

end
