(* ===== verification/Africas_Talking.thy ===== *)
theory Africas_Talking
  imports Telco_Adapter Go_Url
begin

text \<open>
  \<^verbatim>\<open>gateway/internal/adapter/africastalking/adapter.go\<close>: form posts in, \<^verbatim>\<open>CON\<close> and \<^verbatim>\<open>END\<close> screens out.
\<close>

section \<open>The code\<close>

definition AT_Name :: string where
  "AT_Name = ''africastalking''"

definition maxBodyBytes :: nat where
  "maxBodyBytes = 64 * 1024"

definition phaseFor :: "string \<Rightarrow> Phase" where
  "phaseFor text = (if text = [] then PhaseBegin else PhaseContinue)"

definition splitPath :: "string \<Rightarrow> string list" where
  "splitPath text = (if text = [] then [] else split_on CHR ''*'' text)"

definition normaliseMSISDN :: "string \<Rightarrow> string" where
  "normaliseMSISDN s =
     (let s = TrimSpace s in if s = [] \<or> prefix ''+'' s then s else ''+'' @ s)"

definition AT_event :: "time \<Rightarrow> string \<Rightarrow> Values \<Rightarrow> Event" where
  "AT_event now raw form =
     (let text = Values_Get form ''text'' in
      \<lparr>ev_MNO = AT_Name,
       ev_SessionID = TrimSpace (Values_Get form ''sessionId''),
       ev_MSISDN = normaliseMSISDN (Values_Get form ''phoneNumber''),
       ev_Shortcode = TrimSpace (Values_Get form ''serviceCode''),
       ev_Path = splitPath text,
       ev_Phase = phaseFor text,
       ev_NetworkCode = TrimSpace (Values_Get form ''networkCode''),
       ev_ReceivedAt = now,
       ev_Raw = raw\<rparr>)"

definition AT_Parse :: "time \<Rightarrow> http_request \<Rightarrow> parse_error + Event" where
  "AT_Parse now r =
     (if hr_Method r \<noteq> ''POST'' then Inl (ExpectedPOST (hr_Method r))
      else case ReadAll_limited (maxBodyBytes + 1) (hr_Body r) (hr_BodyError r) of
        Inl err \<Rightarrow> Inl (ReadingBody err)
      | Inr raw \<Rightarrow>
          if length raw > maxBodyBytes then Inl (BodyExceeds maxBodyBytes)
          else case ParseQuery raw of
            None \<Rightarrow> Inl (MalformedBody raw)
          | Some form \<Rightarrow>
              let ev = AT_event now raw form in
              case Event_Validate ev of Some err \<Rightarrow> Inl (InvalidEvent err) | None \<Rightarrow> Inr ev)"

text \<open>Writing to the connection is taken to succeed: its error goes to the log only.\<close>

definition AT_Render :: "Response \<Rightarrow> http_writer \<Rightarrow> render_error option \<times> http_writer" where
  "AT_Render resp w =
     (case Response_Validate resp of
        Some err \<Rightarrow> (Some (InvalidResponse err), w)
      | None \<Rightarrow>
          let verb = (if resp_EndSession resp then ''END'' else ''CON'');
              w = set_header ''Content-Type'' ''text/plain; charset=utf-8'' w;
              w = WriteHeader 200 w
          in (None, Write (verb @ '' '' @ resp_Body resp) w))"

definition AT_Adapter :: Adapter where
  "AT_Adapter =
     \<lparr>ad_Name = AT_Name, ad_Verify = (\<lambda>_. None), ad_Parse = AT_Parse, ad_Render = AT_Render,
      ad_RequiresAllowlist = Some True\<rparr>"

section \<open>The adapter contract\<close>

lemma AT_Parse_Inr:
  assumes "AT_Parse now r = Inr ev"
  shows "wf_event ev \<and> hr_Method r = ''POST'' \<and> length (hr_Body r) \<le> maxBodyBytes \<and>
    (\<exists>form. ParseQuery (hr_Body r) = Some form \<and> ev = AT_event now (hr_Body r) form)"
proof -
  from assms have post: "hr_Method r = ''POST''" by (simp add: AT_Parse_def split: if_splits)
  with assms obtain raw form where
    raw: "ReadAll_limited (maxBodyBytes + 1) (hr_Body r) (hr_BodyError r) = Inr raw" "length raw \<le> maxBodyBytes"
    and form: "ParseQuery raw = Some form" "ev = AT_event now raw form" "Event_Validate ev = None"
    by (auto simp: AT_Parse_def Let_def split: sum.splits if_splits option.splits)
  from ReadAll_limited_within [OF raw] have "raw = hr_Body r" by simp
  with post raw form show ?thesis by (simp add: Event_Validate_wf)
qed

interpretation africastalking: telco_adapter AT_Name AT_Parse AT_Render
proof unfold_locales
  fix now :: time and r :: http_request and ev :: Event and resp :: Response and w :: http_writer
  show "AT_Parse now r = Inr ev \<Longrightarrow> wf_event ev"
    by (simp add: AT_Parse_Inr)
  show "AT_Parse now r = Inr ev \<Longrightarrow> ev_MNO ev = AT_Name"
    by (auto dest!: AT_Parse_Inr simp: AT_event_def Let_def)
  show "\<not> FitsScreen (resp_Body resp) \<Longrightarrow> \<exists>e. AT_Render resp w = (Some e, w)"
    using Response_Validate_None [of resp] by (auto simp: AT_Render_def)
  show "FitsScreen (resp_Body resp) \<Longrightarrow> hw_Status w = None \<Longrightarrow> hw_Status (snd (AT_Render resp w)) = Some 200"
    using Response_Validate_None [of resp] by (simp add: AT_Render_def Let_def)
qed

section \<open>Input\<close>

text \<open>The path is the text cut at the stars: never ambiguous, empty segments included.\<close>

lemma join_splitPath: "join ''*'' (splitPath text) = text"
  by (simp add: splitPath_def join_split_on)

lemma splitPath_join:
  "\<forall>seg \<in> set segs. CHR ''*'' \<notin> set seg \<Longrightarrow> segs \<noteq> [''''] \<Longrightarrow> splitPath (join ''*'' segs) = segs"
proof (cases segs)
  case (Cons s ss)
  moreover assume segs: "\<forall>seg \<in> set segs. CHR ''*'' \<notin> set seg" "segs \<noteq> ['''']"
  ultimately have "join ''*'' segs \<noteq> []" by (cases ss) auto
  moreover have "split_on CHR ''*'' (join ''*'' segs) = segs" using Cons segs(1) by (intro split_on_join) auto
  ultimately show ?thesis by (simp add: splitPath_def)
qed (simp add: splitPath_def)

lemma AT_event_path:
  "\<forall>seg \<in> set (ev_Path (AT_event now raw form)). CHR ''*'' \<notin> set seg"
  "ev_Phase (AT_event now raw form) = PhaseBegin \<longleftrightarrow> ev_Path (AT_event now raw form) = []"
  "ev_Phase (AT_event now raw form) \<in> {PhaseBegin, PhaseContinue}"
  by (auto simp: AT_event_def Let_def splitPath_def phaseFor_def dest: split_on_no_sep)

lemma AT_event_not_terminal: "\<not> Phase_Terminal (ev_Phase (AT_event now raw form))"
  using AT_event_path(3) [of now raw form] by (elim insertE emptyE) simp_all

text \<open>Of the checks on an event only those on the session and the number can fail.\<close>

lemma wf_AT_event:
  "wf_event (AT_event now raw form) \<longleftrightarrow>
     TrimSpace (Values_Get form ''sessionId'') \<noteq> [] \<and>
     length (TrimSpace (Values_Get form ''sessionId'')) \<le> 128 \<and>
     TrimSpace (Values_Get form ''phoneNumber'') \<noteq> []"
proof -
  have "ev_MSISDN (AT_event now raw form) = [] \<longleftrightarrow> TrimSpace (Values_Get form ''phoneNumber'') = []"
    by (auto simp: AT_event_def normaliseMSISDN_def Let_def)
  moreover have "ev_MNO (AT_event now raw form) \<noteq> []"
    "ev_SessionID (AT_event now raw form) = TrimSpace (Values_Get form ''sessionId'')"
    by (simp_all add: AT_event_def AT_Name_def Let_def)
  ultimately show ?thesis using AT_event_path [of now raw form] by (auto simp: wf_event_def)
qed

lemma AT_Parse_ok:
  assumes "hr_Method r = ''POST''" "length (hr_Body r) \<le> maxBodyBytes" "hr_BodyError r = None"
    "ParseQuery (hr_Body r) = Some form" "wf_event (AT_event now (hr_Body r) form)"
  shows "AT_Parse now r = Inr (AT_event now (hr_Body r) form)"
  using assms by (simp add: AT_Parse_def ReadAll_limited_def Event_Validate_wf [THEN iffD2])

lemma AT_Parse_iff:
  "(\<exists>ev. AT_Parse now r = Inr ev) \<longleftrightarrow>
     hr_Method r = ''POST'' \<and> length (hr_Body r) \<le> maxBodyBytes \<and> hr_BodyError r = None \<and>
     (\<exists>form. ParseQuery (hr_Body r) = Some form \<and> wf_event (AT_event now (hr_Body r) form))"
proof
  assume "\<exists>ev. AT_Parse now r = Inr ev"
  then obtain ev where ev: "AT_Parse now r = Inr ev" by blast
  note inr = AT_Parse_Inr [OF ev]
  have "hr_BodyError r = None"
    using ev inr by (auto simp: AT_Parse_def ReadAll_limited_def split: option.splits)
  with inr show "hr_Method r = ''POST'' \<and> length (hr_Body r) \<le> maxBodyBytes \<and> hr_BodyError r = None \<and>
     (\<exists>form. ParseQuery (hr_Body r) = Some form \<and> wf_event (AT_event now (hr_Body r) form))" by blast
qed (use AT_Parse_ok in blast)

lemma normaliseMSISDN_plus: "normaliseMSISDN s = [] \<or> prefix ''+'' (normaliseMSISDN s)"
  by (simp add: normaliseMSISDN_def Let_def)

section \<open>Output\<close>

lemma AT_Render_body:
  assumes "FitsScreen (resp_Body resp)"
  shows "hw_Body (snd (AT_Render resp new_writer)) =
    (if resp_EndSession resp then ''END '' else ''CON '') @ resp_Body resp"
  using assms Response_Validate_None [of resp] by (simp add: AT_Render_def Let_def)

lemma AT_Render_served:
  assumes "FitsScreen (resp_Body resp)"
  shows "hw_Status (snd (AT_Render resp (set_header k v new_writer))) = Some 200"
    and "hw_Body (snd (AT_Render resp (set_header k v new_writer))) =
      (if resp_EndSession resp then ''END '' else ''CON '') @ resp_Body resp"
  using assms Response_Validate_None [of resp] by (simp_all add: AT_Render_def Let_def)

end
