(* ===== verification/Simulator.thy ===== *)
theory Simulator
  imports Telco_Adapter
begin

text \<open>
  \<^verbatim>\<open>gateway/internal/adapter/simulator/adapter.go\<close>: the adapter of the local handset simulator.  The
  JSON codec is a parameter: \<open>decode\<close> of a request body, \<open>encode\<close> of a response.
\<close>

section \<open>The code\<close>

definition Simulator_Name :: string where
  "Simulator_Name = ''simulator''"

definition simulator_maxBodyBytes :: nat where
  "simulator_maxBodyBytes = 64 * 1024"

record sim_request =
  sim_SessionID :: string
  sim_MSISDN :: string
  sim_Shortcode :: string
  sim_Path :: "string list"
  sim_Phase :: Phase

definition Simulator_event :: "time \<Rightarrow> string \<Rightarrow> sim_request \<Rightarrow> Event" where
  "Simulator_event now raw inp =
     (let phase =
        (if sim_Phase inp = [] then
           if length (sim_Path inp) > 0 then PhaseContinue else PhaseBegin
         else sim_Phase inp) in
      \<lparr>ev_MNO = Simulator_Name, ev_SessionID = sim_SessionID inp, ev_MSISDN = sim_MSISDN inp,
       ev_Shortcode = sim_Shortcode inp, ev_Path = sim_Path inp, ev_Phase = phase,
       ev_NetworkCode = [], ev_ReceivedAt = now, ev_Raw = raw\<rparr>)"

definition Simulator_Parse ::
    "(string \<Rightarrow> string + sim_request) \<Rightarrow> time \<Rightarrow> http_request \<Rightarrow> parse_error + Event" where
  "Simulator_Parse decode now r =
     (if hr_Method r \<noteq> ''POST'' then Inl (ExpectedPOST (hr_Method r))
      else case ReadAll_limited (simulator_maxBodyBytes + 1) (hr_Body r) (hr_BodyError r) of
        Inl err \<Rightarrow> Inl (ReadingBody err)
      | Inr raw \<Rightarrow>
          if length raw > simulator_maxBodyBytes then Inl (BodyExceeds simulator_maxBodyBytes)
          else case decode raw of
            Inl err \<Rightarrow> Inl (MalformedBody err)
          | Inr inp \<Rightarrow>
              let ev = Simulator_event now raw inp in
              case Event_Validate ev of Some err \<Rightarrow> Inl (InvalidEvent err) | None \<Rightarrow> Inr ev)"

definition Simulator_Render ::
    "(Response \<Rightarrow> string + string) \<Rightarrow> Response \<Rightarrow> http_writer \<Rightarrow> render_error option \<times> http_writer" where
  "Simulator_Render encode resp w =
     (case Response_Validate resp of
        Some err \<Rightarrow> (Some (InvalidResponse err), w)
      | None \<Rightarrow>
          let w = set_header ''Content-Type'' ''application/json'' w;
              w = WriteHeader 200 w
          in case encode resp of
            Inl err \<Rightarrow> (Some (WritingResponse err), w)
          | Inr body \<Rightarrow> (None, Write (body @ [CHR 0x0A]) w))"

definition Simulator_Adapter ::
    "(string \<Rightarrow> string + sim_request) \<Rightarrow> (Response \<Rightarrow> string + string) \<Rightarrow> Adapter" where
  "Simulator_Adapter decode encode =
     \<lparr>ad_Name = Simulator_Name, ad_Verify = (\<lambda>_. None), ad_Parse = Simulator_Parse decode,
      ad_Render = Simulator_Render encode, ad_RequiresAllowlist = Some False\<rparr>"

section \<open>The adapter contract\<close>

interpretation simulator: telco_adapter Simulator_Name "Simulator_Parse decode" "Simulator_Render encode"
proof unfold_locales
  fix now :: time and r :: http_request and ev :: Event and resp :: Response and w :: http_writer
  show "Simulator_Parse decode now r = Inr ev \<Longrightarrow> wf_event ev"
    by (auto simp: Simulator_Parse_def Let_def Event_Validate_wf split: sum.splits if_splits option.splits)
  show "Simulator_Parse decode now r = Inr ev \<Longrightarrow> ev_MNO ev = Simulator_Name"
    by (auto simp: Simulator_Parse_def Simulator_event_def Let_def split: sum.splits if_splits option.splits)
  show "\<not> FitsScreen (resp_Body resp) \<Longrightarrow> \<exists>e. Simulator_Render encode resp w = (Some e, w)"
    using Response_Validate_None [of resp] by (auto simp: Simulator_Render_def)
  show "FitsScreen (resp_Body resp) \<Longrightarrow> hw_Status w = None \<Longrightarrow>
      hw_Status (snd (Simulator_Render encode resp w)) = Some 200"
    using Response_Validate_None [of resp] by (auto simp: Simulator_Render_def Let_def split: sum.split)
qed

text \<open>A request without a phase gets the one its path says, which is always a valid one.\<close>

lemma Simulator_phase_inferred:
  "sim_Phase inp = [] \<Longrightarrow>
   ev_Phase (Simulator_event now raw inp) = (if sim_Path inp = [] then PhaseBegin else PhaseContinue)"
  by (simp add: Simulator_event_def Let_def)

end
