(* ===== verification/Samples.thy ===== *)
theory Samples
  imports Inbound_Isolation Sdk_Menu Sdk_Paginate Trusted_Proxy Africas_Talking Simulator
begin

text \<open>
  Small concrete configurations, on which the hypotheses of the properties are shown to hold
  together: two tenants on one shortcode, a dispatcher whose tenant always keeps one byte of state,
  and a subscriber with two turns.
\<close>

definition sample_root :: Tenant where
  "sample_root =
     \<lparr>tn_Name = ''a'', tn_Shortcode = ''*1#'', tn_Prefix = [], tn_WebhookURL = ''u'', tn_Secret = ''k'', tn_Timeout = 0\<rparr>"

definition sample_shop :: Tenant where
  "sample_shop =
     \<lparr>tn_Name = ''b'', tn_Shortcode = ''*1#'', tn_Prefix = [''2''], tn_WebhookURL = ''u'', tn_Secret = ''l'', tn_Timeout = 7\<rparr>"

definition sample_url :: "string \<Rightarrow> string + string" where
  "sample_url u = Inr ''https''"

definition sample_order :: "string set \<Rightarrow> string list" where
  "sample_order S = sorted_list_of_set S"

definition sample_router :: Router where
  "sample_router = \<lparr>rt_byShortcode = Mapping.update ''*1#'' [sample_shop, sample_root] Mapping.empty\<rparr>"

definition sample_reply :: Reply where
  "sample_reply = \<lparr>rp_Response = Continue ''hi'', rp_State = Some ''7'', rp_ClearState = False\<rparr>"

definition sample_dispatcher :: Dispatcher where
  "sample_dispatcher =
     \<lparr>dp_Marshal = (\<lambda>_. Inr ''m''), dp_Unmarshal = (\<lambda>_. Inr sample_reply), dp_RequestError = (\<lambda>_. None),
      dp_Do = (\<lambda>_. Inr \<lparr>hp_StatusCode = 200, hp_Status = ''OK'', hp_Body = ''r'', hp_ReadError = None\<rparr>),
      dp_mac = (\<lambda>k m. m)\<rparr>"

definition sample_event :: "string list \<Rightarrow> Event" where
  "sample_event path =
     \<lparr>ev_MNO = ''n'', ev_SessionID = ''s'', ev_MSISDN = ''+1'', ev_Shortcode = ''*1#'', ev_Path = path,
      ev_Phase = (if path = [] then PhaseBegin else PhaseContinue), ev_NetworkCode = [], ev_ReceivedAt = 0, ev_Raw = []\<rparr>"

definition sample_instants :: instants where
  "sample_instants = \<lparr>at_Load = 0, at_Deliver = 0, at_Save = 0\<rparr>"

definition sample_request :: "string \<Rightarrow> http_request" where
  "sample_request body =
     \<lparr>hr_Method = ''POST'', hr_Header = Map.empty, hr_RemoteAddr = ''10.0.0.1:80'', hr_Body = body, hr_BodyError = None\<rparr>"

lemma map_order_sample: "map_order sample_order"
  by (simp add: map_order_def sample_order_def)

lemma sample_NewRouter: "NewRouter sample_url sample_order [sample_root, sample_shop] = Inr sample_router"
proof -
  have distinct: "tn_Name sample_root \<noteq> tn_Name sample_shop" "route_key sample_root \<noteq> route_key sample_shop"
    by (simp_all add: sample_root_def sample_shop_def route_key_def)
  have valid: "Tenant_Validate sample_url sample_root = None" "Tenant_Validate sample_url sample_shop = None"
    by (simp_all add: Tenant_Validate_def sample_url_def sample_root_def sample_shop_def)
  have code: "tn_Shortcode sample_root = ''*1#''" "tn_Shortcode sample_shop = ''*1#''"
    by (simp_all add: sample_root_def sample_shop_def)
  have pre: "tn_Prefix sample_root = []" "tn_Prefix sample_shop = [''2'']"
    by (simp_all add: sample_root_def sample_shop_def)
  have upd: "Mapping.update k v (Mapping.update k w m) = Mapping.update k v m" for k v w and m :: table
    by (rule mapping_eqI) (simp add: lookup_update')
  show ?thesis
    by (simp add: NewRouter_def distinct distinct(1) [symmetric] distinct(2) [symmetric] valid code pre
        lookup_default_update lookup_default_empty upd sample_order_def longest_first_def sample_router_def)
qed


lemma sample_reply_simps [simp]:
  "rp_Response sample_reply = Continue ''hi''" "rp_State sample_reply = Some ''7''" "\<not> rp_ClearState sample_reply"
  "rp_State_update (\<lambda>_. Some ''7'') sample_reply = sample_reply"
  by (simp_all add: sample_reply_def)

lemma FitsScreen_hi: "FitsScreen ''hi''"
  by (simp add: FitsScreen_plain plain_def MaxSeptets_def)

lemma NormaliseState_sample: "NormaliseState (Some ''7'') = Some ''7''"
proof -
  have "set (runes (TrimSpace ''7'')) \<subseteq> {0x37}"
    using set_runes_TrimSpace [of "''7''"] by (simp add: runes_ascii)
  moreover have "0x6E \<in> set (runes ''null'')" by (simp add: runes_ascii)
  ultimately have "TrimSpace ''7'' \<noteq> ''null''" by fastforce
  then show ?thesis by (simp add: NormaliseState_def)
qed

lemma sample_Deliver: "fst (Deliver sample_dispatcher now t rq) = Inr sample_reply"
proof -
  have "decode_reply sample_dispatcher t \<lparr>hp_StatusCode = 200, hp_Status = ''OK'', hp_Body = ''r'', hp_ReadError = None\<rparr> =
      Inr sample_reply"
    using Response_Validate_None [of "Continue ''hi''"] FitsScreen_hi
    by (simp add: decode_reply_def ReadAll_limited_def maxTenantResponseBytes_def sample_dispatcher_def
        NormaliseState_sample Let_def)
  then show ?thesis by (simp add: Deliver_def Let_def) (simp add: sample_dispatcher_def)
qed

lemma sample_Route:
  "Route sample_router (sample_event []) = Inr (sample_root, sample_event [])"
  "Route sample_router (sample_event [''1'']) = Inr (sample_root, sample_event [''1''])"
  "Route sample_router (sample_event [''2'', ''9'']) = Inr (sample_shop, sample_event [''9''])"
  by (simp_all add: Route_def sample_router_def sample_event_def lookup_default_update hasPrefix_def
      sample_root_def sample_shop_def)

lemma sample_not_terminal: "\<not> Phase_Terminal (ev_Phase (sample_event path))"
  by (simp add: sample_event_def)

lemma sample_key: "event_key (sample_event path) = \<lparr>key_MNO = ''n'', key_SessionID = ''s''\<rparr>"
  "ev_MSISDN (sample_event path) = ''+1''"
  by (simp_all add: sample_event_def event_key_def)

text \<open>The first turn of the sample dialogue, what it leaves in the store, and the second.\<close>

definition sample_session :: "int \<Rightarrow> string option \<Rightarrow> Session" where
  "sample_session turn state =
     (fresh_session (sample_event []))\<lparr>se_Tenant := ''a'', se_Turn := turn, se_State := state\<rparr>"

definition sample_exchange :: "string list \<Rightarrow> int \<Rightarrow> string option \<Rightarrow> exchange" where
  "sample_exchange path turn state =
     \<lparr>ex_Tenant = sample_root,
      ex_Request = \<lparr>rq_Version = [], rq_Event = sample_event path, rq_Turn = turn, rq_State = state\<rparr>,
      ex_Result = Inr sample_reply\<rparr>"

definition sample_saved :: Memory where
  "sample_saved = snd (Memory_Save 0 (sample_session 1 (Some ''7'')) (NewMemory []))"

lemma fresh_sample: "fresh_session (sample_event path) = fresh_session (sample_event [])"
  by (simp add: fresh_session_def event_key_def sample_event_def)

lemma sample_first:
  "handle memory_store sample_router sample_dispatcher sample_instants (sample_event []) (NewMemory []) =
     (Inr (Continue ''hi''), sample_saved, Some (sample_exchange [] 1 None))"
proof -
  let ?sess = "enter_tenant sample_root (fresh_session (sample_event []))"
  have load: "load_session memory_store 0 (sample_event []) (NewMemory []) = fresh_session (sample_event [])"
    by (simp add: load_session_eq memory_store_def Memory_Load_def NewMemory_def Key_Validate_def sample_event_def)
  have enter: "?sess = sample_session 1 None"
    by (simp add: enter_tenant_def sample_session_def fresh_session_def empty_Session_def sample_root_def)
  have req: "turn_request (sample_event []) (sample_session 1 None) = ex_Request (sample_exchange [] 1 None)"
    by (simp add: turn_request_def sample_session_def sample_exchange_def)
  have reply: "apply_reply sample_reply (sample_session 1 None) = sample_session 1 (Some ''7'')"
    by (simp add: apply_reply_def sample_session_def)
  have save: "fst (Memory_Save 0 (sample_session 1 (Some ''7'')) (NewMemory [])) = None"
    by (simp add: Memory_Save_def sample_session_def Key_Validate_def sample_key)
  show ?thesis
    using load enter req reply save sample_not_terminal [of "[]"]
    by (simp add: handle_def Let_def sample_Route sample_instants_def sample_Deliver case_prod_beta)
      (simp add: memory_store_def sample_saved_def sample_exchange_def case_prod_beta)
qed

lemma sample_second:
  "\<exists>s'. handle memory_store sample_router sample_dispatcher sample_instants (sample_event [''1'']) sample_saved =
     (Inr (Continue ''hi''), s', Some (sample_exchange [''1''] 2 (Some ''7'')))"
proof -
  let ?old = "stamp 0 (sample_session 1 (Some ''7''))"
  let ?sess = "enter_tenant sample_root ?old"
  have key: "se_Key (sample_session 1 (Some ''7'')) = event_key (sample_event [''1''])"
    by (simp add: sample_session_def sample_key)
  have "Memory_Save 0 (sample_session 1 (Some ''7'')) (NewMemory []) = (None, sample_saved)"
    by (simp add: sample_saved_def Memory_Save_def sample_session_def Key_Validate_def sample_key)
  from memory.load_save [OF this, of "event_key (sample_event [''1''])" 0]
  have "Memory_Load 0 (event_key (sample_event [''1''])) sample_saved = Inr ?old"
    by (simp add: key) (simp add: sample_key Key_Validate_def NewMemory_def DefaultTTL_def)
  then have load: "load_session memory_store 0 (sample_event [''1'']) sample_saved = ?old"
    by (simp add: load_session_eq memory_store_def) (simp add: sample_session_def sample_key)
  have turn: "turn_request (sample_event [''1'']) ?sess = ex_Request (sample_exchange [''1''] 2 (Some ''7''))"
    using enter_tenant_same [of ?old sample_root]
    by (simp add: turn_request_def sample_exchange_def) (simp add: sample_session_def sample_root_def)
  have "fst (Memory_Save 0 (apply_reply sample_reply ?sess) sample_saved) = None"
    by (simp add: Memory_Save_def key) (simp add: sample_key Key_Validate_def)
  then show ?thesis
    using load turn sample_not_terminal [of "[''1'']"]
    by (simp add: handle_def Let_def sample_Route sample_instants_def sample_Deliver case_prod_beta)
      (simp add: memory_store_def sample_exchange_def case_prod_beta)
qed

definition sample_turns :: "(instants \<times> Dispatcher \<times> Event) list" where
  "sample_turns =
     [(sample_instants, sample_dispatcher, sample_event []), (sample_instants, sample_dispatcher, sample_event [''1''])]"

lemma sample_run:
  "fst (handle_run memory_store sample_router sample_turns (NewMemory [])) =
     [(sample_event [], sample_exchange [] 1 None), (sample_event [''1''], sample_exchange [''1''] 2 (Some ''7''))]"
  using sample_second by (auto simp: sample_turns_def sample_first)

lemma delete_empty_Mapping: "Mapping.delete k Mapping.empty = (Mapping.empty :: (string, memoryItem) mapping)"
  by (rule mapping_eqI) (simp add: lookup_delete_if)

lemma wf_tenants_swap: "wf_tenants url [t, u] \<Longrightarrow> wf_tenants url [u, t]"
  by (auto simp: wf_tenants_def on_code_def split: if_splits)

definition sample_form :: string where
  "sample_form = encode_form [(''sessionId'', ''s''), (''phoneNumber'', ''+1''), (''serviceCode'', ''*1#''), (''text'', [])]"

lemma sample_TrimSpace: "TrimSpace ''s'' = ''s''" "TrimSpace ''+1'' = ''+1''"
  by (simp_all add: TrimSpace_plain)

lemma sample_form_parses: "\<exists>ev. AT_Parse (at_Load sample_instants) (sample_request sample_form) = Inr ev"
proof -
  let ?form = "[(''sessionId'', ''s''), (''phoneNumber'', ''+1''), (''serviceCode'', ''*1#''), (''text'', [])]"
  have "ParseQuery sample_form = Some ?form" unfolding sample_form_def by (rule ParseQuery_encode_form)
  moreover have "wf_event (AT_event t sample_form ?form)" for t
    by (simp add: wf_AT_event Values_Get_def sample_TrimSpace)
  moreover have "length sample_form \<le> maxBodyBytes"
    by (simp add: sample_form_def encode_form_def encode_pair_def unreserved_def is_digit_def maxBodyBytes_def)
  ultimately show ?thesis
    using AT_Parse_ok [of "sample_request sample_form" ?form] by (auto simp: sample_request_def)
qed

lemma sample_Deliver_sent: "\<exists>req. Deliver sample_dispatcher now t rq = (Inr sample_reply, Some req)"
proof -
  have "snd (Deliver sample_dispatcher now t rq) \<noteq> None"
    by (simp add: Deliver_def Let_def) (simp add: sample_dispatcher_def)
  then show ?thesis using sample_Deliver [of now t rq] by (metis option.exhaust prod.collapse)
qed

lemma sample_saved_eq: "Memory_Save 0 (sample_session 1 (Some ''7'')) (NewMemory []) = (None, sample_saved)"
  by (simp add: sample_saved_def Memory_Save_def sample_session_def Key_Validate_def sample_key)

text \<open>A proxy that trusts its own network to forward, and a request forwarded through it.\<close>

definition sample_proxy :: TrustedProxy where
  "sample_proxy =
     \<lparr>tp_Adapter = AT_Adapter, tp_Allowed = [\<lparr>pf_Addr = V4 3325256704, pf_Bits = 24\<rparr>],
      tp_Forwarders = [\<lparr>pf_Addr = V4 0x0A000000, pf_Bits = 8\<rparr>]\<rparr>"

definition forwarded_request :: "string list \<Rightarrow> http_request" where
  "forwarded_request vs =
     (sample_request [])\<lparr>hr_Header := Map.empty(CanonicalHeaderKey ''X-Forwarded-For'' \<mapsto> vs)\<rparr>"

lemma sample_values_two:
  "Header_Values (hr_Header (forwarded_request [u, v])) ''X-Forwarded-For'' = [u] @ [v]"
  by (simp add: Header_Values_def forwarded_request_def)

lemma sample_values_port:
  "Header_Values (hr_Header (forwarded_request [u, v])) ''X-Forwarded-For'' = [u, v]"
  by (simp add: Header_Values_def forwarded_request_def)

lemma sample_peer: "peerAddr (forwarded_request vs) = Some (V4 167772161)"
proof -
  have "peerAddr (sample_request []) = Some (V4 167772161)" by code_simp
  moreover have "peerAddr (forwarded_request vs) = peerAddr (sample_request [])"
    by (rule peerAddr_cong) (simp add: forwarded_request_def)
  ultimately show ?thesis by simp
qed

lemma sample_peer_forwards: "containsAddr (tp_Forwarders sample_proxy) (V4 167772161)"
  by code_simp

lemma sample_client_parses: "ParseAddr (TrimSpace ''198.51.100.7'') = Some (V4 3325256711)"
proof -
  have "TrimSpace ''198.51.100.7'' = ''198.51.100.7''" by (rule TrimSpace_plain) simp
  moreover have "ParseAddr ''198.51.100.7'' = Some (V4 3325256711)" by code_simp
  ultimately show ?thesis by simp
qed

lemma sample_client_outside: "\<not> containsAddr (tp_Forwarders sample_proxy) (Unmap (V4 3325256711))"
  by code_simp

lemma sample_port_unparseable: "ParseAddr (TrimSpace ''203.0.113.9:4711'') = None"
proof -
  have "TrimSpace ''203.0.113.9:4711'' = ''203.0.113.9:4711''" by (rule TrimSpace_plain) simp
  moreover have "ParseAddr ''203.0.113.9:4711'' = None" by code_simp
  ultimately show ?thesis by simp
qed

lemma sample_mapped_prefix: "Is4In6 (V6 0xFFFF0A000000 [])"
  by code_simp

text \<open>A page and a menu.\<close>

lemma Paginate_hi: "\<exists>p. p \<in> set (Paginate ''hi'' 0)"
proof -
  have "runes (TrimSpace ''hi'') = [0x68, 0x69]" by (simp add: TrimSpace_plain runes_ascii)
  then have "concat (map (\<lambda>p. filter (\<lambda>r. \<not> IsSpace r) (runes p)) (Paginate ''hi'' 0)) = [0x68, 0x69]"
    using Paginate_content [of 0 "TrimSpace ''hi''" 0]
    by (simp add: Paginate_def MaxUCS2Units_def MaxScreen_def MaxSeptets_def IsSpace_def)
  then show ?thesis by (cases "Paginate ''hi'' 0") auto
qed

lemma FitsScreen_hi_back: "FitsScreen (''hi'' @ concat (map line [\<lparr>mi_Key = ''0'', mi_Label = ''B''\<rparr>]))"
  unfolding FitsScreen_runes runes_append_lines
  by (subst fits_basic) (simp_all add: runes_line runes_OneLine runes_ascii line_break_def gsm7Basic_def MaxSeptets_def)

end
