(* ===== verification/Sdk_I18n.thy ===== *)
theory Sdk_I18n
  imports Go_Strings Go_Http "HOL-Library.Mapping"
begin

text \<open>
  \<^verbatim>\<open>sdk/go/i18n.go\<close>: the translations of an application.  The table \<^verbatim>\<open>unicode.ToLower\<close> reads for
  runes is the parameter \<open>lower\<close>; on ASCII text \<^verbatim>\<open>strings.ToLower\<close> does not use it.  A nil bundle is
  \<open>None\<close>.
\<close>

definition ToLower :: "(rune \<Rightarrow> rune) \<Rightarrow> string \<Rightarrow> string" where
  "ToLower lower s = (if ascii s then map to_lower s else Map_runes (\<lambda>r. Some (lower r)) s)"

definition DefaultLang :: string where
  "DefaultLang = ''en''"

type_synonym phrases = "(string, string) mapping"

record Bundle =
  bn_Fallback :: string
  bn_strings :: "(string, phrases) mapping"

definition NewBundle :: "(string, phrases) mapping \<Rightarrow> Bundle" where
  "NewBundle langs = \<lparr>bn_Fallback = DefaultLang, bn_strings = langs\<rparr>"

definition translated :: "(string, phrases) mapping \<Rightarrow> string \<Rightarrow> string \<Rightarrow> string option" where
  "translated langs lang key =
     (case Mapping.lookup langs lang of None \<Rightarrow> None | Some table \<Rightarrow> Mapping.lookup table key)"

definition Bundle_T :: "(rune \<Rightarrow> rune) \<Rightarrow> Bundle option \<Rightarrow> string \<Rightarrow> string \<Rightarrow> string" where
  "Bundle_T lower bundle lang key =
     (case bundle of
        None \<Rightarrow> key
      | Some b \<Rightarrow>
          (case translated (bn_strings b) (ToLower lower lang) key of
             Some v \<Rightarrow> v
           | None \<Rightarrow>
               let fallback = (if bn_Fallback b = [] then DefaultLang else bn_Fallback b) in
               (case translated (bn_strings b) (ToLower lower fallback) key of
                  Some v \<Rightarrow> v
                | None \<Rightarrow> key)))"

text \<open>\<open>order\<close>: the order in which the runtime visits the keys of a map.\<close>

definition Languages :: "(string set \<Rightarrow> string list) \<Rightarrow> Bundle option \<Rightarrow> string list" where
  "Languages order bundle =
     (case bundle of None \<Rightarrow> [] | Some b \<Rightarrow> order (Mapping.keys (bn_strings b)))"

definition Bundle_Has :: "(rune \<Rightarrow> rune) \<Rightarrow> Bundle option \<Rightarrow> string \<Rightarrow> bool" where
  "Bundle_Has lower bundle lang =
     (case bundle of
        None \<Rightarrow> False
      | Some b \<Rightarrow> Mapping.lookup (bn_strings b) (ToLower lower lang) \<noteq> None)"

section \<open>Case\<close>

lemma to_lower_ascii: "of_char c < (0x80 :: nat) \<Longrightarrow> of_char (to_lower c) < (0x80 :: nat)"
  by (auto simp: to_lower_def is_upper_def)

lemma to_lower_not_upper: "\<not> is_upper (to_lower c)"
  by (auto simp: to_lower_def is_upper_def)

lemma to_lower_id: "\<not> is_upper c \<Longrightarrow> to_lower c = c"
  by (simp add: to_lower_def)

lemma ToLower_ascii: "ascii s \<Longrightarrow> ToLower lower s = map to_lower s"
  by (simp add: ToLower_def)

lemma ToLower_idem: "ascii s \<Longrightarrow> ToLower lower (ToLower lower s) = ToLower lower s"
  by (auto simp: ToLower_def ascii_def to_lower_ascii to_lower_id [OF to_lower_not_upper])

lemma ToLower_no_upper: "ascii s \<Longrightarrow> list_all (\<lambda>c. \<not> is_upper c) (ToLower lower s)"
  by (simp add: ToLower_ascii list_all_iff to_lower_not_upper)

section \<open>Looking a text up\<close>

text \<open>The first of the language, the fallback language and the key itself that has an answer.\<close>

lemma Bundle_T_Some:
  "Bundle_T lower (Some b) lang key =
     hd ([v. Some v \<leftarrow> [translated (bn_strings b) (ToLower lower lang) key,
            translated (bn_strings b) (ToLower lower (if bn_Fallback b = [] then DefaultLang else bn_Fallback b)) key]]
         @ [key])"
  by (simp add: Bundle_T_def Let_def split: option.split)

lemma Bundle_T_case:
  assumes "ToLower lower lang = ToLower lower lang'"
  shows "Bundle_T lower b lang key = Bundle_T lower b lang' key" "Bundle_Has lower b lang = Bundle_Has lower b lang'"
  using assms by (auto simp: Bundle_T_def Bundle_Has_def split: option.split)

text \<open>A language declared with an upper case letter is never found by a code in ASCII.\<close>

lemma Bundle_upper_unreachable:
  assumes "ascii lang" "c \<in> set code" "is_upper c"
  shows "ToLower lower lang \<noteq> code"
  using ToLower_no_upper [OF assms(1), of lower] assms(2,3) by (auto simp: list_all_iff)

lemma translated_update: "lang \<noteq> code \<Longrightarrow> translated (Mapping.update code table m) lang key = translated m lang key"
  by (simp add: translated_def lookup_update')

lemma Bundle_T_declared_upper:
  assumes "ascii lang" "ascii (bn_Fallback b)" "c \<in> set code" "is_upper c"
  shows "Bundle_T lower (Some (b\<lparr>bn_strings := Mapping.update code table (bn_strings b)\<rparr>)) lang key =
    Bundle_T lower (Some b) lang key"
proof -
  have "ToLower lower lang \<noteq> code" "ToLower lower (bn_Fallback b) \<noteq> code" "ToLower lower DefaultLang \<noteq> code"
    using assms Bundle_upper_unreachable by (auto simp: DefaultLang_def)
  then show ?thesis by (auto simp: Bundle_T_Some translated_update)
qed

end
