(* ===== verification/Sdk_App.thy ===== *)
theory Sdk_App
  imports Sdk_I18n Sdk_Render Webhook_Envelope
begin

text \<open>
  \<^verbatim>\<open>sdk/go/app.go\<close>: an application as a set of screens, and one turn of its dialogue.  The type of
  the application's own state is a type parameter, and the JSON codec of the stored state is a record
  of functions.  A screen's callback may assign the exported fields of its context, so it returns the
  context it leaves; what it reads from other services is part of the function.
\<close>

section \<open>Screens\<close>

record 'a Context =
  cx_Event :: Event
  cx_Turn :: int
  cx_State :: 'a
  cx_Lang :: string
  cx_notice :: string
  cx_bundle :: "Bundle option"

definition Context_Notice :: "'a Context \<Rightarrow> string" where
  "Context_Notice c = cx_notice c"

definition Context_MSISDN :: "'a Context \<Rightarrow> string" where
  "Context_MSISDN c = ev_MSISDN (cx_Event c)"

definition Context_T :: "(rune \<Rightarrow> rune) \<Rightarrow> 'a Context \<Rightarrow> string \<Rightarrow> string" where
  "Context_T lower c key = Bundle_T lower (cx_bundle c) (cx_Lang c) key"

record Action =
  ac_Next :: string
  ac_Text :: string
  ac_End :: bool

definition Goto :: "string \<Rightarrow> Action" where
  "Goto screen = \<lparr>ac_Next = screen, ac_Text = [], ac_End = False\<rparr>"

definition Stay :: "string \<Rightarrow> Action" where
  "Stay message = \<lparr>ac_Next = [], ac_Text = message, ac_End = False\<rparr>"

definition Finish :: "string \<Rightarrow> Action" where
  "Finish message = \<lparr>ac_Next = [], ac_Text = message, ac_End = True\<rparr>"

text \<open>Both callbacks are functions that may be nil.\<close>

record 'a Screen =
  sc_Name :: string
  sc_Prompt :: "('a Context \<Rightarrow> (string + string) \<times> 'a Context) option"
  sc_Handle :: "('a Context \<Rightarrow> string \<Rightarrow> (string + Action) \<times> 'a Context) option"

record 'a App =
  ap_screens :: "(string, 'a Screen) mapping"
  ap_start :: string
  ap_bundle :: "Bundle option"
  ap_DefaultLang :: string

datatype app_error =
    ScreenWithoutName
  | ScreenWithoutPrompt string
  | ScreenTwice string
  | StartNotDeclared string

fun NewApp_loop :: "'a Screen list \<Rightarrow> (string, 'a Screen) mapping \<Rightarrow> app_error + (string, 'a Screen) mapping" where
  "NewApp_loop [] screens = Inr screens"
| "NewApp_loop (s # ss) screens =
     (if sc_Name s = [] then Inl ScreenWithoutName
      else if sc_Prompt s = None then Inl (ScreenWithoutPrompt (sc_Name s))
      else if Mapping.lookup screens (sc_Name s) \<noteq> None then Inl (ScreenTwice (sc_Name s))
      else NewApp_loop ss (Mapping.update (sc_Name s) s screens))"

definition NewApp :: "string \<Rightarrow> 'a Screen list \<Rightarrow> app_error + 'a App" where
  "NewApp start screens =
     (case NewApp_loop screens Mapping.empty of
        Inl err \<Rightarrow> Inl err
      | Inr table \<Rightarrow>
          if Mapping.lookup table start = None then Inl (StartNotDeclared start)
          else Inr \<lparr>ap_screens = table, ap_start = start, ap_bundle = None, ap_DefaultLang = DefaultLang\<rparr>)"

definition WithBundle :: "Bundle \<Rightarrow> 'a App \<Rightarrow> 'a App" where
  "WithBundle b a = a\<lparr>ap_bundle := Some b\<rparr>"

section \<open>A turn\<close>

record 'a state =
  sa_Screen :: string
  sa_Lang :: string
  sa_App :: 'a

record 'a codec =
  cd_zero :: 'a
  cd_Unmarshal :: "string \<Rightarrow> string + 'a state"
  cd_Marshal :: "'a state \<Rightarrow> string + string"

text \<open>\<open>NilPrompt\<close> stands for the panic of a call of a nil callback.\<close>

datatype turn_error =
    StoredScreenGone string
  | HandleFailed string
  | UnknownScreen string string
  | NilPrompt
  | RenderFailed string string
  | EncodingState string

definition decoded_state :: "'a codec \<Rightarrow> RawMessage \<Rightarrow> 'a state" where
  "decoded_state cd stored =
     (let zero = \<lparr>sa_Screen = [], sa_Lang = [], sa_App = cd_zero cd\<rparr> in
      case stored of
        None \<Rightarrow> zero
      | Some s \<Rightarrow>
          if length s > 0 then (case cd_Unmarshal cd s of Inl _ \<Rightarrow> zero | Inr st \<Rightarrow> st) else zero)"

definition restored :: "'a codec \<Rightarrow> 'a App \<Rightarrow> RawMessage \<Rightarrow> 'a state" where
  "restored cd a stored =
     (let st = decoded_state cd stored;
          st = (if sa_Screen st = [] then st\<lparr>sa_Screen := ap_start a\<rparr> else st)
      in if sa_Lang st = [] then st\<lparr>sa_Lang := ap_DefaultLang a\<rparr> else st)"

text \<open>The context after a callback: its unexported fields are the SDK's.\<close>

definition visited :: "'a Context \<Rightarrow> 'a Context \<Rightarrow> 'a Context" where
  "visited c c' = c'\<lparr>cx_notice := cx_notice c, cx_bundle := cx_bundle c\<rparr>"

definition App_render ::
    "'a codec \<Rightarrow> 'a Context \<Rightarrow> 'a Screen \<Rightarrow> string \<Rightarrow> 'a state \<Rightarrow> turn_error + (Response \<times> RawMessage)" where
  "App_render cd c screen pre st =
     (case sc_Prompt screen of
        None \<Rightarrow> Inl NilPrompt
      | Some prompt \<Rightarrow>
          (case prompt (c\<lparr>cx_notice := pre\<rparr>) of
             (Inl err, _) \<Rightarrow> Inl (RenderFailed (sc_Name screen) err)
           | (Inr body, c') \<Rightarrow>
               let body = (if pre \<noteq> [] \<and> \<not> prefix pre body then pre @ [CHR 0x0A] @ body else body);
                   body = Shrink body;
                   st = \<lparr>sa_Screen = sc_Name screen, sa_Lang = cx_Lang c', sa_App = cx_State c'\<rparr>
               in case cd_Marshal cd st of
                    Inl err \<Rightarrow> Inl (EncodingState err)
                  | Inr encoded \<Rightarrow>
                      if sc_Handle screen = None then Inr (End body, None)
                      else Inr (Continue body, Some encoded)))"

definition Turn ::
    "(rune \<Rightarrow> rune) \<Rightarrow> 'a codec \<Rightarrow> 'a App \<Rightarrow> Event \<Rightarrow> int \<Rightarrow> RawMessage \<Rightarrow>
     turn_error + (Response \<times> RawMessage)" where
  "Turn lower cd a ev turn stored =
     (let st = restored cd a stored in
      case Mapping.lookup (ap_screens a) (sa_Screen st) of
        None \<Rightarrow> Inl (StoredScreenGone (sa_Screen st))
      | Some current \<Rightarrow>
          let c = \<lparr>cx_Event = ev, cx_Turn = turn, cx_State = sa_App st, cx_Lang = sa_Lang st,
                   cx_notice = [], cx_bundle = ap_bundle a\<rparr> in
          if ev_Phase ev = PhaseBegin \<or> length (ev_Path ev) = 0 then App_render cd c current [] st
          else case sc_Handle current of
            None \<Rightarrow> Inr (End (Context_T lower c ''session.ended''), None)
          | Some h \<Rightarrow>
              (case h c (LastInput ev) of
                 (Inl err, _) \<Rightarrow> Inl (HandleFailed err)
               | (Inr action, c') \<Rightarrow>
                   let c = visited c c' in
                   if ac_End action then
                     let body = (if ac_Text action = [] then Context_T lower c ''session.ended'' else ac_Text action)
                     in Inr (End (Shrink body), None)
                   else if ac_Next action \<noteq> [] then
                     (case Mapping.lookup (ap_screens a) (ac_Next action) of
                        None \<Rightarrow> Inl (UnknownScreen (sc_Name current) (ac_Next action))
                      | Some nxt \<Rightarrow> App_render cd c nxt (ac_Text action) (st\<lparr>sa_Screen := sc_Name nxt\<rparr>))
                   else App_render cd c current (ac_Text action) st))"

section \<open>Applications that NewApp builds\<close>

definition wf_screens :: "string \<Rightarrow> 'a Screen list \<Rightarrow> bool" where
  "wf_screens start ss \<longleftrightarrow>
     (\<forall>s \<in> set ss. sc_Name s \<noteq> [] \<and> sc_Prompt s \<noteq> None) \<and> distinct (map sc_Name ss) \<and> start \<in> sc_Name ` set ss"

definition wf_app :: "'a App \<Rightarrow> bool" where
  "wf_app a \<longleftrightarrow>
     Mapping.lookup (ap_screens a) (ap_start a) \<noteq> None \<and>
     (\<forall>n s. Mapping.lookup (ap_screens a) n = Some s \<longrightarrow> sc_Name s = n \<and> n \<noteq> [] \<and> sc_Prompt s \<noteq> None)"

lemma NewApp_loop_Inr:
  "NewApp_loop ss screens = Inr table \<longleftrightarrow>
     (\<forall>s \<in> set ss. sc_Name s \<noteq> [] \<and> sc_Prompt s \<noteq> None \<and> Mapping.lookup screens (sc_Name s) = None) \<and>
     distinct (map sc_Name ss) \<and> table = fold (\<lambda>s. Mapping.update (sc_Name s) s) ss screens"
  by (induction ss screens rule: NewApp_loop.induct) (auto simp: lookup_update')

lemma lookup_screens:
  assumes "distinct (map sc_Name ss)"
  shows "Mapping.lookup (fold (\<lambda>s. Mapping.update (sc_Name s) s) ss table) n = Some s \<longleftrightarrow>
    s \<in> set ss \<and> sc_Name s = n \<or> n \<notin> sc_Name ` set ss \<and> Mapping.lookup table n = Some s"
  using assms by (induction ss arbitrary: table) (auto simp: lookup_update')

lemma NewApp_Inr:
  "NewApp start ss = Inr a \<longleftrightarrow> wf_screens start ss \<and>
     a = \<lparr>ap_screens = fold (\<lambda>s. Mapping.update (sc_Name s) s) ss Mapping.empty, ap_start = start,
          ap_bundle = None, ap_DefaultLang = DefaultLang\<rparr>"
proof -
  have "Mapping.lookup (fold (\<lambda>s. Mapping.update (sc_Name s) s) ss Mapping.empty) start = None \<longleftrightarrow>
      start \<notin> sc_Name ` set ss" if "distinct (map sc_Name ss)"
    using lookup_screens [OF that, of Mapping.empty start] by (force simp: not_Some_eq [symmetric] lookup_empty)
  note found = this
  let ?table = "fold (\<lambda>s. Mapping.update (sc_Name s) s) ss Mapping.empty"
  let ?ok = "(\<forall>s \<in> set ss. sc_Name s \<noteq> [] \<and> sc_Prompt s \<noteq> None) \<and> distinct (map sc_Name ss)"
  have loop: "NewApp_loop ss Mapping.empty = Inr table \<longleftrightarrow> ?ok \<and> table = ?table" for table
    by (auto simp: NewApp_loop_Inr lookup_empty)
  show ?thesis
  proof (cases ?ok)
    case True
    then have "NewApp_loop ss Mapping.empty = Inr ?table" using loop by blast
    with True found show ?thesis by (auto simp: NewApp_def wf_screens_def)
  next
    case False
    then obtain e where "NewApp_loop ss Mapping.empty = Inl e" using loop by (cases "NewApp_loop ss Mapping.empty") blast+
    with False show ?thesis by (auto simp: NewApp_def wf_screens_def)
  qed
qed

lemma NewApp_screens:
  "NewApp start ss = Inr a \<Longrightarrow> Mapping.lookup (ap_screens a) n = Some s \<longleftrightarrow> s \<in> set ss \<and> sc_Name s = n"
  by (auto simp: NewApp_Inr wf_screens_def lookup_screens lookup_empty)

lemma wf_app_NewApp: "NewApp start ss = Inr a \<Longrightarrow> wf_app (a\<lparr>ap_bundle := b, ap_DefaultLang := l\<rparr>)"
  using NewApp_screens [of start ss a] by (auto simp: NewApp_Inr wf_screens_def wf_app_def lookup_screens)

section \<open>What a turn answers\<close>

text \<open>The screen that was shown, and what was stored with it.\<close>

definition shown :: "'a codec \<Rightarrow> 'a Screen \<Rightarrow> string \<Rightarrow> Response \<Rightarrow> RawMessage \<Rightarrow> bool" where
  "shown cd screen notice resp out \<longleftrightarrow>
     (\<exists>prompt c body c' text encoded.
        sc_Prompt screen = Some prompt \<and> prompt (c\<lparr>cx_notice := notice\<rparr>) = (Inr body, c') \<and>
        text = (if notice \<noteq> [] \<and> \<not> prefix notice body then notice @ [CHR 0x0A] @ body else body) \<and>
        resp_Body resp = Shrink text \<and> resp_EndSession resp = (sc_Handle screen = None) \<and>
        cd_Marshal cd \<lparr>sa_Screen = sc_Name screen, sa_Lang = cx_Lang c', sa_App = cx_State c'\<rparr> = Inr encoded \<and>
        out = (if sc_Handle screen = None then None else Some encoded))"

lemma App_render_shown:
  assumes "App_render cd c screen pre st = Inr (resp, out)"
  shows "shown cd screen pre resp out"
proof -
  from assms obtain prompt body c' where p: "sc_Prompt screen = Some prompt" "prompt (c\<lparr>cx_notice := pre\<rparr>) = (Inr body, c')"
    by (auto simp: App_render_def split: option.splits prod.splits sum.splits)
  define said where "said = (if pre \<noteq> [] \<and> \<not> prefix pre body then pre @ [CHR 0x0A] @ body else body)"
  have "App_render cd c screen pre st =
      (case cd_Marshal cd \<lparr>sa_Screen = sc_Name screen, sa_Lang = cx_Lang c', sa_App = cx_State c'\<rparr> of
         Inl err \<Rightarrow> Inl (EncodingState err)
       | Inr encoded \<Rightarrow>
           if sc_Handle screen = None then Inr (End (Shrink said), None)
           else Inr (Continue (Shrink said), Some encoded))"
    unfolding said_def App_render_def Let_def by (simp add: p)
  note render = this [symmetric, unfolded assms]
  obtain encoded where enc: "cd_Marshal cd \<lparr>sa_Screen = sc_Name screen, sa_Lang = cx_Lang c', sa_App = cx_State c'\<rparr> = Inr encoded"
    using render by (cases "cd_Marshal cd \<lparr>sa_Screen = sc_Name screen, sa_Lang = cx_Lang c', sa_App = cx_State c'\<rparr>") simp_all
  have "resp_Body resp = Shrink said \<and> resp_EndSession resp = (sc_Handle screen = None) \<and>
      out = (if sc_Handle screen = None then None else Some encoded)"
    using render by (auto simp: enc Continue_def End_def split: if_split_asm)
  with p enc show ?thesis
    unfolding shown_def said_def
    by - (rule exI [of _ prompt], rule exI [of _ c], rule exI [of _ body], rule exI [of _ c'],
      rule exI [of _ "if pre \<noteq> [] \<and> \<not> prefix pre body then pre @ [CHR 0x0A] @ body else body"],
      rule exI [of _ encoded], simp)
qed

lemma shown_simps:
  assumes "shown cd screen notice resp out"
  shows "FitsScreen (resp_Body resp)" "out = None \<longleftrightarrow> resp_EndSession resp"
    "\<exists>text. resp_Body resp = Shrink text \<and> prefix notice text"
  using assms by (auto simp: shown_def FitsScreen_Shrink split: if_splits)

lemma shown_stored:
  assumes "shown cd screen notice resp (Some encoded)"
  shows "sc_Handle screen \<noteq> None" "\<exists>st. sa_Screen st = sc_Name screen \<and> cd_Marshal cd st = Inr encoded"
  using assms state.select_convs(1) unfolding shown_def by (metis option.discI option.inject)+

lemma App_render_error:
  "App_render cd c screen pre st = Inl err \<Longrightarrow> sc_Prompt screen \<noteq> None \<Longrightarrow>
   (\<exists>e. err = RenderFailed (sc_Name screen) e) \<or> (\<exists>e. err = EncodingState e)"
  by (auto simp: App_render_def Let_def split: option.splits prod.splits sum.splits if_splits)

text \<open>The three ways a turn is answered.\<close>

lemma Turn_Inr:
  assumes "Turn lower cd a ev turn stored = Inr (resp, out)"
  obtains
    (screen) n screen notice where "Mapping.lookup (ap_screens a) n = Some screen" "shown cd screen notice resp out"
  | (finished) msg where "resp = End (Shrink msg)" "out = None"
  | (terminal) current where "Mapping.lookup (ap_screens a) (sa_Screen (restored cd a stored)) = Some current"
      "sc_Handle current = None" "resp_EndSession resp" "out = None" "ev_Phase ev \<noteq> PhaseBegin" "ev_Path ev \<noteq> []"
proof -
  let ?st = "restored cd a stored"
  let ?c = "\<lparr>cx_Event = ev, cx_Turn = turn, cx_State = sa_App ?st, cx_Lang = sa_Lang ?st, cx_notice = [], cx_bundle = ap_bundle a\<rparr>"
  obtain current where current: "Mapping.lookup (ap_screens a) (sa_Screen ?st) = Some current"
    using assms by (auto simp: Turn_def Let_def split: option.splits)
  consider (start) "App_render cd ?c current [] ?st = Inr (resp, out)"
    | (none) "ev_Phase ev \<noteq> PhaseBegin" "ev_Path ev \<noteq> []" "sc_Handle current = None"
    | (handle) h where "ev_Phase ev \<noteq> PhaseBegin" "ev_Path ev \<noteq> []" "sc_Handle current = Some h"
    using assms current by (cases "sc_Handle current") (auto simp: Turn_def Let_def split: if_splits)
  then show ?thesis
  proof cases
    case start
    then show ?thesis using screen [OF current App_render_shown] by blast
  next
    case none
    then show ?thesis using terminal [OF current] assms current by (auto simp: Turn_def Let_def End_def)
  next
    case handle
    obtain action c' where h: "h ?c (LastInput ev) = (Inr action, c')"
      using assms current handle by (auto simp: Turn_def Let_def split: sum.splits prod.splits)
    show ?thesis
    proof (cases "ac_End action")
      case True
      then show ?thesis using finished assms current handle h by (auto simp: Turn_def Let_def)
    next
      case False
      show ?thesis
      proof (cases "ac_Next action = []")
        case True
        then have "App_render cd (visited ?c c') current (ac_Text action) ?st = Inr (resp, out)"
          using assms current handle h False by (simp add: Turn_def Let_def)
        then show ?thesis using screen [OF current App_render_shown] by blast
      next
        case more: False
        then obtain nxt where "Mapping.lookup (ap_screens a) (ac_Next action) = Some nxt"
          "App_render cd (visited ?c c') nxt (ac_Text action) (?st\<lparr>sa_Screen := sc_Name nxt\<rparr>) = Inr (resp, out)"
          using assms current handle h False by (auto simp: Turn_def Let_def split: option.splits)
        then show ?thesis using screen [OF _ App_render_shown] by blast
      qed
    qed
  qed
qed

text \<open>State is stored exactly while the dialogue is open.\<close>

lemma Turn_state_open:
  assumes "Turn lower cd a ev turn stored = Inr (resp, out)"
  shows "out = None \<longleftrightarrow> resp_EndSession resp"
  by (cases rule: Turn_Inr [OF assms]) (auto simp: shown_simps End_def)

text \<open>State that cannot be decoded is no state.\<close>

lemma Turn_corrupt:
  "cd_Unmarshal cd s = Inl err \<Longrightarrow> Turn lower cd a ev turn (Some s) = Turn lower cd a ev turn None"
proof -
  assume "cd_Unmarshal cd s = Inl err"
  then have "restored cd a (Some s) = restored cd a None" by (cases s) (simp_all add: restored_def decoded_state_def Let_def)
  then show ?thesis by (simp add: Turn_def)
qed

section \<open>Dialogues\<close>

text \<open>
  The states a dialogue may bring to a turn: none, or what an earlier turn of the application returned.
  The gateway drops a state when a session ends or expires, so \<open>None\<close> may come at any point.
\<close>

inductive stored_state :: "(rune \<Rightarrow> rune) \<Rightarrow> 'a codec \<Rightarrow> 'a App \<Rightarrow> RawMessage \<Rightarrow> bool"
  for lower cd a where
    stored_none: "stored_state lower cd a None"
  | stored_turn: "stored_state lower cd a stored \<Longrightarrow> Turn lower cd a ev turn stored = Inr (resp, out) \<Longrightarrow>
      stored_state lower cd a out"

text \<open>
  What the SDK relies on of the codec: the name of a declared screen, once written, is read back,
  unless the whole state cannot be.
\<close>

definition keeps_screens :: "'a codec \<Rightarrow> 'a App \<Rightarrow> bool" where
  "keeps_screens cd a \<longleftrightarrow>
     (\<forall>st b st'. Mapping.lookup (ap_screens a) (sa_Screen st) \<noteq> None \<longrightarrow> cd_Marshal cd st = Inr b \<longrightarrow>
        cd_Unmarshal cd b = Inr st' \<longrightarrow> sa_Screen st' = sa_Screen st)"

definition takes_input :: "'a App \<Rightarrow> string \<Rightarrow> bool" where
  "takes_input a n \<longleftrightarrow> (\<exists>screen. Mapping.lookup (ap_screens a) n = Some screen \<and> sc_Handle screen \<noteq> None)"

lemma restored_screen:
  "sa_Screen (restored cd a stored) =
     (if sa_Screen (decoded_state cd stored) = [] then ap_start a else sa_Screen (decoded_state cd stored))"
  by (simp add: restored_def Let_def)

lemma decoded_screen_cases:
  "sa_Screen (decoded_state cd stored) = [] \<or>
   (\<exists>b st. stored = Some b \<and> cd_Unmarshal cd b = Inr st \<and> decoded_state cd stored = st)"
  by (cases stored) (auto simp: decoded_state_def Let_def split: sum.split)

text \<open>A dialogue never loses its place: the screen it is at is declared and takes input.\<close>

lemma stored_state_takes_input:
  assumes "stored_state lower cd a stored" "wf_app a" "takes_input a (ap_start a)" "keeps_screens cd a"
  shows "takes_input a (sa_Screen (restored cd a stored))"
  using assms
proof (induction rule: stored_state.induct)
  case stored_none
  then show ?case by (simp add: restored_screen decoded_state_def Let_def)
next
  case (stored_turn stored ev turn resp out)
  show ?case
  proof (cases out)
    case None
    then show ?thesis using stored_turn by (simp add: restored_screen decoded_state_def Let_def)
  next
    case (Some encoded)
    from Some obtain n screen notice where
      screen: "Mapping.lookup (ap_screens a) n = Some screen" "shown cd screen notice resp (Some encoded)"
      by (cases rule: Turn_Inr [OF stored_turn.hyps(2)]) auto
    have name: "sc_Name screen = n" using stored_turn.prems(1) screen(1) by (simp add: wf_app_def)
    have target: "takes_input a n" using screen(1) shown_stored [OF screen(2)] by (simp add: takes_input_def)
    obtain st where st: "sa_Screen st = n" "cd_Marshal cd st = Inr encoded"
      using shown_stored [OF screen(2)] name by blast
    from decoded_screen_cases [of cd out] show ?thesis
    proof
      assume "sa_Screen (decoded_state cd out) = []"
      then show ?thesis using stored_turn.prems(2) by (simp add: restored_screen)
    next
      assume "\<exists>b st. out = Some b \<and> cd_Unmarshal cd b = Inr st \<and> decoded_state cd out = st"
      with Some obtain st' where "cd_Unmarshal cd encoded = Inr st'" "decoded_state cd out = st'" by blast
      then have "sa_Screen (decoded_state cd out) = n"
        using stored_turn.prems(3) st screen(1) by (auto simp: keeps_screens_def)
      with target stored_turn.prems(2) show ?thesis by (simp add: restored_screen)
    qed
  qed
qed

text \<open>So a turn of a dialogue shows a screen that fits, or fails by what a screen of the application did.\<close>

lemma dialogue_turn:
  assumes "stored_state lower cd a stored" "wf_app a" "takes_input a (ap_start a)" "keeps_screens cd a"
  shows "Turn lower cd a ev turn stored = Inr (resp, out) \<Longrightarrow> FitsScreen (resp_Body resp)"
    and "Turn lower cd a ev turn stored = Inl err \<Longrightarrow>
      (\<exists>e. err = HandleFailed e) \<or> (\<exists>n m. err = UnknownScreen n m \<and> Mapping.lookup (ap_screens a) m = None) \<or>
      (\<exists>n e. err = RenderFailed n e) \<or> (\<exists>e. err = EncodingState e)"
proof -
  note input = stored_state_takes_input [OF assms]
  then obtain current where current:
    "Mapping.lookup (ap_screens a) (sa_Screen (restored cd a stored)) = Some current" "sc_Handle current \<noteq> None"
    by (auto simp: takes_input_def)
  have prompts: "sc_Prompt s \<noteq> None" if "Mapping.lookup (ap_screens a) n = Some s" for n s
    using assms(2) that by (simp add: wf_app_def)
  show "Turn lower cd a ev turn stored = Inr (resp, out) \<Longrightarrow> FitsScreen (resp_Body resp)"
    by (erule Turn_Inr) (use current in \<open>auto simp: shown_simps(1) End_def FitsScreen_Shrink\<close>)
  show "Turn lower cd a ev turn stored = Inl err \<Longrightarrow> (\<exists>e. err = HandleFailed e) \<or> (\<exists>n m. err = UnknownScreen n m \<and> Mapping.lookup (ap_screens a) m = None) \<or>
      (\<exists>n e. err = RenderFailed n e) \<or> (\<exists>e. err = EncodingState e)"
    (is "_ \<Longrightarrow> ?goal")
  proof -
    assume fails: "Turn lower cd a ev turn stored = Inl err"
    have rendered: ?goal if "App_render cd c screen pre st = Inl err" "Mapping.lookup (ap_screens a) n = Some screen"
      for c screen pre st n
      using App_render_error [OF that(1) prompts [OF that(2)]] by blast
    let ?st = "restored cd a stored"
    let ?c = "\<lparr>cx_Event = ev, cx_Turn = turn, cx_State = sa_App ?st, cx_Lang = sa_Lang ?st, cx_notice = [], cx_bundle = ap_bundle a\<rparr>"
    obtain h where h: "sc_Handle current = Some h" using current by blast
    show ?goal
    proof (cases "ev_Phase ev = PhaseBegin \<or> length (ev_Path ev) = 0")
      case True
      then have "App_render cd ?c current [] ?st = Inl err" using fails current by (simp add: Turn_def Let_def)
      then show ?thesis using rendered current by blast
    next
      case input: False
      obtain r c' where r: "h ?c (LastInput ev) = (r, c')" by (cases "h ?c (LastInput ev)")
      show ?thesis
      proof (cases r)
        case (Inl e)
        then have "err = HandleFailed e" using fails current input h r by (simp add: Turn_def Let_def)
        then show ?thesis by blast
      next
        case (Inr action)
        note turn = fails [unfolded Turn_def Let_def]
        have "\<not> ac_End action" using turn current input h r Inr by (auto split: if_splits)
        then consider "App_render cd (visited ?c c') current (ac_Text action) ?st = Inl err"
          | "Mapping.lookup (ap_screens a) (ac_Next action) = None" "err = UnknownScreen (sc_Name current) (ac_Next action)"
          | nxt where "Mapping.lookup (ap_screens a) (ac_Next action) = Some nxt"
              "App_render cd (visited ?c c') nxt (ac_Text action) (?st\<lparr>sa_Screen := sc_Name nxt\<rparr>) = Inl err"
          using turn current input h r Inr
          by (cases "ac_Next action = []"; cases "Mapping.lookup (ap_screens a) (ac_Next action)") simp_all
        then show ?thesis by cases (use rendered current in blast)+
      qed
    qed
  qed
qed

text \<open>A message above a repeated screen: \<open>Stay\<close> shows it first, and keeps the place.\<close>

definition turn_context :: "'a App \<Rightarrow> Event \<Rightarrow> int \<Rightarrow> 'a state \<Rightarrow> 'a Context" where
  "turn_context a ev turn st =
     \<lparr>cx_Event = ev, cx_Turn = turn, cx_State = sa_App st, cx_Lang = sa_Lang st, cx_notice = [], cx_bundle = ap_bundle a\<rparr>"

lemma Turn_Stay:
  assumes "Mapping.lookup (ap_screens a) (sa_Screen (restored cd a stored)) = Some current"
    "sc_Handle current = Some h" "ev_Phase ev \<noteq> PhaseBegin" "ev_Path ev \<noteq> []"
    "h (turn_context a ev turn (restored cd a stored)) (LastInput ev) = (Inr (Stay message), c')"
    "Turn lower cd a ev turn stored = Inr (resp, out)"
  shows "shown cd current message resp out"
proof -
  let ?st = "restored cd a stored"
  have "App_render cd (visited (turn_context a ev turn ?st) c') current message ?st = Inr (resp, out)"
    using assms by (simp add: Turn_def Let_def Stay_def turn_context_def)
  then show ?thesis by (rule App_render_shown)
qed

inductive_cases stored_stateE: "stored_state lower cd a (Some b)"

section \<open>Applications whose callbacks never fail\<close>

text \<open>
  An application serves the states that satisfy \<open>P\<close> when its callbacks succeed on them, leave a state
  that satisfies \<open>P\<close>, and go to declared screens only.
\<close>

definition serves :: "('a \<Rightarrow> bool) \<Rightarrow> 'a App \<Rightarrow> bool" where
  "serves P a \<longleftrightarrow>
     (\<forall>n screen. Mapping.lookup (ap_screens a) n = Some screen \<longrightarrow>
        (\<forall>prompt c. sc_Prompt screen = Some prompt \<longrightarrow> P (cx_State c) \<longrightarrow>
           (\<exists>body c'. prompt c = (Inr body, c') \<and> P (cx_State c'))) \<and>
        (\<forall>h c inp. sc_Handle screen = Some h \<longrightarrow> P (cx_State c) \<longrightarrow>
           (\<exists>action c'. h c inp = (Inr action, c') \<and> P (cx_State c') \<and>
              (ac_Next action = [] \<or> Mapping.lookup (ap_screens a) (ac_Next action) \<noteq> None))))"

text \<open>What such an application needs of the codec.\<close>

definition codec_keeps :: "('a \<Rightarrow> bool) \<Rightarrow> 'a codec \<Rightarrow> bool" where
  "codec_keeps P cd \<longleftrightarrow>
     P (cd_zero cd) \<and>
     (\<forall>st. P (sa_App st) \<longrightarrow> (\<exists>b. cd_Marshal cd st = Inr b \<and>
        (\<forall>st'. cd_Unmarshal cd b = Inr st' \<longrightarrow> P (sa_App st'))))"

definition answers_turn :: "('a \<Rightarrow> bool) \<Rightarrow> 'a codec \<Rightarrow> turn_error + (Response \<times> RawMessage) \<Rightarrow> bool" where
  "answers_turn P cd result \<longleftrightarrow>
     (\<exists>resp out. result = Inr (resp, out) \<and>
        (\<forall>b. out = Some b \<longrightarrow> (\<forall>st. cd_Unmarshal cd b = Inr st \<longrightarrow> P (sa_App st))))"

lemma App_render_answers:
  assumes "serves P a" "codec_keeps P cd" "Mapping.lookup (ap_screens a) n = Some screen"
    "sc_Prompt screen \<noteq> None" "P (cx_State c)"
  shows "answers_turn P cd (App_render cd c screen pre st)"
proof -
  obtain prompt where prompt: "sc_Prompt screen = Some prompt" using assms(4) by blast
  have "P (cx_State (c\<lparr>cx_notice := pre\<rparr>))" using assms(5) by simp
  with assms(1,3) prompt obtain body c' where p: "prompt (c\<lparr>cx_notice := pre\<rparr>) = (Inr body, c')" "P (cx_State c')"
    unfolding serves_def by blast
  obtain b where "cd_Marshal cd \<lparr>sa_Screen = sc_Name screen, sa_Lang = cx_Lang c', sa_App = cx_State c'\<rparr> = Inr b"
    "\<forall>st'. cd_Unmarshal cd b = Inr st' \<longrightarrow> P (sa_App st')"
    using assms(2) p(2) unfolding codec_keeps_def by (metis state.select_convs(3))
  with prompt p show ?thesis by (simp add: App_render_def answers_turn_def Let_def)
qed

lemma Turn_answers:
  assumes "serves P a" "codec_keeps P cd" "wf_app a" "P (sa_App (restored cd a stored))"
    "Mapping.lookup (ap_screens a) (sa_Screen (restored cd a stored)) \<noteq> None"
  shows "answers_turn P cd (Turn lower cd a ev turn stored)"
proof -
  let ?st = "restored cd a stored"
  let ?c = "\<lparr>cx_Event = ev, cx_Turn = turn, cx_State = sa_App ?st, cx_Lang = sa_Lang ?st, cx_notice = [], cx_bundle = ap_bundle a\<rparr>"
  obtain current where current: "Mapping.lookup (ap_screens a) (sa_Screen ?st) = Some current" using assms(5) by blast
  have prompts: "sc_Prompt s \<noteq> None" if "Mapping.lookup (ap_screens a) n = Some s" for n s
    using assms(3) that by (simp add: wf_app_def)
  have rendered: "answers_turn P cd (App_render cd c s pre st)"
    if "Mapping.lookup (ap_screens a) n = Some s" "P (cx_State c)" for c s pre st n
    by (rule App_render_answers [OF assms(1,2) that(1) prompts [OF that(1)] that(2)])
  show ?thesis
  proof (cases "ev_Phase ev = PhaseBegin \<or> length (ev_Path ev) = 0")
    case True
    then have "Turn lower cd a ev turn stored = App_render cd ?c current [] ?st"
      using current by (simp add: Turn_def Let_def)
    then show ?thesis using rendered [OF current, of ?c] assms(4) by simp
  next
    case inp: False
    show ?thesis
    proof (cases "sc_Handle current")
      case None
      then have "Turn lower cd a ev turn stored = Inr (End (Context_T lower ?c ''session.ended''), None)"
        using current inp by (simp add: Turn_def Let_def)
      then show ?thesis by (simp add: answers_turn_def)
    next
      case (Some h)
      have "P (cx_State ?c)" using assms(4) by simp
      with assms(1) current Some obtain action c' where h: "h ?c (LastInput ev) = (Inr action, c')" "P (cx_State c')"
        "ac_Next action = [] \<or> Mapping.lookup (ap_screens a) (ac_Next action) \<noteq> None"
        unfolding serves_def by blast
      have "P (cx_State (visited ?c c'))" using h(2) by (simp add: visited_def)
      note rendered' = rendered [OF _ this]
      have "ev_Phase ev \<noteq> PhaseBegin" "ev_Path ev \<noteq> []" using inp by auto
      note turn = Turn_def [of lower cd a ev turn stored] current this Some h(1) Let_def
      show ?thesis
      proof (cases "ac_End action")
        case True
        then show ?thesis by (simp add: turn answers_turn_def)
      next
        case False
        show ?thesis
        proof (cases "ac_Next action = []")
          case True
          then show ?thesis using False rendered' [OF current] by (simp add: turn)
        next
          case more: False
          then obtain nxt where "Mapping.lookup (ap_screens a) (ac_Next action) = Some nxt" using h(3) by blast
          then show ?thesis using False more rendered' by (simp add: turn)
        qed
      qed
    qed
  qed
qed

lemma restored_state:
  "sa_App (restored cd a None) = cd_zero cd"
  "P (cd_zero cd) \<Longrightarrow> (\<And>st. cd_Unmarshal cd b = Inr st \<Longrightarrow> P (sa_App st)) \<Longrightarrow> P (sa_App (restored cd a (Some b)))"
  by (auto simp: restored_def decoded_state_def Let_def split: sum.splits)

text \<open>So every turn of its dialogues is answered, with a screen that fits.\<close>

lemma dialogue_answers:
  assumes "stored_state lower cd a stored" "wf_app a" "takes_input a (ap_start a)" "keeps_screens cd a"
    "serves P a" "codec_keeps P cd"
  shows "P (sa_App (restored cd a stored))"
    and "\<exists>resp out. Turn lower cd a ev turn stored = Inr (resp, out) \<and> FitsScreen (resp_Body resp)"
proof -
  have declared: "Mapping.lookup (ap_screens a) (sa_Screen (restored cd a s)) \<noteq> None" if "stored_state lower cd a s" for s
    using stored_state_takes_input [OF that assms(2-4)] by (auto simp: takes_input_def)
  have zero: "P (cd_zero cd)" using assms(6) by (simp add: codec_keeps_def)
  show holds: "P (sa_App (restored cd a stored))"
    using assms(1)
  proof (induction rule: stored_state.induct)
    case stored_none
    show ?case by (simp add: restored_state zero)
  next
    case (stored_turn stored ev turn resp out)
    have "answers_turn P cd (Turn lower cd a ev turn stored)"
      by (rule Turn_answers [OF assms(5,6,2) stored_turn.IH declared [OF stored_turn.hyps(1)]])
    then show ?case
      using stored_turn.hyps(2) by (cases out) (auto simp: answers_turn_def restored_state zero)
  qed
  have "answers_turn P cd (Turn lower cd a ev turn stored)"
    by (rule Turn_answers [OF assms(5,6,2) holds declared [OF assms(1)]])
  then show "\<exists>resp out. Turn lower cd a ev turn stored = Inr (resp, out) \<and> FitsScreen (resp_Body resp)"
    using dialogue_turn(1) [OF assms(1-4)] by (auto simp: answers_turn_def)
qed

end
