(* ===== verification/Sdk_Handler.thy ===== *)
theory Sdk_Handler
  imports Sdk_App Webhook_Sign
begin

text \<open>
  \<^verbatim>\<open>sdk/go/handler.go\<close>: an application behind the gateway's webhook protocol.  The libraries the
  handler calls, HMAC and the JSON codecs of the envelope and of the stored state, are a record of
  functions.
\<close>

section \<open>The code\<close>

definition maxRequestBytes :: nat where
  "maxRequestBytes = 256 * 1024"

record 'a libraries =
  lb_lower :: "rune \<Rightarrow> rune"
  lb_mac :: "string \<Rightarrow> string \<Rightarrow> string"
  lb_codec :: "'a codec"
  lb_Unmarshal :: "string \<Rightarrow> string + Request"
  lb_Encode :: "Reply \<Rightarrow> string + string"

record 'a Handler =
  hd_app :: "'a App"
  hd_secret :: string

definition NewHandler :: "'a App \<Rightarrow> string \<Rightarrow> 'a Handler" where
  "NewHandler app secret = \<lparr>hd_app = app, hd_secret = secret\<rparr>"

definition turn_reply :: "Response \<times> RawMessage \<Rightarrow> Reply" where
  "turn_reply answer = \<lparr>rp_Response = fst answer, rp_State = snd answer, rp_ClearState = (snd answer = None)\<rparr>"

definition Handler_ServeHTTP :: "'a libraries \<Rightarrow> 'a Handler \<Rightarrow> time \<Rightarrow> http_request \<Rightarrow> http_writer" where
  "Handler_ServeHTTP lb h now r =
     (let w = new_writer in
      if hr_Method r \<noteq> ''POST'' then http_Error ''method not allowed'' 405 w
      else case ReadAll_limited (maxRequestBytes + 1) (hr_Body r) (hr_BodyError r) of
        Inl err \<Rightarrow> http_Error ''bad request'' 400 w
      | Inr body \<Rightarrow>
          if length body > maxRequestBytes then http_Error ''request too large'' 413 w
          else if Verify (lb_mac lb) (hr_Header r) (hd_secret h) body now DefaultTolerance \<noteq> None
          then http_Error ''forbidden'' 403 w
          else case lb_Unmarshal lb body of
            Inl err \<Rightarrow> http_Error ''bad request'' 400 w
          | Inr req \<Rightarrow>
              if rq_Version req \<noteq> [] \<and> rq_Version req \<noteq> Version
              then http_Error ''unsupported protocol version'' 400 w
              else case Turn (lb_lower lb) (lb_codec lb) (hd_app h) (rq_Event req) (rq_Turn req)
                     (NormaliseState (rq_State req)) of
                Inl err \<Rightarrow> http_Error ''internal error'' 500 w
              | Inr answer \<Rightarrow>
                  let w = set_header ''Content-Type'' ''application/json'' w in
                  (case lb_Encode lb (turn_reply answer) of
                     Inl err \<Rightarrow> w
                   | Inr json \<Rightarrow> Write (json @ [CHR 0x0A]) w))"

section \<open>What is served\<close>

text \<open>A request that is let in: a complete, signed POST within the size that decodes, of a known version.\<close>

definition admitted :: "'a libraries \<Rightarrow> 'a Handler \<Rightarrow> time \<Rightarrow> http_request \<Rightarrow> Request option" where
  "admitted lb h now r =
     (if hr_Method r = ''POST'' \<and> length (hr_Body r) \<le> maxRequestBytes \<and> hr_BodyError r = None \<and>
         Verify (lb_mac lb) (hr_Header r) (hd_secret h) (hr_Body r) now DefaultTolerance = None
      then (case lb_Unmarshal lb (hr_Body r) of
              Inl _ \<Rightarrow> None
            | Inr req \<Rightarrow> if rq_Version req = [] \<or> rq_Version req = Version then Some req else None)
      else None)"

lemma ReadAll_limited_exact: "length body \<le> n \<Longrightarrow> ReadAll_limited (n + 1) body None = Inr body"
  by (simp add: ReadAll_limited_def)

lemma ServeHTTP_admitted:
  assumes "admitted lb h now r = Some req"
  shows "Handler_ServeHTTP lb h now r =
    (case Turn (lb_lower lb) (lb_codec lb) (hd_app h) (rq_Event req) (rq_Turn req) (NormaliseState (rq_State req)) of
       Inl err \<Rightarrow> http_Error ''internal error'' 500 new_writer
     | Inr answer \<Rightarrow>
         (case lb_Encode lb (turn_reply answer) of
            Inl err \<Rightarrow> set_header ''Content-Type'' ''application/json'' new_writer
          | Inr json \<Rightarrow> Write (json @ [CHR 0x0A]) (set_header ''Content-Type'' ''application/json'' new_writer)))"
proof -
  from assms have "hr_Method r = ''POST''" "length (hr_Body r) \<le> maxRequestBytes" "hr_BodyError r = None"
    "Verify (lb_mac lb) (hr_Header r) (hd_secret h) (hr_Body r) now DefaultTolerance = None"
    "lb_Unmarshal lb (hr_Body r) = Inr req" "rq_Version req = [] \<or> rq_Version req = Version"
    by (auto simp: admitted_def split: if_splits sum.splits)
  then show ?thesis
    using ReadAll_limited_exact [of "hr_Body r" maxRequestBytes]
    unfolding Handler_ServeHTTP_def Let_def by (auto split: sum.split)
qed

text \<open>Everything else is refused with one of four statuses, whatever the application is.\<close>

lemma ServeHTTP_refused:
  assumes "admitted lb h now r = None"
  shows "\<exists>msg code. Handler_ServeHTTP lb h now r = http_Error msg code new_writer \<and> code \<in> {400, 403, 405, 413} \<and>
    (hr_Method r = ''POST'' \<longrightarrow> length (hr_Body r) \<le> maxRequestBytes \<longrightarrow> hr_BodyError r = None \<longrightarrow>
     Verify (lb_mac lb) (hr_Header r) (hd_secret h) (hr_Body r) now DefaultTolerance \<noteq> None \<longrightarrow> code = 403)"
proof (cases "hr_Method r = ''POST''")
  case True
  show ?thesis
  proof (cases "ReadAll_limited (maxRequestBytes + 1) (hr_Body r) (hr_BodyError r)")
    case (Inl e)
    then have "hr_BodyError r \<noteq> None" by (auto simp: ReadAll_limited_def split: if_splits option.splits)
    with True Inl show ?thesis
      by - (rule exI [of _ "''bad request''"], rule exI [of _ 400], auto simp: Handler_ServeHTTP_def)
  next
    case (Inr body)
    show ?thesis
    proof (cases "length body \<le> maxRequestBytes")
      case False
      moreover have "maxRequestBytes < length (hr_Body r)"
        using Inr False by (auto simp: ReadAll_limited_def split: if_splits option.splits)
      ultimately show ?thesis using True Inr
        by - (rule exI [of _ "''request too large''"], rule exI [of _ 413], simp add: Handler_ServeHTTP_def)
    next
      case small: True
      then have "body = hr_Body r" "hr_BodyError r = None"
        using ReadAll_limited_within [of maxRequestBytes "hr_Body r" "hr_BodyError r" body] Inr by simp_all
      with assms True Inr small show ?thesis
        by (auto simp: Handler_ServeHTTP_def admitted_def split: if_splits sum.splits)
    qed
  qed
qed (auto simp: Handler_ServeHTTP_def)

lemma admitted_app: "admitted lb (h\<lparr>hd_app := a\<rparr>) now r = admitted lb h now r"
  by (simp add: admitted_def)

lemma refused_app:
  "admitted lb h now r = None \<Longrightarrow> Handler_ServeHTTP lb (h\<lparr>hd_app := a\<rparr>) now r = Handler_ServeHTTP lb h now r"
  by (auto simp: Handler_ServeHTTP_def admitted_def Let_def ReadAll_limited_def split: sum.splits if_splits option.splits)

end
