(* ===== verification/Gateway_Sdk.thy ===== *)
theory Gateway_Sdk
  imports Inbound_Isolation Sdk_Handler
begin

text \<open>
  The gateway and an application built with the SDK, joined by the webhook protocol: a delivery of the
  dispatcher arrives at the SDK's handler, and the gateway keeps exactly the state the application's
  turn returned.  What the HTTP libraries carry between the two processes is written out in
  \<open>posted\<close> and \<open>answered\<close>.
\<close>

definition posted :: "outbound \<Rightarrow> http_request" where
  "posted req =
     \<lparr>hr_Method = ''POST'', hr_Header = ob_Header req, hr_RemoteAddr = [], hr_Body = ob_Body req, hr_BodyError = None\<rparr>"

text \<open>A handler that wrote nothing answers 200 with an empty body.\<close>

definition answered :: "http_writer \<Rightarrow> http_response" where
  "answered w =
     \<lparr>hp_StatusCode = (case hw_Status w of None \<Rightarrow> 200 | Some code \<Rightarrow> code), hp_Status = [],
      hp_Body = hw_Body w, hp_ReadError = None\<rparr>"

text \<open>
  The dispatcher's client, while the handler's clock reads \<open>clock\<close>, reaches this handler, which knows the
  tenant's secret.
\<close>

definition connected :: "Dispatcher \<Rightarrow> 'a libraries \<Rightarrow> 'a Handler \<Rightarrow> Tenant \<Rightarrow> time \<Rightarrow> bool" where
  "connected d lb h t clock \<longleftrightarrow>
     dp_mac d = lb_mac lb \<and> dp_RequestError d (tn_WebhookURL t) = None \<and>
     hd_secret h = tn_Secret t \<and> tn_Secret t \<noteq> [] \<and>
     (\<forall>req. dp_Do d req = Inr (answered (Handler_ServeHTTP lb h clock (posted req))))"

text \<open>
  The two codecs agree on a request and on its reply: what one side writes the other reads, within the
  sizes both allow.
\<close>

definition codecs_agree :: "Dispatcher \<Rightarrow> 'a libraries \<Rightarrow> Request \<Rightarrow> Reply \<Rightarrow> bool" where
  "codecs_agree d lb payload reply \<longleftrightarrow>
     (\<exists>body json. dp_Marshal d (delivered_payload payload) = Inr body \<and> length body \<le> maxRequestBytes \<and>
        lb_Unmarshal lb body = Inr (delivered_payload payload) \<and>
        lb_Encode lb reply = Inr json \<and> length json < maxTenantResponseBytes \<and>
        dp_Unmarshal d (json @ [CHR 0x0A]) = Inr reply)"

lemma posted_admitted:
  assumes "connected d lb h t clock" "lb_Unmarshal lb body = Inr req" "length body \<le> maxRequestBytes"
    "rq_Version req = Version" "representable now" "\<bar>Time_Sub clock (now div Second * Second)\<bar> \<le> DefaultTolerance"
  shows "admitted lb h clock (posted (build_request d now t body)) = Some req"
proof -
  have "Verify (lb_mac lb) (ob_Header (build_request d now t body)) (hd_secret h) body clock DefaultTolerance = None"
    using Verify_build_request [of t now clock DefaultTolerance d body] assms(1,5,6)
    by (simp add: connected_def DefaultTolerance_def)
  then show ?thesis using assms by (simp add: admitted_def posted_def build_request_def Let_def)
qed

text \<open>A delivery to an application returns exactly its turn.\<close>

lemma Deliver_turn:
  assumes "connected d lb h t clock" "codecs_agree d lb payload (turn_reply (resp, out))"
    "representable now" "\<bar>Time_Sub clock (now div Second * Second)\<bar> \<le> DefaultTolerance"
    and turn: "Turn (lb_lower lb) (lb_codec lb) (hd_app h) ((rq_Event payload)\<lparr>ev_Raw := []\<rparr>) (rq_Turn payload)
      (NormaliseState (rq_State payload)) = Inr (resp, out)"
    and "FitsScreen (resp_Body resp)" "NormaliseState out = out"
  shows "fst (Deliver d now t payload) = Inr (turn_reply (resp, out))"
proof -
  let ?req = "delivered_payload payload"
  from assms(2) obtain body json where codec: "dp_Marshal d ?req = Inr body" "length body \<le> maxRequestBytes"
    "lb_Unmarshal lb body = Inr ?req" "lb_Encode lb (turn_reply (resp, out)) = Inr json"
    "length json < maxTenantResponseBytes" "dp_Unmarshal d (json @ [CHR 0x0A]) = Inr (turn_reply (resp, out))"
    by (auto simp: codecs_agree_def)
  have req: "rq_Version ?req = Version" "rq_Event ?req = (rq_Event payload)\<lparr>ev_Raw := []\<rparr>"
    "rq_Turn ?req = rq_Turn payload" "rq_State ?req = rq_State payload"
    by (simp_all add: delivered_payload_def)
  let ?w = "Handler_ServeHTTP lb h clock (posted (build_request d now t body))"
  have "?w = Write (json @ [CHR 0x0A]) (set_header ''Content-Type'' ''application/json'' new_writer)"
    using ServeHTTP_admitted [OF posted_admitted [OF assms(1) codec(3,2) req(1) assms(3,4)]] turn codec(4) by (simp add: req)
  then have answer: "answered ?w = \<lparr>hp_StatusCode = 200, hp_Status = [], hp_Body = json @ [CHR 0x0A], hp_ReadError = None\<rparr>"
    by (simp add: answered_def)
  have sent: "dp_Do d (build_request d now t body) = Inr (answered ?w)" "dp_RequestError d (tn_WebhookURL t) = None"
    using assms(1) by (simp_all add: connected_def)
  have "ReadAll_limited (maxTenantResponseBytes + 1) (json @ [CHR 0x0A]) None = Inr (json @ [CHR 0x0A])"
    using codec(5) by (simp add: ReadAll_limited_def)
  moreover have "Response_Validate resp = None" using assms(6) by (simp add: Response_Validate_None)
  moreover have "(turn_reply (resp, out))\<lparr>rp_State := NormaliseState out\<rparr> = turn_reply (resp, out)"
    using assms(7) by (simp add: turn_reply_def)
  ultimately have "decode_reply d t (answered ?w) = Inr (turn_reply (resp, out))"
    using codec(5,6) unfolding answer decode_reply_def by (simp add: Let_def) (simp add: turn_reply_def)
  then show ?thesis using codec(1) sent by (simp add: Deliver_def Let_def)
qed

section \<open>Conversations\<close>

text \<open>
  The specification: an application run on its own, each turn given the state the last one returned.
  After a dialogue has ended the next event starts another.
\<close>

fun app_run ::
    "'a libraries \<Rightarrow> 'a App \<Rightarrow> Event list \<Rightarrow> int \<Rightarrow> RawMessage \<Rightarrow> (turn_error + Response) list" where
  "app_run lb a [] n st = []"
| "app_run lb a (ev # evs) n st =
     (case Turn (lb_lower lb) (lb_codec lb) a ev n (NormaliseState st) of
        Inl err \<Rightarrow> [Inl err]
      | Inr (resp, out) \<Rightarrow> Inr resp # app_run lb a evs (if resp_EndSession resp then 1 else n + 1) out)"

text \<open>
  The implementation: the events of one session, each handled by the gateway.  A step has the instants of the
  gateway's clock, its dispatcher as the wire is then, the clock of the application and the event.
\<close>

fun gateway_run ::
    "'s Store \<Rightarrow> Router \<Rightarrow> (instants \<times> Dispatcher \<times> time \<times> Event) list \<Rightarrow> 's \<Rightarrow> (handle_error + Response) list" where
  "gateway_run store router [] s = []"
| "gateway_run store router ((i, d, clock, ev) # steps) s =
     (case handle store router d i ev s of (result, s', _) \<Rightarrow> result # gateway_run store router steps s')"

text \<open>The event as the application sees it: without the tenant's prefix and the network's raw bytes.\<close>

definition routed_to :: "Tenant \<Rightarrow> Event \<Rightarrow> Event" where
  "routed_to t ev = ev\<lparr>ev_Path := drop (length (tn_Prefix t)) (ev_Path ev), ev_Raw := []\<rparr>"

definition before_deadline :: "time \<Rightarrow> time option \<Rightarrow> bool" where
  "before_deadline now deadline = (case deadline of None \<Rightarrow> True | Some t \<Rightarrow> now < t)"

lemma before_deadline_simps [simp]: "before_deadline now None" "before_deadline now (Some t) \<longleftrightarrow> now < t"
  by (simp_all add: before_deadline_def)

text \<open>
  What a conversation needs of its surroundings at each step: the event is one of the session and comes
  before the session expires, it is routed to the tenant whose application this is, the request and the
  reply are carried, and the application answers.
\<close>

definition step_carried ::
    "'a libraries \<Rightarrow> 'a Handler \<Rightarrow> Tenant \<Rightarrow> Router \<Rightarrow> Key \<Rightarrow> string \<Rightarrow> time option \<Rightarrow> int \<Rightarrow> RawMessage \<Rightarrow>
     instants \<times> Dispatcher \<times> time \<times> Event \<Rightarrow> Response \<Rightarrow> RawMessage \<Rightarrow> bool" where
  "step_carried lb h t router k msisdn deadline n st step resp out \<longleftrightarrow>
     (case step of (i, d, clock, ev) \<Rightarrow>
        let routed = ev\<lparr>ev_Path := drop (length (tn_Prefix t)) (ev_Path ev)\<rparr> in
        \<not> Phase_Terminal (ev_Phase ev) \<and> event_key ev = k \<and> ev_MSISDN ev = msisdn \<and> before_deadline (at_Load i) deadline \<and>
        Route router ev = Inr (t, routed) \<and> connected d lb h t clock \<and>
        codecs_agree d lb \<lparr>rq_Version = [], rq_Event = routed, rq_Turn = n, rq_State = st\<rparr> (turn_reply (resp, out)) \<and>
        representable (at_Deliver i) \<and> \<bar>Time_Sub clock (at_Deliver i div Second * Second)\<bar> \<le> DefaultTolerance \<and>
        Turn (lb_lower lb) (lb_codec lb) (hd_app h) (routed\<lparr>ev_Raw := []\<rparr>) n (NormaliseState st) = Inr (resp, out) \<and>
        FitsScreen (resp_Body resp) \<and> NormaliseState out = out)"

fun carried ::
    "'a libraries \<Rightarrow> 'a Handler \<Rightarrow> Tenant \<Rightarrow> Router \<Rightarrow> Key \<Rightarrow> string \<Rightarrow> duration \<Rightarrow> time option \<Rightarrow> int \<Rightarrow>
     RawMessage \<Rightarrow> (instants \<times> Dispatcher \<times> time \<times> Event) list \<Rightarrow> bool" where
  "carried lb h t router k msisdn life deadline n st [] \<longleftrightarrow> True"
| "carried lb h t router k msisdn life deadline n st (step # steps) \<longleftrightarrow>
     (\<exists>resp out. step_carried lb h t router k msisdn deadline n st step resp out \<and>
        carried lb h t router k msisdn life (Some (at_Save (fst step) + life))
          (if resp_EndSession resp then 1 else n + 1) out steps)"

context session_store
begin

text \<open>
  A turn of the gateway over an application: the subscriber sees the application's screen, and the store
  holds the state the application returned, or nothing once the dialogue has ended.
\<close>

lemma gateway_turn:
  fixes store :: "'s Store"
  defines "store \<equiv> store_of load save delete"
  assumes route: "\<not> Phase_Terminal (ev_Phase ev)" "Route router ev = Inr (t, routed)"
    and sess: "sess = enter_tenant t (load_session store (at_Load i) ev s)"
    and wire: "connected d lb h t clock" "codecs_agree d lb (turn_request routed sess) (turn_reply (resp, out))"
      "representable (at_Deliver i)" "\<bar>Time_Sub clock (at_Deliver i div Second * Second)\<bar> \<le> DefaultTolerance"
    and turn: "Turn (lb_lower lb) (lb_codec lb) (hd_app h) (routed\<lparr>ev_Raw := []\<rparr>) (se_Turn sess)
      (NormaliseState (se_State sess)) = Inr (resp, out)"
    and fits: "FitsScreen (resp_Body resp)" "NormaliseState out = out"
    and ok: "fst (save (at_Save i) (apply_reply (turn_reply (resp, out)) sess) s) = None" "fst (delete (event_key ev) s) = None"
  obtains ex s' where "handle store router d i ev s = (Inr resp, s', Some ex)"
    "resp_EndSession resp \<Longrightarrow> s' = snd (delete (event_key ev) s)"
    "\<not> resp_EndSession resp \<Longrightarrow> save (at_Save i) (sess\<lparr>se_State := out\<rparr>) s = (None, s')"
proof -
  have reply: "fst (Deliver d (at_Deliver i) t (turn_request routed sess)) = Inr (turn_reply (resp, out))"
    by (rule Deliver_turn [OF wire _ fits]) (use turn in \<open>simp add: turn_request_def\<close>)
  have open_iff: "out = None \<longleftrightarrow> resp_EndSession resp" by (rule Turn_state_open [OF turn])
  have kept_state: "\<not> resp_EndSession resp \<Longrightarrow> apply_reply (turn_reply (resp, out)) sess = sess\<lparr>se_State := out\<rparr>"
    using open_iff by (simp add: apply_reply_def turn_reply_def)
  have resp: "rp_Response (turn_reply (resp, out)) = resp" by (simp add: turn_reply_def)
  show thesis
  proof (cases rule: handle_cases [of ev store router d i s])
    case terminal
    then show thesis using route by simp
  next
    case (unrouted err)
    then show thesis using route by simp
  next
    case (failed target routed' sess' ex err)
    then show thesis using route sess reply by simp
  next
    case (ended target routed' sess' ex reply')
    then show thesis using that [of "snd (delete (event_key ev) s)" ex] route sess reply resp by (simp add: store_def)
  next
    case (unsaved target routed' sess' ex reply' err s')
    then show thesis using ok(1) route sess reply by (simp add: store_def)
  next
    case (saved target routed' sess' ex reply' s')
    then have "reply' = turn_reply (resp, out)" "sess' = sess" using route sess reply by simp_all
    with saved show thesis using that [of s' ex] kept_state resp by (simp add: store_def)
  qed
qed

text \<open>The subscriber is at this turn of a dialogue, with this state, until the deadline.\<close>

definition place :: "'s \<Rightarrow> Tenant \<Rightarrow> Key \<Rightarrow> string \<Rightarrow> time option \<Rightarrow> int \<Rightarrow> RawMessage \<Rightarrow> bool" where
  "place s t k msisdn deadline n st \<longleftrightarrow>
     (\<forall>ev now. event_key ev = k \<longrightarrow> ev_MSISDN ev = msisdn \<longrightarrow> before_deadline now deadline \<longrightarrow>
        se_Turn (enter_tenant t (load_session (store_of load save delete) now ev s)) = n \<and>
        se_State (enter_tenant t (load_session (store_of load save delete) now ev s)) = st)"

lemma place_none:
  assumes "\<And>now. live now s k = None"
  shows "place s t k msisdn deadline 1 None"
proof -
  have "load_session (store_of load save delete) now ev s = fresh_session ev" if "event_key ev = k" for now ev
    using assms that by (simp add: load_session_live)
  then show ?thesis using enter_tenant_same [of "fresh_session _" t] by (simp add: place_def)
qed

lemma place_deleted:
  assumes "delete k s = (None, s')" "Key_Validate k = None"
  shows "place s' t k msisdn deadline 1 None"
  by (rule place_none) (use live_delete [OF assms(1,2)] assms(2) in simp)

lemma place_saved:
  assumes "save now sess s = (None, s')" "Key_String (se_Key sess) = Key_String k" "Key_Validate k = None"
    "se_MSISDN sess = msisdn" "se_Tenant sess = tn_Name t"
  shows "place s' t k msisdn (Some (now + ttl s)) (se_Turn sess + 1) (se_State sess)"
  unfolding place_def
proof (intro allI impI)
  fix ev later
  assume ev: "event_key ev = k" "ev_MSISDN ev = msisdn" "before_deadline later (Some (now + ttl s))"
  then have "live later s' (event_key ev) = Some (stamp now sess)"
    using live_save [OF assms(1), of "event_key ev" later] assms(2,3) by simp
  then have "load_session (store_of load save delete) later ev s' = stamp now sess"
    using assms(4) ev(2) by (simp add: load_session_live)
  then show "se_Turn (enter_tenant t (load_session (store_of load save delete) later ev s')) = se_Turn sess + 1 \<and>
      se_State (enter_tenant t (load_session (store_of load save delete) later ev s')) = se_State sess"
    using enter_tenant_same [of "stamp now sess" t] assms(5) by simp
qed

definition reliable :: bool where
  "reliable \<longleftrightarrow> (\<forall>now x s. Key_Validate (se_Key x) = None \<longrightarrow> fst (save now x s) = None) \<and>
     (\<forall>k s. fst (delete k s) = None)"

text \<open>One step of a conversation is one turn of the application.\<close>

lemma gateway_step:
  fixes s :: 's
  assumes inv: "history.session_inv past s" and names: "named_routes router" and ok: reliable
    and at: "place s t k msisdn deadline n st" and key: "Key_Validate k = None"
    and step: "step_carried lb h t router k msisdn deadline n st (i, d, clock, ev) resp out"
  shows "\<exists>s' past'. fst (history.run_turn router d i ev s) = Inr resp \<and> fst (snd (history.run_turn router d i ev s)) = s' \<and>
    history.session_inv past' s' \<and> ttl s' = ttl s \<and>
    place s' t k msisdn (Some (at_Save i + ttl s)) (if resp_EndSession resp then 1 else n + 1) out"
proof -
  let ?store = "store_of load save delete"
  define sess where "sess = enter_tenant t (load_session ?store (at_Load i) ev s)"
  from step obtain routed where w: "\<not> Phase_Terminal (ev_Phase ev)" "event_key ev = k" "ev_MSISDN ev = msisdn"
    "before_deadline (at_Load i) deadline" "Route router ev = Inr (t, routed)" "connected d lb h t clock"
    "codecs_agree d lb \<lparr>rq_Version = [], rq_Event = routed, rq_Turn = n, rq_State = st\<rparr> (turn_reply (resp, out))"
    "representable (at_Deliver i)" "\<bar>Time_Sub clock (at_Deliver i div Second * Second)\<bar> \<le> DefaultTolerance"
    "Turn (lb_lower lb) (lb_codec lb) (hd_app h) (routed\<lparr>ev_Raw := []\<rparr>) n (NormaliseState st) = Inr (resp, out)"
    "FitsScreen (resp_Body resp)" "NormaliseState out = out"
    by (simp add: step_carried_def Let_def)
  have here: "se_Turn sess = n" "se_State sess = st" using at w(2-4) by (auto simp: place_def sess_def)
  then have payload: "turn_request routed sess = \<lparr>rq_Version = [], rq_Event = routed, rq_Turn = n, rq_State = st\<rparr>"
    by (simp add: turn_request_def)
  have name: "tn_Name t \<noteq> []" using names w(5) by (auto simp: named_routes_def)
  note entered = history.entered_session [OF inv sess_def name]
  have valid: "Key_Validate (se_Key sess) = None"
    unfolding sess_def by (rule history.entered_session_valid [OF inv]) (simp add: w(2) key)
  have saves: "fst (save (at_Save i) (apply_reply (turn_reply (resp, out)) sess) s) = None"
    and deletes: "fst (delete (event_key ev) s) = None"
    using ok valid by (simp_all add: reliable_def)
  obtain ex s' where run: "history.run_turn router d i ev s = (Inr resp, s', Some ex)"
    and ended: "resp_EndSession resp \<Longrightarrow> s' = snd (delete (event_key ev) s)"
    and open_: "\<not> resp_EndSession resp \<Longrightarrow> save (at_Save i) (sess\<lparr>se_State := out\<rparr>) s = (None, s')"
    by (rule gateway_turn [OF w(1,5) sess_def w(6) _ w(8,9) _ w(11,12) saves deletes])
      (use w(7,10) payload here in simp_all)
  note inv' = history.run_turn_inv(1) [OF inv names run]
  have "ttl s' = ttl s \<and> place s' t k msisdn (Some (at_Save i + ttl s)) (if resp_EndSession resp then 1 else n + 1) out"
  proof (cases "resp_EndSession resp")
    case True
    have "delete k s = (None, s')" using ended [OF True] deletes w(2) by (metis prod.collapse)
    moreover have "out = None" using Turn_state_open [OF w(10)] True by simp
    ultimately show ?thesis using True place_deleted [OF _ key] ttl_delete [of k s] by simp
  next
    case False
    note saved = open_ [OF False]
    have "place s' t k msisdn (Some (at_Save i + ttl s)) (se_Turn (sess\<lparr>se_State := out\<rparr>) + 1) (se_State (sess\<lparr>se_State := out\<rparr>))"
      by (rule place_saved [OF saved]) (use entered(1-3) key w(2,3) in simp_all)
    then show ?thesis using False here(1) saved ttl_save [of "at_Save i" "sess\<lparr>se_State := out\<rparr>" s] by simp
  qed
  with run inv' show ?thesis by auto
qed

text \<open>So a conversation over the gateway shows exactly the screens of the application run on its own.\<close>

lemma conversation:
  fixes s :: 's
  assumes "history.session_inv past s" "named_routes router" reliable "place s t k msisdn deadline n st" "Key_Validate k = None"
    "carried lb h t router k msisdn (ttl s) deadline n st steps"
  shows "\<exists>resps. gateway_run (store_of load save delete) router steps s = map Inr resps \<and>
    app_run lb (hd_app h) (map (\<lambda>(_, _, _, ev). routed_to t ev) steps) n st = map Inr resps"
  using assms
proof (induction steps arbitrary: s past deadline n st)
  case (Cons step steps)
  obtain i d clock ev where s3: "step = (i, d, clock, ev)" by (cases step) auto
  obtain resp out where c: "step_carried lb h t router k msisdn deadline n st (i, d, clock, ev) resp out"
    "carried lb h t router k msisdn (ttl s) (Some (at_Save i + ttl s)) (if resp_EndSession resp then 1 else n + 1) out steps"
    using Cons.prems(6) s3 by auto
  from gateway_step [OF Cons.prems(1-5) c(1)] obtain s' past' where g: "fst (history.run_turn router d i ev s) = Inr resp"
    "fst (snd (history.run_turn router d i ev s)) = s'" "history.session_inv past' s'" "ttl s' = ttl s"
    "place s' t k msisdn (Some (at_Save i + ttl s)) (if resp_EndSession resp then 1 else n + 1) out" by blast
  have rest: "carried lb h t router k msisdn (ttl s') (Some (at_Save i + ttl s)) (if resp_EndSession resp then 1 else n + 1) out steps"
    unfolding g(4) by (rule c(2))
  from Cons.IH [OF g(3) Cons.prems(2,3) g(5) Cons.prems(5) rest] obtain resps where
    "gateway_run (store_of load save delete) router steps s' = map Inr resps"
    "app_run lb (hd_app h) (map (\<lambda>(_, _, _, ev). routed_to t ev) steps) (if resp_EndSession resp then 1 else n + 1) out = map Inr resps"
    by blast
  moreover have "Turn (lb_lower lb) (lb_codec lb) (hd_app h) (routed_to t ev) n (NormaliseState st) = Inr (resp, out)"
    using c(1) by (simp add: step_carried_def routed_to_def Let_def)
  ultimately have "gateway_run (store_of load save delete) router (step # steps) s = map Inr (resp # resps)"
    "app_run lb (hd_app h) (map (\<lambda>(_, _, _, ev). routed_to t ev) (step # steps)) n st = map Inr (resp # resps)"
    using g(1,2) s3 by (simp_all add: case_prod_beta)
  then show ?case by blast
qed simp

end

lemma memory_reliable: "memory.reliable"
  by (simp add: memory.reliable_def Memory_Save_def Memory_Delete_def)

end
