(* ===== verification/Samples_Sdk.thy ===== *)
theory Samples_Sdk
  imports Samples Gateway_Sdk
begin

text \<open>
  A small application behind the sample gateway: one screen that greets and, at the first input, says
  goodbye.  Its codecs are tables of the few values that occur.
\<close>

definition hello_screen :: "unit Screen" where
  "hello_screen =
     \<lparr>sc_Name = ''m'', sc_Prompt = Some (\<lambda>c. (Inr ''hi'', c)), sc_Handle = Some (\<lambda>c inp. (Inr (Finish ''hi''), c))\<rparr>"

definition hello_app :: "unit App" where
  "hello_app =
     \<lparr>ap_screens = Mapping.update ''m'' hello_screen Mapping.empty, ap_start = ''m'', ap_bundle = None, ap_DefaultLang = DefaultLang\<rparr>"

definition hello_codec :: "unit codec" where
  "hello_codec =
     \<lparr>cd_zero = (), cd_Unmarshal = (\<lambda>_. Inr \<lparr>sa_Screen = ''m'', sa_Lang = ''en'', sa_App = ()\<rparr>), cd_Marshal = (\<lambda>_. Inr ''7'')\<rparr>"

definition hello_end :: Reply where
  "hello_end = \<lparr>rp_Response = End ''hi'', rp_State = None, rp_ClearState = True\<rparr>"

text \<open>
  The clocks: a turn every five seconds, a second long, and the application a little behind.  The events: what
  the subscriber has typed, on a call that is otherwise given.
\<close>

definition hello_at :: "nat \<Rightarrow> instants" where
  "hello_at n = \<lparr>at_Load = int n * (5 * Second), at_Deliver = int n * (5 * Second), at_Save = int n * (5 * Second) + Second\<rparr>"

definition hello_clock :: "nat \<Rightarrow> time" where
  "hello_clock n = int n * (5 * Second) + 1"

definition hello_event :: "Event \<Rightarrow> string list \<Rightarrow> string \<Rightarrow> Event" where
  "hello_event base path raw =
     base\<lparr>ev_Path := path, ev_Phase := (if path = [] then PhaseBegin else PhaseContinue),
       ev_ReceivedAt := at_Load (hello_at (length path)), ev_Raw := raw\<rparr>"

definition hello_request :: "Event \<Rightarrow> int \<Rightarrow> Request" where
  "hello_request base n =
     delivered_payload
       (if n = 1 then \<lparr>rq_Version = [], rq_Event = hello_event base [] [], rq_Turn = 1, rq_State = None\<rparr>
        else \<lparr>rq_Version = [], rq_Event = hello_event base [''1''] [], rq_Turn = n, rq_State = Some ''7''\<rparr>)"

definition hello_libraries :: "Event \<Rightarrow> unit libraries" where
  "hello_libraries base =
     \<lparr>lb_lower = (\<lambda>r. r), lb_mac = (\<lambda>k m. m), lb_codec = hello_codec,
      lb_Unmarshal = (\<lambda>b. Inr (hello_request base (int (length b)))),
      lb_Encode = (\<lambda>reply. Inr (if rp_State reply = None then ''end'' else ''on''))\<rparr>"

definition hello_handler :: "unit Handler" where
  "hello_handler = NewHandler hello_app ''k''"

definition hello_dispatcher :: "Event \<Rightarrow> time \<Rightarrow> Dispatcher" where
  "hello_dispatcher base clock =
     \<lparr>dp_Marshal = (\<lambda>rq. Inr (replicate (nat (rq_Turn rq)) CHR ''m'')),
      dp_Unmarshal = (\<lambda>b. Inr (if hd b = CHR ''e'' then hello_end else sample_reply)),
      dp_RequestError = (\<lambda>_. None),
      dp_Do = (\<lambda>req. Inr (answered (Handler_ServeHTTP (hello_libraries base) hello_handler clock (posted req)))),
      dp_mac = (\<lambda>k m. m)\<rparr>"

definition hello_steps :: "Event \<Rightarrow> string \<Rightarrow> string \<Rightarrow> (instants \<times> Dispatcher \<times> time \<times> Event) list" where
  "hello_steps base raw raw' =
     [(hello_at 0, hello_dispatcher base (hello_clock 0), hello_clock 0, hello_event base [] raw),
      (hello_at 1, hello_dispatcher base (hello_clock 1), hello_clock 1, hello_event base [''1''] raw')]"

lemma hello_event_simps:
  "\<not> Phase_Terminal (ev_Phase (hello_event base path raw))" "event_key (hello_event base path raw) = event_key base"
  "ev_MSISDN (hello_event base path raw) = ev_MSISDN base"
  "(hello_event base path raw)\<lparr>ev_Path := drop (length (tn_Prefix sample_root)) (ev_Path (hello_event base path raw))\<rparr> =
     hello_event base path raw"
  by (simp_all add: hello_event_def event_key_def sample_root_def)

lemma hello_Route:
  assumes "ev_Shortcode base = ''*1#''" "path \<in> {[], [''1'']}"
  shows "Route sample_router (hello_event base path raw) = Inr (sample_root, hello_event base path raw)"
  using assms
  by (auto simp: Route_def sample_router_def hello_event_def lookup_default_update hasPrefix_def sample_root_def sample_shop_def)

definition sample_session_key :: Key where
  "sample_session_key = \<lparr>key_MNO = ''n'', key_SessionID = ''s''\<rparr>"

lemma sample_session_valid: "Key_Validate sample_session_key = None"
  by (simp add: sample_session_key_def Key_Validate_def)

lemma hello_NewApp: "NewApp ''m'' [hello_screen] = Inr hello_app"
  by (simp add: NewApp_Inr wf_screens_def) (simp add: hello_screen_def hello_app_def)

lemma hello_lookup: "Mapping.lookup (ap_screens hello_app) n = (if n = ''m'' then Some hello_screen else None)"
  by (simp add: hello_app_def lookup_update' lookup_empty)

lemma hello_wf: "wf_app hello_app" "ap_start hello_app = ''m''" "takes_input hello_app (ap_start hello_app)"
  using hello_lookup by (auto simp: wf_app_def takes_input_def) (auto simp: hello_screen_def hello_app_def)

lemma hello_keeps: "keeps_screens hello_codec hello_app"
  by (auto simp: keeps_screens_def hello_codec_def hello_lookup split: if_splits)

lemma hello_serves: "serves (\<lambda>_. True) hello_app" "codec_keeps (\<lambda>_. True) hello_codec"
  by (auto simp: serves_def codec_keeps_def hello_codec_def hello_lookup hello_screen_def Finish_def split: if_splits)

lemma hello_turns:
  "Turn lower hello_codec hello_app (routed_to sample_root (hello_event base [] raw)) n None = Inr (Continue ''hi'', Some ''7'')"
  "Turn lower hello_codec hello_app (routed_to sample_root (hello_event base [''1''] raw)) n (Some ''7'') = Inr (End ''hi'', None)"
proof -
  have "Shrink ''hi'' = ''hi''" using FitsScreen_hi by (simp add: Shrink_def)
  then show "Turn lower hello_codec hello_app (routed_to sample_root (hello_event base [] raw)) n None = Inr (Continue ''hi'', Some ''7'')"
    "Turn lower hello_codec hello_app (routed_to sample_root (hello_event base [''1''] raw)) n (Some ''7'') = Inr (End ''hi'', None)"
    by (simp_all add: Turn_def restored_def decoded_state_def hello_codec_def hello_lookup App_render_def Let_def)
      (simp_all add: hello_screen_def routed_to_def hello_event_def hello_app_def Finish_def visited_def
        sample_root_def PhaseBegin_def PhaseContinue_def)
qed

lemma hello_run:
  "app_run (hello_libraries base) (hd_app hello_handler) (map (\<lambda>(_, _, _, ev). routed_to sample_root ev) (hello_steps base raw raw')) 1 None =
     [Inr (Continue ''hi''), Inr (End ''hi'')]"
proof -
  have "hd_app hello_handler = hello_app" "lb_codec (hello_libraries base) = hello_codec" "NormaliseState None = None"
    by (simp_all add: hello_handler_def NewHandler_def hello_libraries_def NormaliseState_def)
  moreover have "\<not> resp_EndSession (Continue ''hi'')" by (simp add: Continue_def)
  ultimately show ?thesis by (simp add: hello_steps_def hello_turns NormaliseState_sample)
qed

lemma hello_connected: "connected (hello_dispatcher base clock) (hello_libraries base) hello_handler sample_root clock"
  by (simp add: connected_def)
    (simp add: hello_dispatcher_def hello_libraries_def hello_handler_def NewHandler_def sample_root_def)

lemma hello_codecs:
  "codecs_agree (hello_dispatcher base clock) (hello_libraries base)
     \<lparr>rq_Version = [], rq_Event = hello_event base [] raw, rq_Turn = 1, rq_State = None\<rparr> (turn_reply (Continue ''hi'', Some ''7''))"
  "codecs_agree (hello_dispatcher base clock) (hello_libraries base)
     \<lparr>rq_Version = [], rq_Event = hello_event base [''1''] raw, rq_Turn = 2, rq_State = Some ''7''\<rparr> (turn_reply (End ''hi'', None))"
  by (simp_all add: codecs_agree_def hello_dispatcher_def hello_libraries_def hello_request_def turn_reply_def hello_event_def
      maxRequestBytes_def maxTenantResponseBytes_def hello_end_def sample_reply_def delivered_payload_def)

lemma hello_carried:
  assumes "ev_Shortcode base = ''*1#''"
  shows "carried (hello_libraries base) hello_handler sample_root sample_router (event_key base)
    (ev_MSISDN base) DefaultTTL None 1 None (hello_steps base raw raw')"
proof -
  have clock: "representable (at_Deliver (hello_at n))"
    "\<bar>Time_Sub (hello_clock n) (at_Deliver (hello_at n) div Second * Second)\<bar> \<le> DefaultTolerance" if "n \<in> {0, 1}" for n
    using that
    by (auto simp: hello_at_def hello_clock_def representable_def Time_Sub_def MinDuration_def MaxDuration_def DefaultTolerance_def Second_def)
  have app: "hd_app hello_handler = hello_app" "lb_codec (hello_libraries base) = hello_codec"
    by (simp_all add: hello_handler_def NewHandler_def hello_libraries_def)
  note turns = hello_turns [unfolded routed_to_def hello_event_simps(4)]
    and carries = step_carried_def Let_def case_prod_conv hello_event_simps(4)
  have "step_carried (hello_libraries base) hello_handler sample_root sample_router (event_key base) (ev_MSISDN base) None 1 None
      (hello_at 0, hello_dispatcher base (hello_clock 0), hello_clock 0, hello_event base [] raw) (Continue ''hi'') (Some ''7'')"
    using turns(1) hello_codecs(1) clock [of 0] app NormaliseState_sample FitsScreen_hi assms unfolding carries
    by (simp add: hello_event_simps(1-3) hello_Route hello_connected NormaliseState_def)
  moreover have "step_carried (hello_libraries base) hello_handler sample_root sample_router (event_key base)
      (ev_MSISDN base) (Some (at_Save (hello_at 0) + DefaultTTL)) 2 (Some ''7'')
      (hello_at 1, hello_dispatcher base (hello_clock 1), hello_clock 1, hello_event base [''1''] raw') (End ''hi'') None"
    using turns(2) hello_codecs(2) clock [of 1] app NormaliseState_sample FitsScreen_hi assms unfolding carries
    by (simp add: hello_event_simps(1-3) hello_Route hello_connected NormaliseState_def)
      (simp add: hello_at_def DefaultTTL_def Second_def)
  ultimately show ?thesis
    unfolding hello_steps_def carried.simps fst_conv
    by - (rule exI [of _ "Continue ''hi''"], rule exI [of _ "Some ''7''"], rule conjI, assumption,
        rule exI [of _ "End ''hi''"], rule exI [of _ None], simp)
qed

end
