(* ===== verification/Fediverse_Text.thy ===== *)
theory Fediverse_Text
  imports Sdk_Render Go_Http Go_Url Go_Time "HOL-Library.Char_ord" "HOL-Library.List_Lexorder"
begin

text \<open>
  \<^verbatim>\<open>adapters/fediverse/mastodon.go\<close>: fetching a public timeline and reducing its posts to text a
  screen can carry.  The HTTP client, the URL parser, the JSON decoders, the table of HTML entities,
  the table of printable runes and the parser of RFC 3339 times are fields of a record; regular
  expressions and the functions of \<^verbatim>\<open>strings\<close> are written out.
\<close>

section \<open>Strings\<close>

fun ReplaceAll :: "string \<Rightarrow> string \<Rightarrow> string \<Rightarrow> string" where
  "ReplaceAll old new [] = []"
| "ReplaceAll old new (c # cs) =
     (if old \<noteq> [] \<and> prefix old (c # cs) then new @ ReplaceAll old new (drop (length old - 1) cs)
      else c # ReplaceAll old new cs)"

fun strings_Contains :: "string \<Rightarrow> string \<Rightarrow> bool" where
  "strings_Contains [] sub \<longleftrightarrow> sub = []"
| "strings_Contains (c # cs) sub \<longleftrightarrow> prefix sub (c # cs) \<or> strings_Contains cs sub"

text \<open>\<^verbatim>\<open>strings.ToValidUTF8(s, "")\<close>: a byte that belongs to no rune decodes as U+FFFD of width 1.\<close>

definition ToValidUTF8_empty :: "string \<Rightarrow> string" where
  "ToValidUTF8_empty s = bytes_of (filter (\<lambda>c. \<not> (snd c = RuneError \<and> length (fst c) = 1)) (chunks s))"

text \<open>The three patterns: \<^verbatim>\<open><[^>]*>\<close> to nothing, \<^verbatim>\<open>[ \t]+\<close> to a space, three or more newlines to two.\<close>

function remove_tags :: "string \<Rightarrow> string" where
  "remove_tags [] = []"
| "remove_tags (c # cs) =
     (if c = CHR ''<'' \<and> CHR ''>'' \<in> set cs then remove_tags (tl (dropWhile (\<lambda>d. d \<noteq> CHR ''>'') cs))
      else c # remove_tags cs)"
  by pat_completeness auto
termination
proof (relation "measure length")
  fix c :: char and cs :: string
  have "length (dropWhile (\<lambda>d. d \<noteq> CHR ''>'') cs) \<le> length cs" by (rule length_dropWhile_le)
  then show "(tl (dropWhile (\<lambda>d. d \<noteq> CHR ''>'') cs), c # cs) \<in> measure length" by simp
qed simp_all

definition blank :: "char \<Rightarrow> bool" where
  "blank c \<longleftrightarrow> c = CHR '' '' \<or> c = CHR 0x09"

function squeeze_blanks :: "string \<Rightarrow> string" where
  "squeeze_blanks [] = []"
| "squeeze_blanks (c # cs) =
     (if blank c then CHR '' '' # squeeze_blanks (dropWhile blank cs) else c # squeeze_blanks cs)"
  by pat_completeness auto
termination by (relation "measure length") (simp_all add: length_dropWhile_le le_imp_less_Suc)

function squeeze_lines :: "string \<Rightarrow> string" where
  "squeeze_lines [] = []"
| "squeeze_lines (c # cs) =
     (if c = CHR 0x0A then
        replicate (min 2 (length (takeWhile (\<lambda>d. d = CHR 0x0A) (c # cs)))) (CHR 0x0A)
          @ squeeze_lines (dropWhile (\<lambda>d. d = CHR 0x0A) cs)
      else c # squeeze_lines cs)"
  by pat_completeness auto
termination by (relation "measure length") (simp_all add: length_dropWhile_le le_imp_less_Suc)

section \<open>Posts\<close>

definition maxPostBytes :: int where
  "maxPostBytes = 900"

record Post =
  po_Author :: string
  po_Text :: string
  po_When :: string

record attachment =
  md_Type :: string
  md_Description :: string

datatype apiStatus =
  ApiStatus (api_Content: string) (api_CreatedAt: string) (api_Acct: string) (api_DisplayName: string)
    (api_Media: "attachment list") (api_Reblog: "apiStatus option")

record endpoint =
  en_Host :: string
  en_Query :: Values
  en_String :: "string \<Rightarrow> string"

text \<open>A response: its status, its body with the error that may end it, and the host that answered.\<close>

record remote_response =
  rr_StatusCode :: nat
  rr_Body :: string
  rr_ReadError :: "string option"
  rr_Host :: "string option"

record remote =
  rm_ParseURL :: "string \<Rightarrow> string + endpoint"
  rm_RequestError :: "string \<Rightarrow> string option"
  rm_Do :: "string \<Rightarrow> header \<Rightarrow> string + remote_response"
  rm_StatusText :: "nat \<Rightarrow> string"
  rm_DecodeError :: "string \<Rightarrow> string option \<Rightarrow> string option"
  rm_Decode :: "string \<Rightarrow> string option \<Rightarrow> string + apiStatus list"
  rm_UnescapeString :: "string \<Rightarrow> string"
  rm_IsPrint :: "rune \<Rightarrow> bool"
  rm_ParseTime :: "string \<Rightarrow> time option"

text \<open>
  The loop of \<open>capBytes\<close>: \<open>i\<close> is where the rune at hand starts, and \<open>cut\<close> the last such place that
  left room for the mark.
\<close>

fun capBytes_loop :: "int \<Rightarrow> (string \<times> rune) list \<Rightarrow> nat \<Rightarrow> nat \<Rightarrow> nat" where
  "capBytes_loop limit [] i cut_at = cut_at"
| "capBytes_loop limit (c # cs) i cut_at =
     (if int i > limit - 3 then cut_at else capBytes_loop limit cs (i + length (fst c)) i)"

definition capBytes :: "string \<Rightarrow> int \<Rightarrow> string" where
  "capBytes s limit =
     (if int (length s) \<le> limit then s
      else TrimRightFunc (take (capBytes_loop limit (chunks s) 0 0) s) IsSpace @ ''...'')"

definition stripHTML :: "(string \<Rightarrow> string) \<Rightarrow> string \<Rightarrow> string" where
  "stripHTML unescape inp =
     (let out = fold (\<lambda>br out. ReplaceAll br [CHR 0x0A] out) [''<br>'', ''<br/>'', ''<br />'', ''</p>''] inp;
          out = remove_tags out;
          out = unescape out;
          out = squeeze_blanks out;
          out = squeeze_lines out
      in TrimSpace out)"

definition Minute :: duration where
  "Minute = 60 * Second"

definition Hour :: duration where
  "Hour = 60 * Minute"

text \<open>
  The float64 of \<^verbatim>\<open>d.Hours()\<close> is taken as the exact quotient; the two can differ only within
  microseconds of a full day.
\<close>

definition humaniseTime :: "(string \<Rightarrow> time option) \<Rightarrow> time \<Rightarrow> string \<Rightarrow> string" where
  "humaniseTime parse now given =
     (case parse given of
        None \<Rightarrow> []
      | Some t \<Rightarrow>
          let d = Time_Sub now t in
          if d < Minute then ''now''
          else if d < Hour then FormatInt (d div Minute) @ ''m''
          else if d < 24 * Hour then FormatInt (d div Hour) @ ''h''
          else FormatInt (d div (24 * Hour)) @ ''d'')"

definition attachment_text :: "attachment \<Rightarrow> string" where
  "attachment_text m =
     (let desc = TrimSpace (md_Description m);
          desc = (if desc = [] then ''no description'' else desc)
      in '' ['' @ md_Type m @ '': '' @ desc @ '']'')"

definition toPost :: "remote \<Rightarrow> time \<Rightarrow> apiStatus \<Rightarrow> Post" where
  "toPost rm now s =
     (let body = (case api_Reblog s of None \<Rightarrow> s | Some b \<Rightarrow> b);
          pre = (case api_Reblog s of None \<Rightarrow> [] | Some b \<Rightarrow> ''RT @'' @ api_Acct b @ '': '');
          content = pre @ stripHTML (rm_UnescapeString rm) (api_Content body)
            @ concat (map attachment_text (api_Media body));
          author = (if TrimSpace (api_DisplayName s) = [] then api_Acct s else api_DisplayName s)
      in \<lparr>po_Author = TrimSpace author,
          po_Text = capBytes (TrimSpace content) maxPostBytes,
          po_When = humaniseTime (rm_ParseTime rm) now (api_CreatedAt s)\<rparr>)"

section \<open>The timeline\<close>

text \<open>What a decoder sees of a body behind \<^verbatim>\<open>io.LimitReader\<close>: the bytes, and the error if it is reached.\<close>

definition limited :: "nat \<Rightarrow> string \<Rightarrow> string option \<Rightarrow> string \<times> string option" where
  "limited n body err = (take n body, if n \<le> length body then None else err)"

definition printable_text :: "(rune \<Rightarrow> bool) \<Rightarrow> string \<Rightarrow> string" where
  "printable_text is_print s = Map_runes (\<lambda>r. if is_print r then Some r else None) s"

definition apiError :: "remote \<Rightarrow> string \<Rightarrow> string option \<Rightarrow> string" where
  "apiError rm body err =
     (let (seen, stop) = limited (4 * 1024) body err in
      case rm_DecodeError rm seen stop of
        None \<Rightarrow> []
      | Some e \<Rightarrow>
          let reason = printable_text (rm_IsPrint rm) e in
          if length reason > 200 then ToValidUTF8_empty (take 200 reason) else reason)"

datatype timeline_error =
    BadInstance string
  | BadTimelineRequest string
  | FetchingTimeline string
  | RequiresSignIn string string
  | RepliedReason string string string
  | RepliedBare string string
  | DecodingTimeline string

definition Values_Set :: "Values \<Rightarrow> string \<Rightarrow> string \<Rightarrow> Values" where
  "Values_Set q k v = filter (\<lambda>p. fst p \<noteq> k) q @ [(k, v)]"

definition Values_Encode :: "Values \<Rightarrow> string" where
  "Values_Encode q = encode_form (sort_key fst q)"

definition timeline_url :: "endpoint \<Rightarrow> nat \<Rightarrow> string" where
  "timeline_url en limit =
     (let q = Values_Set (Values_Set (en_Query en) ''limit'' (digits limit)) ''local'' ''true''
      in en_String en (Values_Encode q))"

definition timeline_header :: header where
  "timeline_header =
     Header_Set (Header_Set Map.empty ''Accept'' ''application/json'') ''User-Agent''
       ''openussd-fediverse-adapter/0.1 (+https://github.com/davidrukahu/openussd)''"

definition refused_timeline :: "remote \<Rightarrow> endpoint \<Rightarrow> remote_response \<Rightarrow> timeline_error" where
  "refused_timeline rm en resp =
     (let host = (case rr_Host resp of Some h \<Rightarrow> h | None \<Rightarrow> en_Host en);
          host = printable_text (rm_IsPrint rm) host;
          status = digits (rr_StatusCode resp);
          msg = rm_StatusText rm (rr_StatusCode resp);
          status = (if msg \<noteq> [] then status @ '' '' @ msg else status);
          reason = apiError rm (rr_Body resp) (rr_ReadError resp)
      in if strings_Contains reason ''requires an authenticated user'' then RequiresSignIn host status
         else if reason \<noteq> [] then RepliedReason host status reason
         else RepliedBare host status)"

definition PublicTimeline :: "remote \<Rightarrow> string \<Rightarrow> time \<Rightarrow> nat \<Rightarrow> timeline_error + Post list" where
  "PublicTimeline rm instance_url now limit =
     (case rm_ParseURL rm (drop_while_end (\<lambda>c. c = CHR ''/'') instance_url @ ''/api/v1/timelines/public'') of
        Inl err \<Rightarrow> Inl (BadInstance err)
      | Inr en \<Rightarrow>
          let target = timeline_url en limit in
          (case rm_RequestError rm target of
             Some err \<Rightarrow> Inl (BadTimelineRequest err)
           | None \<Rightarrow>
               (case rm_Do rm target timeline_header of
                  Inl err \<Rightarrow> Inl (FetchingTimeline err)
                | Inr resp \<Rightarrow>
                    if rr_StatusCode resp \<noteq> 200 then Inl (refused_timeline rm en resp)
                    else
                      let (seen, stop) = limited (4 * 1024 * 1024) (rr_Body resp) (rr_ReadError resp) in
                      (case rm_Decode rm seen stop of
                         Inl err \<Rightarrow> Inl (DecodingTimeline err)
                       | Inr statuses \<Rightarrow> Inr (map (toPost rm now) statuses)))))"

section \<open>What a post may weigh\<close>

lemma capBytes_loop_place:
  "capBytes_loop limit cs i cut_at = cut_at \<or>
   (\<exists>k < length cs. capBytes_loop limit cs i cut_at = i + length (bytes_of (take k cs)))"
proof (induction limit cs i cut_at rule: capBytes_loop.induct)
  case (2 limit c cs i cut_at)
  show ?case
  proof (cases "int i > limit - 3")
    case False
    with 2 consider "capBytes_loop limit cs (i + length (fst c)) i = i"
      | k where "k < length cs" "capBytes_loop limit cs (i + length (fst c)) i = i + length (fst c) + length (bytes_of (take k cs))"
      by auto
    then show ?thesis
    proof cases
      case 1
      then have "capBytes_loop limit (c # cs) i cut_at = i + length (bytes_of (take 0 (c # cs)))" using False by simp
      then show ?thesis by blast
    next
      case (2 k)
      then have "Suc k < length (c # cs)" "capBytes_loop limit (c # cs) i cut_at = i + length (bytes_of (take (Suc k) (c # cs)))"
        using False by simp_all
      then show ?thesis by blast
    qed
  qed simp
qed simp

lemma capBytes_loop_le: "int cut_at \<le> limit - 3 \<Longrightarrow> int (capBytes_loop limit cs i cut_at) \<le> limit - 3"
  by (induction limit cs i cut_at rule: capBytes_loop.induct) auto

lemma capBytes_length:
  assumes "3 \<le> limit"
  shows "int (length (capBytes s limit)) \<le> limit"
proof (cases "int (length s) \<le> limit")
  case False
  let ?n = "capBytes_loop limit (chunks s) 0 0"
  have "length (TrimRightFunc (take ?n s) IsSpace) \<le> ?n"
    using prefix_length_le [OF TrimRightFunc_prefix [of "take ?n s" IsSpace]] by simp
  moreover have "int ?n \<le> limit - 3" by (rule capBytes_loop_le) (use assms in simp)
  ultimately show ?thesis using False by (simp add: capBytes_def)
qed (simp add: capBytes_def)

text \<open>The cut is between two runes, and marked.\<close>

lemma capBytes_runes:
  assumes "limit < int (length s)"
  shows "\<exists>k. runes (capBytes s limit) = drop_while_end IsSpace (take k (runes s)) @ dots"
proof -
  let ?n = "capBytes_loop limit (chunks s) 0 0"
  have "\<exists>k. ?n = length (bytes_of (take k (chunks s)))"
    using capBytes_loop_place [of limit "chunks s" 0 0] by (metis add_0 bytes_of_simps(1) list.size(3) take_0)
  then obtain k where k: "?n = length (bytes_of (take k (chunks s)))" ..
  have "take ?n s = bytes_of (take k (chunks s))"
    using bytes_of_take_prefix [of k s] unfolding k by (metis append_eq_conv_conj prefixE)
  then have "runes (take ?n s) = take k (runes s)" by (simp add: runes_def chunks_take take_map)
  then have "runes (capBytes s limit) = drop_while_end IsSpace (take k (runes s)) @ dots"
    using assms by (simp add: capBytes_def runes_append_ascii runes_TrimRightFunc)
  then show ?thesis ..
qed

lemma toPost_Text: "length (po_Text (toPost rm now s)) \<le> 900"
  using capBytes_length [of maxPostBytes] by (simp add: toPost_def Let_def maxPostBytes_def nat_le_iff [symmetric])

lemma PublicTimeline_Inr:
  assumes "PublicTimeline rm url now limit = Inr posts"
  obtains statuses seen stop where "posts = map (toPost rm now) statuses" "rm_Decode rm seen stop = Inr statuses"
  using assms by (auto simp: PublicTimeline_def Let_def split: sum.splits option.splits if_splits prod.splits)

section \<open>What is left of the markup\<close>

text \<open>No tag: a \<^verbatim>\<open><\<close> that is kept has no \<^verbatim>\<open>>\<close> behind it.\<close>

lemma remove_tags_closed: "remove_tags s = xs @ CHR ''<'' # ys \<Longrightarrow> CHR ''>'' \<notin> set ys"
proof (induction s arbitrary: xs rule: remove_tags.induct)
  case (2 c cs)
  show ?case
  proof (cases "c = CHR ''<'' \<and> CHR ''>'' \<in> set cs")
    case True
    then show ?thesis using 2 by simp
  next
    case False
    have tail: "set (tl (dropWhile P ds)) \<subseteq> set ds" for P and ds :: string
      by (metis set_mono_suffix subset_trans suffix_dropWhile suffix_tl)
    have sub: "set (remove_tags s) \<subseteq> set s" for s
    proof (induction s rule: remove_tags.induct)
      case (2 d ds)
      then show ?case using tail [of "\<lambda>d. d \<noteq> CHR ''>''" ds] by simp blast
    qed simp
    show ?thesis
    proof (cases xs)
      case Nil
      then show ?thesis using False "2.prems" sub [of cs] by (auto split: if_splits)
    next
      case (Cons x xs')
      with False "2.prems" have "remove_tags cs = xs' @ CHR ''<'' # ys" by (simp only: remove_tags.simps if_False) simp
      then show ?thesis by (rule "2.IH"(2) [OF False])
    qed
  qed
qed simp

abbreviation spaced :: "string \<Rightarrow> bool" where
  "spaced \<equiv> successively (\<lambda>a b. \<not> (blank a \<and> blank b))"

lemma spaced_squeeze_blanks: "spaced (squeeze_blanks s)"
proof (induction s rule: squeeze_blanks.induct)
  case (2 c cs)
  have head: "squeeze_blanks s = d # ds \<Longrightarrow> blank d \<Longrightarrow> \<exists>e es. s = e # es \<and> blank e" for s d ds
    by (cases s) (auto split: if_splits)
  show ?case
  proof (cases "blank c")
    case True
    have "\<not> (\<exists>e es. dropWhile blank cs = e # es \<and> blank e)" by (metis hd_dropWhile list.distinct(1) list.sel(1))
    with True 2 head [of "dropWhile blank cs"] show ?thesis
      by (cases "squeeze_blanks (dropWhile blank cs)") (auto simp: successively_Cons)
  next
    case False
    with 2 show ?thesis by (auto simp: successively_Cons)
  qed
qed simp

lemma squeeze_blanks_no_tab: "CHR 0x09 \<notin> set (squeeze_blanks s)"
  by (induction s rule: squeeze_blanks.induct) (auto simp: blank_def)

lemma set_squeeze_lines: "set (squeeze_lines s) \<subseteq> set s"
  by (induction s rule: squeeze_lines.induct) (auto dest: set_dropWhileD)

lemma squeeze_lines_hd: "s \<noteq> [] \<Longrightarrow> squeeze_lines s \<noteq> [] \<and> hd (squeeze_lines s) = hd s"
  by (cases s) (auto simp: min_def numeral_2_eq_2)

lemma spaced_squeeze_lines: "spaced s \<Longrightarrow> spaced (squeeze_lines s)"
proof (induction s rule: squeeze_lines.induct)
  case (2 c cs)
  show ?case
  proof (cases "c = CHR 0x0A")
    case True
    have "suffix (dropWhile (\<lambda>d. d = CHR 0x0A) cs) (c # cs)" by (simp add: suffix_dropWhile suffix_ConsI)
    then have "spaced (dropWhile (\<lambda>d. d = CHR 0x0A) cs)" using "2.prems" by (auto simp: suffix_def successively_append_iff)
    then have "spaced (squeeze_lines (dropWhile (\<lambda>d. d = CHR 0x0A) cs))" using 2(1) True by blast
    moreover have "spaced (replicate n CHR 0x0A @ t)" if "spaced t" for n t
      using that by (induction n) (auto simp: successively_Cons blank_def)
    ultimately show ?thesis using True by (simp only: squeeze_lines.simps refl if_True)
  next
    case False
    with 2 squeeze_lines_hd [of cs] show ?thesis by (cases "cs = []") (auto simp: successively_Cons)
  qed
qed simp

abbreviation blank_lines :: string where
  "blank_lines \<equiv> [CHR 0x0A, CHR 0x0A, CHR 0x0A]"

lemma blank_lines_head:
  assumes "t = [] \<or> hd t \<noteq> CHR 0x0A" "\<not> sublist blank_lines t" "n \<in> {1, 2}"
  shows "\<not> sublist blank_lines (replicate n CHR 0x0A @ t)"
proof -
  from assms(3) have "n = 1 \<or> n = 2" by simp
  then show ?thesis
    using assms(1,2) by (elim disjE; cases t) (simp_all add: sublist_Cons_right numeral_2_eq_2)
qed

lemma squeeze_lines_few: "\<not> sublist blank_lines (squeeze_lines s)"
proof (induction s rule: squeeze_lines.induct)
  case (2 c cs)
  show ?case
  proof (cases "c = CHR 0x0A")
    case True
    define t where "t = squeeze_lines (dropWhile (\<lambda>d. d = CHR 0x0A) cs)"
    have "t = [] \<or> hd t \<noteq> CHR 0x0A"
    proof (cases "dropWhile (\<lambda>d. d = CHR 0x0A) cs = []")
      case True
      then show ?thesis by (simp only: t_def squeeze_lines.simps) simp
    next
      case False
      then have "hd t = hd (dropWhile (\<lambda>d. d = CHR 0x0A) cs)" unfolding t_def by (rule conjunct2 [OF squeeze_lines_hd])
      with hd_dropWhile [OF False] show ?thesis by simp
    qed
    moreover have "\<not> sublist blank_lines t" using 2(1) True by (simp add: t_def)
    moreover have "min 2 (length (takeWhile (\<lambda>d. d = CHR 0x0A) (c # cs))) \<in> {1, 2}"
      using True by (cases "takeWhile (\<lambda>d. d = CHR 0x0A) cs") auto
    ultimately have "\<not> sublist blank_lines (replicate (min 2 (length (takeWhile (\<lambda>d. d = CHR 0x0A) (c # cs)))) CHR 0x0A @ t)"
      by (rule blank_lines_head)
    then show ?thesis using True by (simp only: squeeze_lines.simps refl if_True t_def not_False_eq_True)
  next
    case False
    with 2 show ?thesis by (auto simp: sublist_Cons_right)
  qed
qed simp

lemma successively_sublist: "successively P ys \<Longrightarrow> sublist xs ys \<Longrightarrow> successively P xs"
  by (auto simp: sublist_def successively_append_iff)

text \<open>The text has no tab, no two blanks in a row and no two empty lines in a row.\<close>

lemma stripHTML_compact:
  "spaced (stripHTML unescape s) \<and> CHR 0x09 \<notin> set (stripHTML unescape s) \<and> \<not> sublist blank_lines (stripHTML unescape s)"
proof -
  obtain u where u: "stripHTML unescape s = TrimSpace (squeeze_lines (squeeze_blanks u))"
    by (simp add: stripHTML_def Let_def)
  let ?t = "squeeze_lines (squeeze_blanks u)"
  have sub: "sublist (stripHTML unescape s) ?t" by (simp add: u TrimSpace_sublist)
  have "spaced ?t" by (intro spaced_squeeze_lines spaced_squeeze_blanks)
  moreover have "CHR 0x09 \<notin> set ?t" using set_squeeze_lines squeeze_blanks_no_tab by blast
  moreover have "\<not> sublist blank_lines ?t" by (rule squeeze_lines_few)
  ultimately show ?thesis
    using sub successively_sublist [OF _ sub] set_mono_sublist [OF sub] sublist_order.order.trans [OF _ sub] by blast
qed

section \<open>What reaches the log\<close>

lemma filter_fields_runes: "runes (printable_text is_print s) = filter is_print (runes s)"
proof -
  have "List.map_filter (\<lambda>r. if is_print r then Some r else None) rs = filter is_print rs" for rs :: "rune list"
    by (induction rs) (simp_all add: map_filter_simps)
  moreover have "map (\<lambda>q. if valid_rune q then q else RuneError) (filter is_print (runes s)) = filter is_print (runes s)"
    by (rule map_idI) (auto dest: runes_valid)
  ultimately show ?thesis by (simp add: printable_text_def runes_Map_runes)
qed

text \<open>A chunk that stands for bytes that are no rune.\<close>

abbreviation broken :: "string \<times> rune \<Rightarrow> bool" where
  "broken c \<equiv> snd c = RuneError \<and> length (fst c) = 1"

lemma decode_rune_cut:
  assumes "s \<noteq> []" "0 < k" "k < snd (decode_rune s)"
  shows "decode_rune (take k s) = (RuneError, 1)"
proof -
  let ?n = "seq_len (byte_at s 0)"
  have n: "snd (decode_rune s) = ?n" "2 \<le> ?n" "?n \<le> length s"
    using assms seq_len_cases [of "byte_at s 0"]
    by (auto simp: decode_rune_def Let_def well_formed_def split: if_splits)
  have "\<not> well_formed (take k s) ?n" using n assms by (simp add: well_formed_def)
  with n assms show ?thesis by (auto simp: decode_rune_def Let_def byte_at_take)
qed

lemma chunks_cont:
  assumes "\<forall>i < length t. is_cont (byte_at t i)"
  shows "\<forall>c \<in> set (chunks t). broken c"
  using assms
proof (induction t rule: chunks_induct)
  case (rune t)
  have "seq_len (byte_at t 0) = 0" using rune by (auto simp: is_cont_def seq_len_def)
  then have first: "decode_rune t = (RuneError, 1)" using rune.hyps by (simp add: decode_rune_def Let_def)
  moreover have "\<forall>i < length (drop 1 t). is_cont (byte_at (drop 1 t) i)" using rune.prems by (auto simp: byte_at_def)
  ultimately show ?case using rune by (auto simp: chunks_unfold Suc_le_eq)
qed simp

lemma chunks_cut_rune:
  assumes "s \<noteq> []" "k < snd (decode_rune s)"
  shows "\<forall>c \<in> set (chunks (take k s)). broken c"
proof (cases "k = 0")
  case False
  let ?n = "seq_len (byte_at s 0)"
  have "snd (decode_rune s) = ?n" "well_formed s ?n" "2 \<le> ?n"
    using assms False seq_len_cases [of "byte_at s 0"] by (auto simp: decode_rune_def Let_def split: if_splits)
  then have cont: "is_cont (byte_at s i)" if "0 < i" "i < k" for i
  proof -
    have "i = 1 \<or> i = 2 \<or> i = 3"
      using that assms(2) \<open>snd (decode_rune s) = ?n\<close> seq_len_cases [of "byte_at s 0"] by auto
    then show ?thesis
      using that assms(2) \<open>well_formed s ?n\<close> \<open>snd (decode_rune s) = ?n\<close> by (auto simp: well_formed_def accept_second_def)
  qed
  have "is_cont (byte_at (drop 1 (take k s)) i)" if "i < length (drop 1 (take k s))" for i
  proof -
    have "drop 1 (take k s) ! i = s ! Suc i" using that by (cases s; cases k) auto
    then show ?thesis using cont [of "Suc i"] that by (simp add: byte_at_def)
  qed
  then have "\<forall>c \<in> set (chunks (drop 1 (take k s))). broken c" by (intro chunks_cont allI impI)
  moreover have "take k s \<noteq> []" using assms(1) False by simp
  ultimately show ?thesis
    using decode_rune_cut [OF assms(1) _ assms(2)] False by (auto simp: chunks_unfold Suc_le_eq)
qed simp

lemma chunks_take_bytes: "c \<in> set (chunks (take k s)) \<Longrightarrow> \<not> broken c \<Longrightarrow> c \<in> set (chunks s)"
proof (induction s arbitrary: k rule: chunks_induct)
  case (rune s)
  let ?n = "snd (decode_rune s)"
  show ?case
  proof (cases "k < ?n")
    case True
    then show ?thesis using chunks_cut_rune [OF rune.hyps True] rune.prems by blast
  next
    case False
    then have "decode_rune (take k s) = decode_rune s" "take k s \<noteq> []"
      using decode_rune_take [OF rune.hyps] decode_rune_width [OF rune.hyps] rune.hyps by simp_all
    then have "chunks (take k s) = (take ?n s, fst (decode_rune s)) # chunks (take (k - ?n) (drop ?n s))"
      using False by (simp add: chunks_unfold [of "take k s"] drop_take min_def)
    then show ?thesis using rune by (auto simp: chunks_unfold [of s])
  qed
qed simp

lemma chunk_starts:
  assumes "s \<noteq> []" "\<not> broken (take (snd (decode_rune s)) s, fst (decode_rune s))"
  shows "starts_rune (take (snd (decode_rune s)) s)"
proof -
  have len: "length (take (snd (decode_rune s)) s) = snd (decode_rune s)"
    using decode_rune_width_le [OF assms(1)] by simp
  have "decode_rune s = (RuneError, 1)" if "seq_len (byte_at s 0) = 0"
    using that assms(1) by (simp add: decode_rune_def Let_def)
  then have "seq_len (byte_at s 0) \<noteq> 0" using assms(2) len by force
  then have "\<not> is_cont (byte_at s 0)" by (auto simp: seq_len_def is_cont_def split: if_splits)
  then show ?thesis using assms(1) decode_rune_width [OF assms(1)]
    by (cases s) (auto simp: starts_rune_def byte_at_def take_Cons split: nat.split)
qed

lemma runes_ToValidUTF8:
  "runes (ToValidUTF8_empty s) = map snd (filter (\<lambda>c. \<not> broken c) (chunks s)) \<and> starts_rune (ToValidUTF8_empty s)"
proof (induction s rule: chunks_induct)
  case Nil
  then show ?case by (simp add: ToValidUTF8_empty_def)
next
  case (rune s)
  let ?n = "snd (decode_rune s)" and ?r = "fst (decode_rune s)"
  have step: "ToValidUTF8_empty s = (if broken (take ?n s, ?r) then [] else take ?n s) @ ToValidUTF8_empty (drop ?n s)"
    using rune.hyps by (simp add: ToValidUTF8_empty_def chunks_unfold [of s])
  show ?case
  proof (cases "broken (take ?n s, ?r)")
    case True
    then show ?thesis using rune step by (simp add: chunks_unfold [of s])
  next
    case False
    have ne: "take ?n s \<noteq> []" using decode_rune_width [OF rune.hyps] rune.hyps by auto
    then have "chunks (take ?n s) = [(take ?n s, ?r)]"
      using decode_rune_take [OF rune.hyps, of ?n] by (simp add: chunks_unfold [OF ne])
    then have "runes (ToValidUTF8_empty s) = ?r # runes (ToValidUTF8_empty (drop ?n s))"
      using step False rune.IH runes_append [of "ToValidUTF8_empty (drop ?n s)" "take ?n s"] by (simp add: runes_def)
    moreover have "starts_rune (ToValidUTF8_empty s)"
      using step False chunk_starts [OF rune.hyps False] ne by (cases "take ?n s") auto
    ultimately show ?thesis using rune False by (simp add: chunks_unfold [of s])
  qed
qed

text \<open>The reason of a remote error prints, and has at most 200 bytes.\<close>

lemma apiError_printable:
  "\<forall>r \<in> set (runes (apiError rm body err)). rm_IsPrint rm r"
  "length (apiError rm body err) \<le> 200"
proof -
  have short: "length (ToValidUTF8_empty t) \<le> length t" for t
  proof -
    have "length (bytes_of (filter P cs)) \<le> length (bytes_of cs)" for P cs by (induction cs) auto
    then show ?thesis unfolding ToValidUTF8_empty_def by (metis bytes_of_chunks)
  qed
  define seen where "seen = limited (4 * 1024) body err"
  have def: "apiError rm body err =
      (case rm_DecodeError rm (fst seen) (snd seen) of
         None \<Rightarrow> []
       | Some e \<Rightarrow>
           let reason = printable_text (rm_IsPrint rm) e in
           if length reason > 200 then ToValidUTF8_empty (take 200 reason) else reason)"
    unfolding apiError_def seen_def by (simp only: case_prod_beta Let_def)
  consider "apiError rm body err = []"
    | e where "apiError rm body err =
        (let reason = printable_text (rm_IsPrint rm) e in
         if length reason > 200 then ToValidUTF8_empty (take 200 reason) else reason)"
    unfolding def by (cases "rm_DecodeError rm (fst seen) (snd seen)") auto
  then have "(\<forall>r \<in> set (runes (apiError rm body err)). rm_IsPrint rm r) \<and> length (apiError rm body err) \<le> 200"
  proof cases
    case (2 e)
    let ?reason = "printable_text (rm_IsPrint rm) e"
    have print: "\<forall>r \<in> set (runes ?reason). rm_IsPrint rm r" by (simp add: filter_fields_runes)
    have "set (runes (ToValidUTF8_empty (take 200 ?reason))) \<subseteq> set (runes ?reason)"
    proof
      fix r assume "r \<in> set (runes (ToValidUTF8_empty (take 200 ?reason)))"
      then obtain c where "c \<in> set (chunks (take 200 ?reason))" "\<not> broken c" "r = snd c"
        using runes_ToValidUTF8 [of "take 200 ?reason"] by auto
      then show "r \<in> set (runes ?reason)" using chunks_take_bytes [of c 200 ?reason] by (simp add: runes_def)
    qed
    with print short [of "take 200 ?reason"] 2 show ?thesis by (auto simp: Let_def)
  qed simp
  then show "\<forall>r \<in> set (runes (apiError rm body err)). rm_IsPrint rm r" "length (apiError rm body err) \<le> 200"
    by simp_all
qed

end
