(* ===== verification/Fediverse_App.thy ===== *)
theory Fediverse_App
  imports Fediverse_Text Sdk_App Sdk_Menu Sdk_Paginate
begin

text \<open>
  \<^verbatim>\<open>adapters/fediverse/main.go\<close>: the reference application, four screens over a public timeline.  The
  client that fetches the timeline is a function of the context, so it may answer differently at every
  turn.  An index out of range, which panics, is the error \<open>panic_index\<close> of a callback.
\<close>

section \<open>The code\<close>

definition timelineSize :: nat where
  "timelineSize = 10"

record fstate =
  fs_Posts :: "Post list"
  fs_Cursor :: int
  fs_Page :: int
  fs_Listed :: int

definition english :: phrases where
  "english = Mapping.of_alist
     [(''menu.title'', ''OpenUSSD Fediverse''), (''menu.timeline'', ''Public timeline''),
      (''menu.about'', ''About''), (''menu.quit'', ''Quit''), (''timeline.title'', ''Latest posts''),
      (''nav.next'', ''1. Next''), (''nav.prev'', ''2. Prev''), (''nav.back'', ''0. Back''),
      (''error.fetch'', ''Could not reach the instance. Try again.''),
      (''error.empty'', ''Nothing to show here.''), (''error.choice'', ''Invalid choice.''),
      (''session.ended'', ''Goodbye.''),
      (''about.body'', ''OpenUSSD: an open gateway and SDK bringing the federated web to feature phones. github.com/davidrukahu/openussd'')]"

definition swahili :: phrases where
  "swahili = Mapping.of_alist
     [(''menu.title'', ''OpenUSSD Fediverse''), (''menu.timeline'', ''Ratiba ya umma''),
      (''menu.about'', ''Kuhusu''), (''menu.quit'', ''Ondoka''),
      (''error.choice'', ''Chaguo si sahihi.''), (''session.ended'', ''Kwaheri.'')]"

definition french :: phrases where
  "french = Mapping.of_alist
     [(''menu.title'', ''OpenUSSD Fediverse''), (''menu.timeline'', ''Fil public''),
      (''menu.about'', [CHR 0xC3, CHR 0x80] @ '' propos''), (''menu.quit'', ''Quitter''),
      (''error.choice'', ''Choix invalide.''), (''session.ended'', ''Au revoir.'')]"

definition fediverse_bundle :: Bundle where
  "fediverse_bundle = NewBundle (Mapping.of_alist [(''en'', english), (''sw'', swahili), (''fr'', french)])"

definition maxHeaderLen :: int where
  "maxHeaderLen = 28"

definition widestPageCounter :: int where
  "widestPageCounter = 99"

definition panic_index :: string where
  "panic_index = ''index out of range''"

definition postHeader :: "Post \<Rightarrow> int \<Rightarrow> int \<Rightarrow> string" where
  "postHeader p page pages =
     Label (po_Author p) maxHeaderLen ''Post''
       @ (if pages > 1 then '' ('' @ FormatInt page @ ''/'' @ FormatInt pages @ '')'' else [])"

definition navigation :: "(rune \<Rightarrow> rune) \<Rightarrow> fstate Context \<Rightarrow> string list \<Rightarrow> string" where
  "navigation lower c keys = ToGSM (join '' '' (map (Context_T lower c) keys))"

definition post_reserve :: "(rune \<Rightarrow> rune) \<Rightarrow> fstate Context \<Rightarrow> Post \<Rightarrow> int" where
  "post_reserve lower c p =
     int (length (runes (postHeader p widestPageCounter widestPageCounter)))
       + int (length (runes (navigation lower c [''nav.next'', ''nav.prev'', ''nav.back'']))) + 2"

definition postPages :: "(rune \<Rightarrow> rune) \<Rightarrow> fstate Context \<Rightarrow> string + string list" where
  "postPages lower c =
     (let s = cx_State c in
      if fs_Cursor s \<ge> int (length (fs_Posts s)) then Inr []
      else if fs_Cursor s < 0 then Inl panic_index
      else let p = fs_Posts s ! nat (fs_Cursor s) in
        Inr (Paginate (po_Text p) (post_reserve lower c p)))"

definition offered :: "int \<Rightarrow> int \<Rightarrow> string list" where
  "offered page pages =
     (if page < pages - 1 then [''nav.next''] else []) @ (if page > 0 then [''nav.prev''] else []) @ [''nav.back'']"

definition renderPost :: "(rune \<Rightarrow> rune) \<Rightarrow> fstate Context \<Rightarrow> (string + string) \<times> fstate Context" where
  "renderPost lower c =
     (case postPages lower c of
        Inl err \<Rightarrow> (Inl err, c)
      | Inr pages \<Rightarrow>
          if length pages = 0 then (Inr (Context_T lower c ''error.empty''), c)
          else
            let s = cx_State c;
                s = (if fs_Page s \<ge> int (length pages) then s\<lparr>fs_Page := int (length pages) - 1\<rparr> else s);
                c = c\<lparr>cx_State := s\<rparr>
            in if fs_Page s < 0 then (Inl panic_index, c)
               else (Inr (postHeader (fs_Posts s ! nat (fs_Cursor s)) (fs_Page s + 1) (int (length pages))
                        @ [CHR 0x0A] @ pages ! nat (fs_Page s) @ [CHR 0x0A]
                        @ navigation lower c (offered (fs_Page s) (int (length pages)))), c))"

definition menu_Prompt :: "(rune \<Rightarrow> rune) \<Rightarrow> fstate Context \<Rightarrow> (string + string) \<times> fstate Context" where
  "menu_Prompt lower c =
     (Inr (Menu (Context_T lower c ''menu.title'')
        [\<lparr>mi_Key = ''1'', mi_Label = Context_T lower c ''menu.timeline''\<rparr>,
         \<lparr>mi_Key = ''2'', mi_Label = Context_T lower c ''menu.about''\<rparr>,
         \<lparr>mi_Key = ''0'', mi_Label = Context_T lower c ''menu.quit''\<rparr>]), c)"

definition menu_Handle ::
    "(rune \<Rightarrow> rune) \<Rightarrow> (fstate Context \<Rightarrow> nat \<Rightarrow> timeline_error + Post list) \<Rightarrow>
     fstate Context \<Rightarrow> string \<Rightarrow> (string + Action) \<times> fstate Context" where
  "menu_Handle lower client c inp =
     (if inp = ''1'' then
        (case client c timelineSize of
           Inl err \<Rightarrow> (Inr (Stay (Context_T lower c ''error.fetch'')), c)
         | Inr posts \<Rightarrow> (Inr (Goto ''timeline''), c\<lparr>cx_State := (cx_State c)\<lparr>fs_Posts := posts\<rparr>\<rparr>))
      else if inp = ''2'' then (Inr (Goto ''about''), c)
      else if inp = ''0'' then (Inr (Finish (Context_T lower c ''session.ended'')), c)
      else (Inr (Stay (Context_T lower c ''error.choice'')), c))"

definition post_label :: "nat \<Rightarrow> Post \<Rightarrow> string" where
  "post_label i p =
     Label (po_Author p) maxHeaderLen (''Post '' @ FormatInt (int i + 1))
       @ (if po_When p \<noteq> [] then '' ('' @ po_When p @ '')'' else [])"

definition post_item :: "nat \<times> Post \<Rightarrow> MenuItem" where
  "post_item ip = \<lparr>mi_Key = FormatInt (int (fst ip) + 1), mi_Label = post_label (fst ip) (snd ip)\<rparr>"

definition timeline_title :: "(rune \<Rightarrow> rune) \<Rightarrow> fstate Context \<Rightarrow> string" where
  "timeline_title lower c =
     (let title = Context_T lower c ''timeline.title'' in
      if Context_Notice c \<noteq> [] then Context_Notice c @ [CHR 0x0A] @ title else title)"

definition timeline_footer :: "(rune \<Rightarrow> rune) \<Rightarrow> fstate Context \<Rightarrow> MenuItem list" where
  "timeline_footer lower c = [\<lparr>mi_Key = ''0'', mi_Label = Context_T lower c ''menu.quit''\<rparr>]"

definition timeline_Prompt :: "(rune \<Rightarrow> rune) \<Rightarrow> fstate Context \<Rightarrow> (string + string) \<times> fstate Context" where
  "timeline_Prompt lower c =
     (let items = map post_item (enumerate 0 (fs_Posts (cx_State c)));
          (screen, shown) = MenuFit (timeline_title lower c) items (timeline_footer lower c)
      in (Inr screen, c\<lparr>cx_State := (cx_State c)\<lparr>fs_Listed := int shown\<rparr>\<rparr>))"

definition timeline_Handle ::
    "(rune \<Rightarrow> rune) \<Rightarrow> fstate Context \<Rightarrow> string \<Rightarrow> (string + Action) \<times> fstate Context" where
  "timeline_Handle lower c inp =
     (if inp = ''0'' then (Inr (Finish (Context_T lower c ''session.ended'')), c)
      else case Atoi (TrimSpace inp) of
        None \<Rightarrow> (Inr (Stay (Context_T lower c ''error.choice'')), c)
      | Some n \<Rightarrow>
          if n < 1 \<or> n > fs_Listed (cx_State c) then (Inr (Stay (Context_T lower c ''error.choice'')), c)
          else (Inr (Goto ''post''), c\<lparr>cx_State := (cx_State c)\<lparr>fs_Cursor := n - 1, fs_Page := 0\<rparr>\<rparr>))"

definition post_Handle ::
    "(rune \<Rightarrow> rune) \<Rightarrow> fstate Context \<Rightarrow> string \<Rightarrow> (string + Action) \<times> fstate Context" where
  "post_Handle lower c inp =
     (case postPages lower c of
        Inl err \<Rightarrow> (Inl err, c)
      | Inr pages \<Rightarrow>
          let s = cx_State c; invalid = (Inr (Stay (Context_T lower c ''error.choice'')), c) in
          if inp = ''1'' then
            if fs_Page s \<ge> int (length pages) - 1 then invalid
            else (Inr (Goto ''post''), c\<lparr>cx_State := s\<lparr>fs_Page := fs_Page s + 1\<rparr>\<rparr>)
          else if inp = ''2'' then
            if fs_Page s = 0 then invalid
            else (Inr (Goto ''post''), c\<lparr>cx_State := s\<lparr>fs_Page := fs_Page s - 1\<rparr>\<rparr>)
          else if inp = ''0'' then (Inr (Goto ''timeline''), c)
          else invalid)"

definition fediverse_screens ::
    "(rune \<Rightarrow> rune) \<Rightarrow> (fstate Context \<Rightarrow> nat \<Rightarrow> timeline_error + Post list) \<Rightarrow> fstate Screen list" where
  "fediverse_screens lower client =
     [\<lparr>sc_Name = ''menu'', sc_Prompt = Some (menu_Prompt lower), sc_Handle = Some (menu_Handle lower client)\<rparr>,
      \<lparr>sc_Name = ''timeline'', sc_Prompt = Some (timeline_Prompt lower), sc_Handle = Some (timeline_Handle lower)\<rparr>,
      \<lparr>sc_Name = ''post'', sc_Prompt = Some (renderPost lower), sc_Handle = Some (post_Handle lower)\<rparr>,
      \<lparr>sc_Name = ''about'', sc_Prompt = Some (\<lambda>c. (Inr (Context_T lower c ''about.body''), c)), sc_Handle = None\<rparr>]"

definition newApp ::
    "(rune \<Rightarrow> rune) \<Rightarrow> (fstate Context \<Rightarrow> nat \<Rightarrow> timeline_error + Post list) \<Rightarrow> app_error + fstate App" where
  "newApp lower client =
     (case NewApp ''menu'' (fediverse_screens lower client) of
        Inl err \<Rightarrow> Inl err
      | Inr app \<Rightarrow> Inr (WithBundle fediverse_bundle app))"

section \<open>The application\<close>

lemma newApp_Inr: "newApp lower client = Inr app \<longleftrightarrow>
  (\<exists>base. NewApp ''menu'' (fediverse_screens lower client) = Inr base \<and> app = WithBundle fediverse_bundle base)"
  by (auto simp: newApp_def split: sum.splits)

lemma wf_fediverse_screens: "wf_screens ''menu'' (fediverse_screens lower client)"
  by (simp add: wf_screens_def fediverse_screens_def)

lemma newApp_ok: "\<exists>app. newApp lower client = Inr app"
  unfolding newApp_Inr NewApp_Inr using wf_fediverse_screens by blast

lemma newApp_simps:
  assumes "newApp lower client = Inr app"
  shows "wf_app app" "ap_start app = ''menu''" "ap_bundle app = Some fediverse_bundle"
    "Mapping.lookup (ap_screens app) n = Some s \<longleftrightarrow> s \<in> set (fediverse_screens lower client) \<and> sc_Name s = n"
proof -
  obtain base where base: "NewApp ''menu'' (fediverse_screens lower client) = Inr base" "app = WithBundle fediverse_bundle base"
    using assms by (auto simp: newApp_Inr)
  have "app = base\<lparr>ap_bundle := Some fediverse_bundle, ap_DefaultLang := ap_DefaultLang base\<rparr>"
    by (simp add: base(2) WithBundle_def)
  with wf_app_NewApp [OF base(1)] show "wf_app app" by metis
  show "ap_start app = ''menu''" "ap_bundle app = Some fediverse_bundle"
    using base by (auto simp: NewApp_Inr WithBundle_def)
  show "Mapping.lookup (ap_screens app) n = Some s \<longleftrightarrow> s \<in> set (fediverse_screens lower client) \<and> sc_Name s = n"
    using NewApp_screens [OF base(1)] by (simp add: base(2) WithBundle_def)
qed

text \<open>The screens that callbacks go to are declared.\<close>

lemma newApp_declared:
  assumes "newApp lower client = Inr app" "n \<in> {''menu'', ''timeline'', ''post'', ''about''}"
  shows "Mapping.lookup (ap_screens app) n \<noteq> None"
proof -
  have "\<exists>s \<in> set (fediverse_screens lower client). sc_Name s = n"
    using assms(2) by (auto simp: fediverse_screens_def)
  then show ?thesis using newApp_simps(4) [OF assms(1), of n] by auto
qed

lemma newApp_takes_input:
  assumes "newApp lower client = Inr app"
  shows "takes_input app ''menu''"
proof -
  have "\<exists>s \<in> set (fediverse_screens lower client). sc_Name s = ''menu'' \<and> sc_Handle s \<noteq> None"
    by (simp add: fediverse_screens_def)
  then show ?thesis using newApp_simps(4) [OF assms, of "''menu''"] by (auto simp: takes_input_def)
qed

section \<open>No callback fails\<close>

text \<open>No index is ever negative.\<close>

definition fs_safe :: "fstate \<Rightarrow> bool" where
  "fs_safe s \<longleftrightarrow> 0 \<le> fs_Cursor s \<and> 0 \<le> fs_Page s"

lemma postPages_safe: "fs_safe (cx_State c) \<Longrightarrow> \<exists>pages. postPages lower c = Inr pages"
  by (simp add: postPages_def Let_def fs_safe_def)

lemma renderPost_safe:
  assumes "fs_safe (cx_State c)"
  shows "\<exists>body c'. renderPost lower c = (Inr body, c') \<and> fs_safe (cx_State c')"
proof -
  obtain pages where pages: "postPages lower c = Inr pages" using postPages_safe [OF assms] by blast
  let ?s = "if fs_Page (cx_State c) \<ge> int (length pages) then (cx_State c)\<lparr>fs_Page := int (length pages) - 1\<rparr> else cx_State c"
  have "pages \<noteq> [] \<Longrightarrow> fs_safe ?s" using assms by (cases pages) (auto simp: fs_safe_def)
  with pages assms show ?thesis
    by (cases "pages = []") (auto simp: renderPost_def Let_def fs_safe_def not_less [symmetric])
qed

lemma timeline_Prompt_safe:
  "fs_safe (cx_State c) \<Longrightarrow> \<exists>body c'. timeline_Prompt lower c = (Inr body, c') \<and> fs_safe (cx_State c')"
  by (simp add: timeline_Prompt_def case_prod_beta Let_def fs_safe_def)

lemma menu_Handle_safe:
  assumes "fs_safe (cx_State c)"
  shows "\<exists>action c'. menu_Handle lower client c inp = (Inr action, c') \<and> fs_safe (cx_State c') \<and>
    ac_Next action \<in> {[], ''timeline'', ''about''}"
  using assms
  by (cases "client c timelineSize") (simp_all add: menu_Handle_def Stay_def Goto_def Finish_def fs_safe_def)

lemma timeline_Handle_safe:
  assumes "fs_safe (cx_State c)"
  shows "\<exists>action c'. timeline_Handle lower c inp = (Inr action, c') \<and> fs_safe (cx_State c') \<and>
    ac_Next action \<in> {[], ''post''}"
  using assms
  by (cases "Atoi (TrimSpace inp)") (simp_all add: timeline_Handle_def Stay_def Goto_def Finish_def fs_safe_def)

lemma post_Handle_safe:
  assumes "fs_safe (cx_State c)"
  shows "\<exists>action c'. post_Handle lower c inp = (Inr action, c') \<and> fs_safe (cx_State c') \<and>
    ac_Next action \<in> {[], ''post'', ''timeline''}"
proof -
  obtain pages where pages: "postPages lower c = Inr pages" using postPages_safe [OF assms] by blast
  with assms show ?thesis by (auto simp: post_Handle_def Let_def Stay_def Goto_def fs_safe_def)
qed

lemma fediverse_serves:
  assumes app: "newApp lower client = Inr app"
  shows "serves fs_safe app"
  unfolding serves_def
proof (intro allI impI)
  fix n screen
  assume "Mapping.lookup (ap_screens app) n = Some screen"
  then have "screen \<in> set (fediverse_screens lower client)" using newApp_simps(4) [OF app] by simp
  then consider "sc_Prompt screen = Some (menu_Prompt lower)" "sc_Handle screen = Some (menu_Handle lower client)"
    | "sc_Prompt screen = Some (timeline_Prompt lower)" "sc_Handle screen = Some (timeline_Handle lower)"
    | "sc_Prompt screen = Some (renderPost lower)" "sc_Handle screen = Some (post_Handle lower)"
    | "sc_Prompt screen = Some (\<lambda>c. (Inr (Context_T lower c ''about.body''), c))" "sc_Handle screen = None"
    by (auto simp: fediverse_screens_def)
  moreover have "\<exists>body c'. menu_Prompt lower c = (Inr body, c') \<and> fs_safe (cx_State c')" if "fs_safe (cx_State c)" for c
    using that by (simp add: menu_Prompt_def)
  moreover have next_ok: "\<exists>action c'. h c inp = (Inr action, c') \<and> fs_safe (cx_State c') \<and>
      (ac_Next action = [] \<or> Mapping.lookup (ap_screens app) (ac_Next action) \<noteq> None)"
    if "\<exists>action c'. h c inp = (Inr action, c') \<and> fs_safe (cx_State c') \<and> ac_Next action \<in> N"
      "N \<subseteq> {[], ''timeline'', ''post'', ''about''}" for h :: "fstate Context \<Rightarrow> string \<Rightarrow> (string + Action) \<times> fstate Context" and c inp N
    using that newApp_declared [OF app] by blast
  ultimately show "(\<forall>prompt c. sc_Prompt screen = Some prompt \<longrightarrow> fs_safe (cx_State c) \<longrightarrow>
       (\<exists>body c'. prompt c = (Inr body, c') \<and> fs_safe (cx_State c'))) \<and>
     (\<forall>h c inp. sc_Handle screen = Some h \<longrightarrow> fs_safe (cx_State c) \<longrightarrow>
       (\<exists>action c'. h c inp = (Inr action, c') \<and> fs_safe (cx_State c') \<and>
         (ac_Next action = [] \<or> Mapping.lookup (ap_screens app) (ac_Next action) \<noteq> None)))"
  proof cases
    case 1
    then show ?thesis
      using menu_Handle_safe next_ok [of "menu_Handle lower client" _ _ "{[], ''timeline'', ''about''}"]
      by (auto simp: menu_Prompt_def)
  next
    case 2
    then show ?thesis
      using timeline_Handle_safe timeline_Prompt_safe next_ok [of "timeline_Handle lower" _ _ "{[], ''post''}"] by auto
  next
    case 3
    then show ?thesis
      using post_Handle_safe renderPost_safe next_ok [of "post_Handle lower" _ _ "{[], ''post'', ''timeline''}"] by auto
  qed simp
qed

section \<open>What the screens offer is what they take\<close>

lemma MenuFit_rows:
  assumes "FitsScreen (title @ concat (map line footer))" "MenuFit title items footer = (screen, n)"
  shows "n \<le> length items \<and> screen = title @ concat (map line (take n items)) @ concat (map line footer)"
  using MenuFit_loop_result [of "concat (map line footer)" title 0 items] assms
  by (auto simp: MenuFit_def Let_def)

text \<open>The keys of the timeline are those of the posts it shows.\<close>

lemma timeline_shows:
  assumes "FitsScreen (timeline_title lower c @ concat (map line (timeline_footer lower c)))"
    "timeline_Prompt lower c = (Inr screen, c')"
  shows "0 \<le> fs_Listed (cx_State c') \<and> fs_Listed (cx_State c') \<le> int (length (fs_Posts (cx_State c'))) \<and>
    fs_Posts (cx_State c') = fs_Posts (cx_State c) \<and>
    screen = timeline_title lower c
      @ concat (map (line \<circ> post_item) (take (nat (fs_Listed (cx_State c'))) (enumerate 0 (fs_Posts (cx_State c)))))
      @ concat (map line (timeline_footer lower c))"
proof -
  let ?items = "map post_item (enumerate 0 (fs_Posts (cx_State c)))"
  obtain b n where fit: "MenuFit (timeline_title lower c) ?items (timeline_footer lower c) = (b, n)" by force
  have "n \<le> length ?items" "b = timeline_title lower c @ concat (map line (take n ?items)) @ concat (map line (timeline_footer lower c))"
    using MenuFit_rows [OF assms(1) fit] by simp_all
  moreover have "screen = b" "c' = c\<lparr>cx_State := (cx_State c)\<lparr>fs_Listed := int n\<rparr>\<rparr>"
    using assms(2) fit by (simp_all add: timeline_Prompt_def Let_def)
  ultimately show ?thesis by (simp add: take_map)
qed

lemma timeline_takes:
  assumes "inp \<noteq> ''0''"
  shows "timeline_Handle lower c inp = (Inr (Goto ''post''), c') \<longleftrightarrow>
    (\<exists>n. Atoi (TrimSpace inp) = Some n \<and> 1 \<le> n \<and> n \<le> fs_Listed (cx_State c) \<and>
       c' = c\<lparr>cx_State := (cx_State c)\<lparr>fs_Cursor := n - 1, fs_Page := 0\<rparr>\<rparr>)"
  using assms by (auto simp: timeline_Handle_def Stay_def Goto_def split: option.splits)

text \<open>A page shows exactly the controls that lead somewhere.\<close>

lemma renderPost_page:
  assumes "postPages lower c = Inr pages" "pages \<noteq> []" "0 \<le> fs_Page (cx_State c)" "fs_Page (cx_State c) < int (length pages)"
  shows "renderPost lower c =
    (Inr (postHeader (fs_Posts (cx_State c) ! nat (fs_Cursor (cx_State c))) (fs_Page (cx_State c) + 1) (int (length pages))
       @ [CHR 0x0A] @ pages ! nat (fs_Page (cx_State c)) @ [CHR 0x0A]
       @ navigation lower c (offered (fs_Page (cx_State c)) (int (length pages)))), c)"
  using assms by (simp add: renderPost_def Let_def)

lemma post_Handle_controls:
  assumes "postPages lower c = Inr pages"
  shows "(\<exists>c'. post_Handle lower c ''1'' = (Inr (Goto ''post''), c')) \<longleftrightarrow> ''nav.next'' \<in> set (offered (fs_Page (cx_State c)) (int (length pages)))"
    and "0 \<le> fs_Page (cx_State c) \<Longrightarrow>
      (\<exists>c'. post_Handle lower c ''2'' = (Inr (Goto ''post''), c')) \<longleftrightarrow> ''nav.prev'' \<in> set (offered (fs_Page (cx_State c)) (int (length pages)))"
    and "post_Handle lower c ''0'' = (Inr (Goto ''timeline''), c)"
  using assms by (auto simp: post_Handle_def Let_def offered_def Stay_def Goto_def)

end
