(* ===== verification/Fediverse_Layout.thy ===== *)
theory Fediverse_Layout
  imports Fediverse_App
begin

text \<open>
  How the post screen of \<^verbatim>\<open>adapters/fediverse/main.go\<close> uses the screen: a page, the author line and
  the controls fit together, and the pages of a post show all of it.  The reserve is counted in runes,
  so both hold for author lines in the unextended GSM alphabet, and the first fails outside it.
\<close>

section \<open>The controls\<close>

lemma navigation_words:
  assumes "cx_bundle c = Some fediverse_bundle"
  shows "Context_T lower c ''nav.next'' = ''1. Next''" "Context_T lower c ''nav.prev'' = ''2. Prev''"
    "Context_T lower c ''nav.back'' = ''0. Back''"
proof -
  have tables: "Mapping.lookup (bn_strings fediverse_bundle) l \<in> {None, Some english, Some swahili, Some french}" for l
    by (simp add: fediverse_bundle_def NewBundle_def lookup_of_alist)
  have en: "ToLower lower DefaultLang = ''en''"
    by (simp add: ToLower_def DefaultLang_def to_lower_def is_upper_def)
  have lang: "translated (bn_strings fediverse_bundle) l key \<in> {None, Mapping.lookup english key}"
    if "Mapping.lookup swahili key = None" "Mapping.lookup french key = None" for l key
    using tables [of l] that by (auto simp: translated_def)
  have fallback: "translated (bn_strings fediverse_bundle) ''en'' key = Mapping.lookup english key" for key
    by (simp add: translated_def fediverse_bundle_def NewBundle_def lookup_of_alist)
  have word: "Context_T lower c key = v"
    if "Mapping.lookup english key = Some v" "Mapping.lookup swahili key = None" "Mapping.lookup french key = None" for key v
    using lang [OF that(2,3), of "ToLower lower (cx_Lang c)"] that(1) assms en fallback [of key]
    by (auto simp: Context_T_def Bundle_T_Some fediverse_bundle_def NewBundle_def)
  show "Context_T lower c ''nav.next'' = ''1. Next''" "Context_T lower c ''nav.prev'' = ''2. Prev''"
    "Context_T lower c ''nav.back'' = ''0. Back''"
    by (rule word; simp add: english_def swahili_def french_def lookup_of_alist)+
qed

lemma ToGSM_plain: "list_all plain s \<Longrightarrow> ToGSM s = s"
proof -
  assume "list_all plain s"
  then have "gsm_text (runes s)"
    by (auto simp: runes_plain gsm_text_def gsm_rune_def list_all_iff dest: plain_basic)
  then show ?thesis by (simp add: ToGSM_def EncodingOf_runes)
qed

lemma navigation_plain:
  assumes "cx_bundle c = Some fediverse_bundle"
  shows "list_all plain (navigation lower c (offered page pages)) \<and> length (navigation lower c (offered page pages)) \<le> 23"
    and "navigation lower c [''nav.next'', ''nav.prev'', ''nav.back''] = ''1. Next 2. Prev 0. Back''"
  using navigation_words [OF assms, of lower]
  by (auto simp: navigation_def offered_def ToGSM_plain plain_def Let_def)

section \<open>The author line\<close>

abbreviation author_line :: "Post \<Rightarrow> string" where
  "author_line p \<equiv> Label (po_Author p) maxHeaderLen ''Post''"

abbreviation page_counter :: "int \<Rightarrow> int \<Rightarrow> string" where
  "page_counter page pages \<equiv> (if pages > 1 then '' ('' @ FormatInt page @ ''/'' @ FormatInt pages @ '')'' else [])"

lemma digit_plain: "is_digit c \<Longrightarrow> plain c"
  by (auto simp: is_digit_def plain_def Let_def)

lemma FormatInt_plain: "0 \<le> i \<Longrightarrow> list_all plain (FormatInt i)"
  by (auto simp: FormatInt_def list_all_iff dest: digits_digit digit_plain)

lemma FormatInt_two: "0 \<le> i \<Longrightarrow> i \<le> 99 \<Longrightarrow> length (FormatInt i) \<le> 2"
proof -
  assume "0 \<le> i" "i \<le> 99"
  then have "nat i div 10 < 10" by linarith
  then have "length (digits (nat i)) \<le> 2" by (subst digits.simps) (simp add: digits.simps [of "nat i div 10"])
  then show ?thesis using \<open>0 \<le> i\<close> by (simp add: FormatInt_def)
qed

lemma page_counter_plain:
  assumes "0 \<le> page" "page \<le> 99" "0 \<le> pages" "pages \<le> 99"
  shows "list_all plain (page_counter page pages) \<and> length (page_counter page pages) \<le> 8"
  using assms FormatInt_plain [of page] FormatInt_plain [of pages] FormatInt_two [of page] FormatInt_two [of pages]
  by (simp add: plain_def Let_def)

lemma widest_counter: "list_all plain (page_counter 99 99) \<and> length (page_counter 99 99) = 8"
proof -
  have "length (FormatInt 99) = 2"
    by (simp add: FormatInt_def) (subst digits.simps, simp add: digits.simps)
  then show ?thesis using page_counter_plain [of 99 99] by simp
qed

lemma runes_postHeader:
  "list_all plain (page_counter page pages) \<Longrightarrow>
   runes (postHeader p page pages) = runes (author_line p) @ map of_char (page_counter page pages)"
  unfolding postHeader_def
  by (rule runes_append_ascii) (auto simp: ascii_def list_all_iff dest: plain_basic)

lemma post_reserve_eq:
  assumes "cx_bundle c = Some fediverse_bundle"
  shows "post_reserve lower c p = int (length (runes (author_line p))) + 33"
proof -
  have "runes (navigation lower c [''nav.next'', ''nav.prev'', ''nav.back'']) = map of_char ''1. Next 2. Prev 0. Back''"
    unfolding navigation_plain(2) [OF assms] by (rule runes_ascii) simp
  then show ?thesis
    using widest_counter runes_postHeader [of 99 99 p] by (simp add: post_reserve_def widestPageCounter_def)
qed

lemma post_reserve_bounds:
  assumes "cx_bundle c = Some fediverse_bundle"
  shows "0 \<le> post_reserve lower c p \<and> post_reserve lower c p \<le> 61"
  using length_Label [of "po_Author p" maxHeaderLen "''Post''"]
  by (simp add: post_reserve_eq [OF assms] maxHeaderLen_def)

section \<open>A post is shown whole\<close>

lemma post_content:
  assumes "cx_bundle c = Some fediverse_bundle" "postPages lower c = Inr pages"
    "0 \<le> fs_Cursor (cx_State c)" "fs_Cursor (cx_State c) < int (length (fs_Posts (cx_State c)))"
  shows "concat (map (\<lambda>p. visible (runes p)) pages) = visible (runes (po_Text (fs_Posts (cx_State c) ! nat (fs_Cursor (cx_State c)))))"
proof -
  let ?p = "fs_Posts (cx_State c) ! nat (fs_Cursor (cx_State c))"
  have pages: "pages = Paginate (po_Text ?p) (post_reserve lower c ?p)"
    using assms(2-4) by (simp add: postPages_def Let_def split: if_splits)
  have bounds: "0 \<le> post_reserve lower c ?p" "post_reserve lower c ?p \<le> 61"
    using post_reserve_bounds [OF assms(1)] by blast+
  then have "pages = Paginate_loop (runes (TrimSpace (po_Text ?p))) (post_reserve lower c ?p) 0"
    by (simp add: pages Paginate_def MaxUCS2Units_def MaxScreen_def MaxSeptets_def)
  then show ?thesis
    using Paginate_content [OF bounds(1), of "TrimSpace (po_Text ?p)" 0] bounds(2)
    by (simp add: runes_TrimSpace_visible)
qed

section \<open>A post screen fits\<close>

lemma fits_around_basic:
  assumes "set as \<subseteq> set gsm7Basic" "set bs \<subseteq> set gsm7Basic" "fits_within (length as + length bs) rs"
  shows "fits_within 0 (as @ rs @ bs)"
proof -
  have small: "\<forall>r \<in> set gsm7Basic. \<not> r > 0xFFFF" by (simp add: gsm7Basic_def)
  have basic: "gsm_text xs \<and> septets xs = length xs \<and> units xs = length xs" if "set xs \<subseteq> set gsm7Basic" for xs
    using that small by (induction xs) (auto simp: gsm_text_def gsm_rune_def)
  show ?thesis using assms(3) basic [OF assms(1)] basic [OF assms(2)]
    by (auto simp: measure_defs split: if_splits)
qed

lemma fits_within_mono: "fits_within k rs \<Longrightarrow> j \<le> k \<Longrightarrow> fits_within j rs"
  by (simp add: fits_within_def)

lemma plain_basic_set: "list_all plain s \<Longrightarrow> set (map of_char s) \<subseteq> set gsm7Basic"
  by (auto simp: list_all_iff dest: plain_basic)

lemma post_screen_fits:
  assumes words: "cx_bundle c = Some fediverse_bundle" and pages: "postPages lower c = Inr pages" "length pages \<le> 99"
    and page: "0 \<le> fs_Page (cx_State c)" "fs_Page (cx_State c) < int (length pages)"
    and basic: "set (runes (author_line (fs_Posts (cx_State c) ! nat (fs_Cursor (cx_State c))))) \<subseteq> set gsm7Basic"
    and body: "renderPost lower c = (Inr body, c')"
  shows "FitsScreen body"
proof -
  let ?s = "cx_State c" and ?n = "int (length pages)"
  let ?p = "fs_Posts ?s ! nat (fs_Cursor ?s)"
  let ?text = "pages ! nat (fs_Page ?s)"
  let ?head = "postHeader ?p (fs_Page ?s + 1) ?n" and ?nav = "navigation lower c (offered (fs_Page ?s) ?n)"
  have "pages \<noteq> []" using page by auto
  from renderPost_page [OF pages(1) this page] body
  have b: "body = ?head @ [CHR 0x0A] @ ?text @ [CHR 0x0A] @ ?nav" by simp
  have counter: "list_all plain (page_counter (fs_Page ?s + 1) ?n)" "length (page_counter (fs_Page ?s + 1) ?n) \<le> 8"
    using page_counter_plain [of "fs_Page ?s + 1" ?n] page pages(2) by auto
  have nav: "list_all plain ?nav" "length ?nav \<le> 23" using navigation_plain(1) [OF words] by blast+
  have head: "runes ?head = runes (author_line ?p) @ map of_char (page_counter (fs_Page ?s + 1) ?n)"
    by (rule runes_postHeader [OF counter(1)])
  have in_page: "?text \<in> set pages" using page by (simp add: nat_less_iff)
  have "pages = Paginate (po_Text ?p) (post_reserve lower c ?p)"
    using pages(1) in_page by (auto simp: postPages_def Let_def split: if_splits)
  then have "fits_within (nat (post_reserve lower c ?p)) (runes ?text)"
    using in_page Paginate_pages [of "post_reserve lower c ?p"] post_reserve_bounds [OF words, of lower ?p]
    by (auto simp: Paginate_def split: if_splits)
  moreover have "length (runes ?head @ [0x0A]) + length (0x0A # map of_char ?nav :: rune list) \<le> nat (post_reserve lower c ?p)"
    using counter(2) nav(2) by (simp add: head post_reserve_eq [OF words])
  ultimately have fit: "fits_within (length (runes ?head @ [0x0A]) + length (0x0A # map of_char ?nav :: rune list)) (runes ?text)"
    by (rule fits_within_mono)
  have "set (runes ?head @ [0x0A]) \<subseteq> set gsm7Basic"
    using basic plain_basic_set [OF counter(1)] plain_basic_set [of "[CHR 0x0A]"] unfolding head
    by (simp add: plain_def Let_def)
  moreover have "set (0x0A # map of_char ?nav) \<subseteq> set gsm7Basic"
    using plain_basic_set [OF nav(1)] plain_basic_set [of "[CHR 0x0A]"] by (simp add: plain_def Let_def)
  ultimately have "fits_within 0 ((runes ?head @ [0x0A]) @ runes ?text @ (0x0A # map of_char ?nav))"
    by (rule fits_around_basic [OF _ _ fit])
  moreover have "runes body = (runes ?head @ [0x0A]) @ runes ?text @ (0x0A # map of_char ?nav)"
  proof -
    have "starts_rune ([CHR 0x0A] @ t)" for t by (simp add: is_cont_def)
    then show ?thesis
      unfolding b by (simp add: runes_append runes_ascii_Cons runes_plain [OF nav(1)])
  qed
  ultimately show ?thesis by (simp add: FitsScreen_runes)
qed

section \<open>An author line outside the basic alphabet\<close>

text \<open>
  A brace costs two septets and is counted as one rune: an author of 28 braces and a post of 121 letters
  make a screen of 186 septets, and shrinking it cuts off the way back.
\<close>

definition brace_post :: Post where
  "brace_post = \<lparr>po_Author = replicate 28 (CHR 0x7B), po_Text = replicate 121 (CHR ''a''), po_When = []\<rparr>"

definition brace_context :: "Event \<Rightarrow> fstate Context" where
  "brace_context ev =
     \<lparr>cx_Event = ev, cx_Turn = 2,
      cx_State = \<lparr>fs_Posts = [brace_post], fs_Cursor = 0, fs_Page = 0, fs_Listed = 1\<rparr>,
      cx_Lang = ''en'', cx_notice = [], cx_bundle = Some fediverse_bundle\<rparr>"

lemma runes_braces: "runes (replicate n (CHR 0x7B)) = replicate n 0x7B"
  by (simp add: runes_ascii ascii_def)

lemma OneLine_unbroken:
  assumes "s \<noteq> []" "\<forall>r \<in> set (runes s). \<not> line_break r"
  shows "OneLine s = s"
proof -
  have "fields_by (line_break \<circ> snd) (chunks s) = [chunks s]"
    using assms by (intro fields_by_single) (auto simp: runes_def simp flip: runes_eq_Nil)
  then show ?thesis by (simp add: OneLine_def FieldsFunc_def)
qed

lemma author_line_braces: "author_line brace_post = replicate 28 (CHR 0x7B)"
proof -
  let ?s = "replicate 28 (CHR 0x7B)"
  have "gsm_text (runes ?s)" unfolding runes_braces by (simp add: gsm_text_def gsm_rune_def gsm7Extended_def)
  then have gsm: "ToGSM ?s = ?s" by (simp add: ToGSM_def EncodingOf_runes)
  have "OneLine ?s = ?s" by (rule OneLine_unbroken) (simp_all add: runes_braces line_break_def)
  moreover have "TrimSpace ?s = ?s" by (rule TrimSpace_plain) (simp add: list_all_iff)
  ultimately have "Label ?s 28 ''Post'' = Truncate ?s 28"
    using runes_braces [of 28] by (simp add: Label_def gsm Let_def)
  also have "Truncate ?s 28 = ?s" by (rule Truncate_short) (simp_all add: runes_braces)
  finally show ?thesis by (simp add: brace_post_def maxHeaderLen_def)
qed

lemma Paginate_letters:
  assumes "1 \<le> n" "0 \<le> reserve" "reserve < 70" "int n + reserve \<le> 182"
  shows "Paginate (replicate n (CHR ''a'')) reserve = [replicate n (CHR ''a'')]"
proof -
  let ?s = "replicate n (CHR ''a'')" and ?rs = "replicate n (0x61 :: rune)"
  have trim: "TrimSpace ?s = ?s" by (rule TrimSpace_plain) (simp add: list_all_iff)
  have valid: "all_valid ?rs" by (simp add: valid_rune_def)
  have "fits_within (nat reserve) (take n ?rs)"
    using assms by (subst fits_basic) (auto simp: gsm7Basic_def MaxSeptets_def)
  from fitRunes_largest [OF valid assms(2) _ this] have "n \<le> fitRunes ?rs reserve" by simp
  moreover have "skip_spaces ?rs 0 = 0" using assms(1) by (cases n) (simp_all add: skip_spaces_def IsSpace_def)
  moreover have "min MaxScreen n = n" using assms by (simp add: MaxScreen_def MaxSeptets_def)
  moreover have "string_of_runes ?rs = ?s"
  proof -
    have "char_of (0x61 :: nat) = CHR ''a''" by code_simp
    then show ?thesis using string_of_runes_ascii [of ?rs] by simp
  qed
  ultimately have "Paginate_loop ?rs reserve 0 = [?s]"
    using assms(1) by (subst Paginate_loop.simps) (simp add: Let_def)
  then show ?thesis
    using assms by (simp add: Paginate_def trim runes_letters MaxUCS2Units_def MaxScreen_def MaxSeptets_def)
qed

lemma brace_screen:
  "renderPost lower (brace_context ev) =
     (Inr (replicate 28 (CHR 0x7B) @ [CHR 0x0A] @ replicate 121 (CHR ''a'') @ [CHR 0x0A] @ ''0. Back''), brace_context ev)"
proof -
  have words: "cx_bundle (brace_context ev) = Some fediverse_bundle" by (simp add: brace_context_def)
  have "post_reserve lower (brace_context ev) brace_post = 61"
    by (simp add: post_reserve_eq [OF words] author_line_braces runes_braces)
  then have "postPages lower (brace_context ev) = Inr (Paginate (replicate 121 (CHR ''a'')) 61)"
    by (simp add: postPages_def Let_def brace_context_def) (simp add: brace_post_def)
  then have "postPages lower (brace_context ev) = Inr [replicate 121 (CHR ''a'')]"
    by (subst (asm) Paginate_letters) simp_all
  from renderPost_page [OF this] have
    "renderPost lower (brace_context ev) =
       (Inr (postHeader brace_post 1 1 @ [CHR 0x0A] @ replicate 121 (CHR ''a'') @ [CHR 0x0A] @ navigation lower (brace_context ev) (offered 0 1)), brace_context ev)"
    by (simp add: brace_context_def)
  moreover have "postHeader brace_post 1 1 = replicate 28 (CHR 0x7B)"
    by (simp add: postHeader_def author_line_braces)
  moreover have "navigation lower (brace_context ev) (offered 0 1) = ''0. Back''"
    using navigation_words(3) [OF words, of lower] by (simp add: navigation_def offered_def ToGSM_plain plain_def)
  ultimately show ?thesis by simp
qed

lemma brace_screen_cut:
  assumes "renderPost lower (brace_context ev) = (Inr body, c')"
  shows "\<not> FitsScreen body" "\<not> suffix ''0. Back'' (Shrink body)"
proof -
  have body: "body = replicate 28 (CHR 0x7B) @ [CHR 0x0A] @ replicate 121 (CHR ''a'') @ [CHR 0x0A] @ ''0. Back''"
    using assms brace_screen [of lower ev] by simp
  have runes: "runes body = replicate 28 0x7B @ [0x0A] @ replicate 121 0x61 @ [0x0A] @ map of_char ''0. Back''"
    unfolding body by (subst runes_ascii) (simp_all add: ascii_def)
  have "gsm_text (runes body)" unfolding runes
    by (simp add: gsm_text_def gsm_rune_def gsm7Extended_def gsm7Basic_def)
  moreover have "septets (runes body) = 186"
  proof -
    have "septets (replicate n r) = (if r \<in> set gsm7Basic then n else 2 * n)" for n r by (induction n) auto
    then show ?thesis unfolding runes by (simp add: gsm7Basic_def)
  qed
  ultimately show over: "\<not> FitsScreen body" by (simp add: FitsScreen_runes measure_defs)
  have "runes (Shrink body) \<noteq> [] \<and> last (runes (Shrink body)) = 0x2E"
    by (cases rule: runes_Shrink [OF over]) (auto simp: last_replicate)
  moreover have "last (runes (t @ ''0. Back'')) = of_char CHR ''k''" for t
    using runes_append_ascii [of "''0. Back''" t] by simp
  ultimately show "\<not> suffix ''0. Back'' (Shrink body)" by (auto simp: suffix_def)
qed

end
