(* ===== verification/Go_Valid.thy ===== *)
theory Go_Valid
  imports Go_Strings
begin

text \<open>
  Valid UTF-8.  Package \<^verbatim>\<open>encoding/json\<close> writes and reads strings as sequences of runes: a byte that belongs to no
  rune is replaced by U+FFFD, so a string survives exactly when it is valid.  The functions the program applies to
  texts keep them valid, since they cut and replace at characters of ASCII or between runes.
\<close>

section \<open>What a codec of runes makes of a string\<close>

definition utf8_coerced :: "string \<Rightarrow> string" where
  "utf8_coerced s = string_of_runes (runes s)"

definition valid_utf8 :: "string \<Rightarrow> bool" where
  "valid_utf8 s \<longleftrightarrow> utf8_coerced s = s"

lemma runes_coerced [simp]: "runes (utf8_coerced s) = runes s"
  unfolding utf8_coerced_def by (rule runes_string_of_runes) (auto intro: runes_valid)

lemma utf8_coerced_idem [simp]: "utf8_coerced (utf8_coerced s) = utf8_coerced s"
  by (metis runes_coerced utf8_coerced_def)

lemma valid_utf8_coerced [simp]: "valid_utf8 (utf8_coerced s)"
  by (simp add: valid_utf8_def)

lemma utf8_coerced_Nil [simp]: "utf8_coerced s = [] \<longleftrightarrow> s = []"
  by (metis runes_coerced runes_eq_Nil)

lemma utf8_coerced_append: "starts_rune t \<Longrightarrow> utf8_coerced (s @ t) = utf8_coerced s @ utf8_coerced t"
  by (simp add: utf8_coerced_def runes_append)

lemma utf8_coerced_ascii: "ascii s \<Longrightarrow> utf8_coerced s = s"
  by (induction s) (simp_all add: utf8_coerced_def runes_ascii_Cons string_of_runes_ascii encode_rune_def valid_rune_def)

lemma utf8_coerced_ascii_Cons: "of_char c < (0x80 :: nat) \<Longrightarrow> utf8_coerced (c # s) = c # utf8_coerced s"
  by (simp add: utf8_coerced_def runes_ascii_Cons encode_rune_def valid_rune_def)

text \<open>The storage key of coerced parts, coerced, is that of the parts.\<close>

lemma utf8_coerced_key:
  "utf8_coerced (utf8_coerced a @ '':'' @ utf8_coerced b) = utf8_coerced (a @ '':'' @ b)"
  by (simp add: utf8_coerced_append utf8_coerced_ascii_Cons is_cont_def)

section \<open>Valid strings\<close>

lemma valid_string_of_runes: "\<forall>r \<in> set rs. valid_rune r \<Longrightarrow> valid_utf8 (string_of_runes rs)"
  by (simp add: valid_utf8_def utf8_coerced_def runes_string_of_runes)

lemma valid_utf8_runes: "valid_utf8 s \<Longrightarrow> string_of_runes (runes s) = s"
  by (simp add: valid_utf8_def utf8_coerced_def)

lemma valid_ascii: "ascii s \<Longrightarrow> valid_utf8 s"
  by (simp add: valid_utf8_def utf8_coerced_ascii)

lemma valid_append:
  assumes "valid_utf8 s" "valid_utf8 t"
  shows "valid_utf8 (s @ t)"
proof -
  have "valid_utf8 (string_of_runes (runes s @ runes t))"
    by (rule valid_string_of_runes) (auto intro: runes_valid)
  then show ?thesis using assms by (simp add: valid_utf8_runes)
qed

lemma valid_ascii_Cons: "of_char c < (0x80 :: nat) \<Longrightarrow> valid_utf8 (c # s) \<longleftrightarrow> valid_utf8 s"
  by (simp add: valid_utf8_def utf8_coerced_ascii_Cons)

lemma valid_chunks:
  assumes "valid_utf8 s"
  shows "chunks s = map (\<lambda>r. (encode_rune r, r)) (runes s)"
proof -
  have "chunks (string_of_runes rs) = map (\<lambda>r. (encode_rune r, r)) rs" if "\<forall>r \<in> set rs. valid_rune r" for rs
    using that by (induction rs) (simp_all add: chunks_encode_rune chunks.simps)
  then show ?thesis using valid_utf8_runes [OF assms] runes_valid by metis
qed

lemma valid_bytes_of:
  assumes "valid_utf8 s" "set cs \<subseteq> set (chunks s)"
  shows "valid_utf8 (bytes_of cs)"
proof -
  have each: "fst c = encode_rune (snd c) \<and> valid_rune (snd c)" if "c \<in> set cs" for c
    using that assms(2) valid_chunks [OF assms(1)] runes_valid by fastforce
  then have "bytes_of cs = string_of_runes (map snd cs)" by (induction cs) simp_all
  moreover have "valid_utf8 (string_of_runes (map snd cs))" using each by (intro valid_string_of_runes) auto
  ultimately show ?thesis by simp
qed

text \<open>A byte outside ASCII is inside a rune: a valid string is read by characters of ASCII and whole runes.\<close>

abbreviation high :: "char \<Rightarrow> bool" where
  "high c \<equiv> \<not> of_char c < (0x80 :: nat)"

lemma encode_rune_high: "\<not> r < 0x80 \<Longrightarrow> c \<in> set (encode_rune r) \<Longrightarrow> high c"
proof -
  assume "\<not> r < 0x80" "c \<in> set (encode_rune r)"
  moreover have "(if valid_rune r then r else RuneError) div 262144 < 16"
    by (auto simp: valid_rune_def RuneError_def div_less_iff_less_mult)
  ultimately show ?thesis
    by (auto simp: encode_rune_def Let_def RuneError_def split: if_splits)
qed

lemma valid_induct [consumes 1, case_names Nil ascii high]:
  assumes "valid_utf8 s" "P []"
    "\<And>c t. of_char c < (0x80 :: nat) \<Longrightarrow> valid_utf8 t \<Longrightarrow> P t \<Longrightarrow> P (c # t)"
    "\<And>x t. x \<noteq> [] \<Longrightarrow> \<forall>c \<in> set x. high c \<Longrightarrow> valid_utf8 x \<Longrightarrow> valid_utf8 t \<Longrightarrow> P t \<Longrightarrow> P (x @ t)"
  shows "P s"
proof -
  have "P (string_of_runes rs)" if "\<forall>r \<in> set rs. valid_rune r" for rs
    using that
  proof (induction rs)
    case Nil
    then show ?case using assms(2) by simp
  next
    case (Cons r rs)
    then have rest: "P (string_of_runes rs)" "valid_utf8 (string_of_runes rs)" by (simp_all add: valid_string_of_runes)
    show ?case
    proof (cases "r < 0x80")
      case True
      then have "encode_rune r = [char_of r]" using Cons.prems by (simp add: encode_rune_def)
      then show ?thesis using assms(3) [of "char_of r" "string_of_runes rs"] rest True by simp
    next
      case False
      have "valid_utf8 (encode_rune r)" using valid_string_of_runes [of "[r]"] Cons.prems by simp
      then show ?thesis using assms(4) [of "encode_rune r" "string_of_runes rs"] rest encode_rune_high [OF False] by simp
    qed
  qed
  then show ?thesis using valid_utf8_runes [OF assms(1)] runes_valid by metis
qed

lemma valid_after_ascii:
  assumes "valid_utf8 (s @ c # t)" "of_char c < (0x80 :: nat)"
  shows "valid_utf8 s \<and> valid_utf8 t"
proof -
  have "valid_utf8 u \<Longrightarrow> \<forall>s. u = s @ c # t \<longrightarrow> valid_utf8 s \<and> valid_utf8 t" for u
  proof (induction u rule: valid_induct)
    case (ascii d u)
    show ?case
    proof (intro allI impI)
      fix s assume "d # u = s @ c # t"
      then show "valid_utf8 s \<and> valid_utf8 t"
        using ascii by (cases s) (auto simp: valid_ascii_Cons valid_ascii)
    qed
  next
    case (high x u)
    show ?case
    proof (intro allI impI)
      fix s assume eq: "x @ u = s @ c # t"
      then obtain s' where "s = x @ s'" "u = s' @ c # t"
        using high.hyps(2) assms(2) by (auto simp: append_eq_append_conv2 append_eq_Cons_conv)
      then show "valid_utf8 s \<and> valid_utf8 t" using high valid_append by simp
    qed
  qed simp
  then show ?thesis using assms(1) by blast
qed

lemma valid_drop_ascii: "ascii p \<Longrightarrow> valid_utf8 (p @ t) \<longleftrightarrow> valid_utf8 t"
  by (induction p) (simp_all add: valid_ascii_Cons)

section \<open>Functions on valid strings\<close>

lemma valid_TrimSpace: "valid_utf8 s \<Longrightarrow> valid_utf8 (TrimSpace s)"
  unfolding TrimSpace_def
  by (rule valid_bytes_of, assumption)
    (meson drop_while_end_prefix set_mono_prefix set_mono_suffix subset_trans suffix_dropWhile)

lemma valid_TrimRightFunc: "valid_utf8 s \<Longrightarrow> valid_utf8 (TrimRightFunc s p)"
  unfolding TrimRightFunc_def by (rule valid_bytes_of, assumption) (rule set_mono_prefix [OF drop_while_end_prefix])

end
