(* ===== verification/Fediverse_Valid.thy ===== *)
theory Fediverse_Valid
  imports Fediverse_Text Go_Valid
begin

text \<open>
  The text of a post is valid UTF-8, so it comes back from the state of a dialogue as it was stored: the decoder
  of the timeline gives valid strings, and every step from there to the post keeps them valid.
\<close>

section \<open>The steps\<close>

lemma valid_cases [consumes 1, case_names Nil ascii high]:
  assumes "valid_utf8 s" "s = [] \<Longrightarrow> thesis"
    "\<And>c t. s = c # t \<Longrightarrow> of_char c < (0x80 :: nat) \<Longrightarrow> valid_utf8 t \<Longrightarrow> thesis"
    "\<And>x t. s = x @ t \<Longrightarrow> x \<noteq> [] \<Longrightarrow> \<forall>c \<in> set x. high c \<Longrightarrow> valid_utf8 x \<Longrightarrow> valid_utf8 t \<Longrightarrow> thesis"
  shows thesis
proof -
  have "(s = [] \<longrightarrow> thesis) \<longrightarrow> (\<forall>c t. s = c # t \<longrightarrow> of_char c < (0x80 :: nat) \<longrightarrow> valid_utf8 t \<longrightarrow> thesis) \<longrightarrow>
      (\<forall>x t. s = x @ t \<longrightarrow> x \<noteq> [] \<longrightarrow> (\<forall>c \<in> set x. high c) \<longrightarrow> valid_utf8 x \<longrightarrow> valid_utf8 t \<longrightarrow> thesis) \<longrightarrow> thesis"
    using assms(1) by (rule valid_induct) blast+
  then show thesis using assms(2-4) by blast
qed

lemma ReplaceAll_high:
  "\<forall>c \<in> set x. high c \<Longrightarrow> ascii old \<Longrightarrow> ReplaceAll old new (x @ t) = x @ ReplaceAll old new t"
proof (induction x)
  case (Cons c x)
  then have "\<not> (old \<noteq> [] \<and> prefix old (c # x @ t))" by (cases old) auto
  with Cons show ?case by auto
qed simp

lemma valid_ReplaceAll:
  assumes "ascii old" "ascii new" "valid_utf8 s"
  shows "valid_utf8 (ReplaceAll old new s)"
  using assms(3)
proof (induction s rule: length_induct)
  case (1 s)
  from 1(2) show ?case
  proof (cases rule: valid_cases)
    case (ascii c t)
    show ?thesis
    proof (cases "old \<noteq> [] \<and> prefix old (c # t)")
      case True
      then obtain u where u: "c # t = old @ u" by (auto elim: prefixE)
      have "drop (length old - 1) t = u" using u True by (cases old) auto
      moreover have "valid_utf8 u" using 1(2) ascii(1) u valid_drop_ascii [OF assms(1), of u] by simp
      moreover have "length u < length s" using ascii(1) u True by simp
      ultimately show ?thesis using 1(1) True ascii(1) valid_append [OF valid_ascii [OF assms(2)]] by simp
    next
      case False
      have "valid_utf8 (ReplaceAll old new t)" using 1(1) ascii by simp
      then have "valid_utf8 (c # ReplaceAll old new t)" using ascii(2) by (simp add: valid_ascii_Cons)
      with False show ?thesis by (simp only: ascii(1) ReplaceAll.simps if_False)
    qed
  next
    case (high x t)
    then have "valid_utf8 (ReplaceAll old new t)" using 1(1) by simp
    with high show ?thesis using valid_append by (simp add: ReplaceAll_high [OF _ assms(1)])
  qed (simp add: valid_ascii)
qed

lemma remove_tags_high: "\<forall>c \<in> set x. high c \<Longrightarrow> remove_tags (x @ t) = x @ remove_tags t"
  by (induction x) auto

lemma valid_remove_tags: "valid_utf8 s \<Longrightarrow> valid_utf8 (remove_tags s)"
proof (induction s rule: length_induct)
  case (1 s)
  from 1(2) show ?case
  proof (cases rule: valid_cases)
    case (ascii c t)
    show ?thesis
    proof (cases "c = CHR ''<'' \<and> CHR ''>'' \<in> set t")
      case True
      then obtain u v where uv: "t = u @ CHR ''>'' # v" "CHR ''>'' \<notin> set u" by (meson split_list_first)
      then have rest: "tl (dropWhile (\<lambda>d. d \<noteq> CHR ''>'') t) = v" by (subst uv(1), subst dropWhile_append2) auto
      have "valid_utf8 v" using valid_after_ascii [of u "CHR ''>''" v] ascii(3) uv(1) by simp
      moreover have "length v < length s" using ascii(1) uv(1) by simp
      ultimately have "valid_utf8 (remove_tags v)" using 1(1) by blast
      with True show ?thesis by (simp only: ascii(1) remove_tags.simps if_True rest refl simp_thms)
    next
      case False
      have "valid_utf8 (remove_tags t)" using 1(1) ascii by simp
      then have "valid_utf8 (c # remove_tags t)" using ascii(2) by (simp add: valid_ascii_Cons)
      with False show ?thesis by (simp only: ascii(1) remove_tags.simps if_False)
    qed
  next
    case (high x t)
    then have "valid_utf8 (remove_tags t)" using 1(1) by simp
    with high show ?thesis using valid_append by (simp add: remove_tags_high)
  qed (simp add: valid_ascii)
qed

lemma valid_dropWhile_ascii:
  assumes "\<And>c. P c \<Longrightarrow> of_char c < (0x80 :: nat)" "valid_utf8 s"
  shows "valid_utf8 (dropWhile P s)"
proof -
  have "ascii (takeWhile P s)" using assms(1) by (auto simp: ascii_def dest: set_takeWhileD)
  from valid_drop_ascii [OF this, of "dropWhile P s"] assms(2) show ?thesis by simp
qed

lemma blank_ascii: "blank c \<Longrightarrow> of_char c < (0x80 :: nat)"
  by (auto simp: blank_def)

lemma squeeze_blanks_high: "\<forall>c \<in> set x. high c \<Longrightarrow> squeeze_blanks (x @ t) = x @ squeeze_blanks t"
  by (induction x) (auto dest: blank_ascii)

lemma valid_squeeze_blanks: "valid_utf8 s \<Longrightarrow> valid_utf8 (squeeze_blanks s)"
proof (induction s rule: length_induct)
  case (1 s)
  from 1(2) show ?case
  proof (cases rule: valid_cases)
    case (ascii c t)
    have shorter: "length (dropWhile blank t) < length s" using ascii(1) length_dropWhile_le [of blank t] by simp
    then have "valid_utf8 (squeeze_blanks (dropWhile blank t))"
      using 1(1) valid_dropWhile_ascii [OF blank_ascii ascii(3)] by blast
    moreover have "valid_utf8 (squeeze_blanks t)" using 1(1) ascii by simp
    ultimately show ?thesis using ascii(1,2) by (simp add: valid_ascii_Cons)
  next
    case (high x t)
    then have "valid_utf8 (squeeze_blanks t)" using 1(1) by simp
    with high show ?thesis using valid_append by (simp add: squeeze_blanks_high)
  qed (simp add: valid_ascii)
qed

lemma squeeze_lines_high: "\<forall>c \<in> set x. high c \<Longrightarrow> squeeze_lines (x @ t) = x @ squeeze_lines t"
  by (induction x) auto

lemma valid_squeeze_lines: "valid_utf8 s \<Longrightarrow> valid_utf8 (squeeze_lines s)"
proof (induction s rule: length_induct)
  case (1 s)
  from 1(2) show ?case
  proof (cases rule: valid_cases)
    case (ascii c t)
    have shorter: "length (dropWhile (\<lambda>d. d = CHR 0x0A) t) < length s"
      using ascii(1) length_dropWhile_le [of "\<lambda>d. d = CHR 0x0A" t] by simp
    have "valid_utf8 (dropWhile (\<lambda>d. d = CHR 0x0A) t)" by (rule valid_dropWhile_ascii [OF _ ascii(3)]) auto
    with 1(1) shorter have "valid_utf8 (squeeze_lines (dropWhile (\<lambda>d. d = CHR 0x0A) t))" by blast
    moreover have "ascii (replicate n (CHR 0x0A))" for n by (simp add: ascii_def)
    moreover have "valid_utf8 (squeeze_lines t)" using 1(1) ascii by simp
    ultimately show ?thesis using ascii(1,2) by (simp add: valid_ascii_Cons valid_append valid_ascii del: replicate.simps)
  next
    case (high x t)
    then have "valid_utf8 (squeeze_lines t)" using 1(1) by simp
    with high show ?thesis using valid_append by (simp add: squeeze_lines_high)
  qed (simp add: valid_ascii)
qed

lemma valid_stripHTML:
  assumes "\<And>s. valid_utf8 s \<Longrightarrow> valid_utf8 (unescape s)" "valid_utf8 s"
  shows "valid_utf8 (stripHTML unescape s)"
  using assms
  by (simp add: stripHTML_def Let_def valid_TrimSpace valid_squeeze_lines valid_squeeze_blanks valid_remove_tags valid_ReplaceAll)

lemma valid_capBytes:
  assumes "valid_utf8 s"
  shows "valid_utf8 (capBytes s limit)"
proof (cases "int (length s) \<le> limit")
  case False
  let ?n = "capBytes_loop limit (chunks s) 0 0"
  obtain k where k: "?n = length (bytes_of (take k (chunks s)))"
    using capBytes_loop_place [of limit "chunks s" 0 0] by (metis add_0 bytes_of_simps(1) list.size(3) take_0)
  have "take ?n s = bytes_of (take k (chunks s))"
    using bytes_of_take_prefix [of k s] unfolding k by (metis append_eq_conv_conj prefixE)
  then have "valid_utf8 (take ?n s)" using valid_bytes_of [OF assms, of "take k (chunks s)"] by (simp add: set_take_subset)
  with False show ?thesis by (simp add: capBytes_def valid_append valid_TrimRightFunc valid_ascii)
qed (simp add: capBytes_def assms)

section \<open>What is relied on\<close>

text \<open>
  A decoder of \<^verbatim>\<open>encoding/json\<close> gives valid strings, whatever it reads, and resolving the entities of a valid
  string leaves a valid one.
\<close>

definition valid_body :: "apiStatus \<Rightarrow> bool" where
  "valid_body s \<longleftrightarrow> valid_utf8 (api_Content s) \<and> valid_utf8 (api_Acct s) \<and>
     list_all (\<lambda>m. valid_utf8 (md_Type m) \<and> valid_utf8 (md_Description m)) (api_Media s)"

definition reads_utf8 :: "remote \<Rightarrow> bool" where
  "reads_utf8 rm \<longleftrightarrow>
     (\<forall>s. valid_utf8 s \<longrightarrow> valid_utf8 (rm_UnescapeString rm s)) \<and>
     (\<forall>seen stop statuses. rm_Decode rm seen stop = Inr statuses \<longrightarrow>
        list_all (\<lambda>s. valid_body s \<and> pred_option valid_body (api_Reblog s)) statuses)"

lemma valid_attachment_text: "valid_utf8 (md_Type m) \<Longrightarrow> valid_utf8 (md_Description m) \<Longrightarrow> valid_utf8 (attachment_text m)"
  by (simp add: attachment_text_def Let_def valid_append valid_ascii valid_ascii_Cons valid_TrimSpace)

lemma valid_concat: "list_all valid_utf8 xs \<Longrightarrow> valid_utf8 (concat xs)"
  by (induction xs) (simp_all add: valid_append valid_ascii)

lemma toPost_valid:
  assumes "reads_utf8 rm" "valid_body s" "pred_option valid_body (api_Reblog s)"
  shows "valid_utf8 (po_Text (toPost rm now s))"
proof -
  define body where "body = (case api_Reblog s of None \<Rightarrow> s | Some b \<Rightarrow> b)"
  have "valid_body body" using assms(2,3) by (cases "api_Reblog s") (simp_all add: body_def)
  then have parts: "valid_utf8 (stripHTML (rm_UnescapeString rm) (api_Content body))"
    "valid_utf8 (concat (map attachment_text (api_Media body)))"
    using assms(1) by (auto simp: valid_body_def reads_utf8_def list_all_iff intro!: valid_stripHTML valid_concat valid_attachment_text)
  have "valid_utf8 (case api_Reblog s of None \<Rightarrow> [] | Some b \<Rightarrow> ''RT @'' @ api_Acct b @ '': '')"
    using assms(3) by (cases "api_Reblog s") (simp_all add: valid_body_def valid_ascii valid_append valid_ascii_Cons)
  with parts show ?thesis by (simp add: toPost_def Let_def valid_capBytes valid_TrimSpace valid_append flip: body_def)
qed

end
