(* ===== verification/Fediverse_Main.thy ===== *)
theory Fediverse_Main
  imports Fediverse_App Fediverse_Valid Sdk_Handler
begin

text \<open>
  The start of \<^verbatim>\<open>adapters/fediverse/main.go\<close>: the settings, the secret without which the program does not
  run, the application over the instance it was given, behind the SDK's handler, and the endpoints.  The environment
  answers the empty string for what is not set; a flag that was not given is \<open>None\<close>.
\<close>

definition envOr :: "(string \<Rightarrow> string) \<Rightarrow> string \<Rightarrow> string \<Rightarrow> string" where
  "envOr env key fallback = (let v = env key in if v \<noteq> [] then v else fallback)"

datatype run_error = SecretUnset | AppRefused app_error

text \<open>The client of an instance: what the remote side does and the clock depend on the turn.\<close>

definition instance_client ::
    "(fstate Context \<Rightarrow> remote) \<Rightarrow> (fstate Context \<Rightarrow> time) \<Rightarrow> string \<Rightarrow>
     fstate Context \<Rightarrow> nat \<Rightarrow> timeline_error + Post list" where
  "instance_client remote_at clock instance_url c limit = PublicTimeline (remote_at c) instance_url (clock c) limit"

definition fediverse_run ::
    "(rune \<Rightarrow> rune) \<Rightarrow> (fstate Context \<Rightarrow> remote) \<Rightarrow> (fstate Context \<Rightarrow> time) \<Rightarrow> (string \<Rightarrow> string) \<Rightarrow>
     string option \<Rightarrow> string option \<Rightarrow> run_error + string \<times> fstate Handler" where
  "fediverse_run lower remote_at clock env listen_flag instance_flag =
     (let listen = (case listen_flag of Some v \<Rightarrow> v | None \<Rightarrow> envOr env ''FEDIVERSE_LISTEN'' '':8081'');
          instance_url = (case instance_flag of Some v \<Rightarrow> v | None \<Rightarrow> envOr env ''FEDIVERSE_INSTANCE'' ''https://fosstodon.org'');
          secret = env ''FEDIVERSE_WEBHOOK_SECRET''
      in if secret = [] then Inl SecretUnset
         else case newApp lower (instance_client remote_at clock instance_url) of
           Inl err \<Rightarrow> Inl (AppRefused err)
         | Inr app \<Rightarrow> Inr (listen, NewHandler app secret))"

text \<open>The program runs exactly when it has a secret, and then it is the application over some instance.\<close>

lemma fediverse_run_Inr:
  "(\<exists>listen h. fediverse_run lower remote_at clock env lf gf = Inr (listen, h)) \<longleftrightarrow> env ''FEDIVERSE_WEBHOOK_SECRET'' \<noteq> []"
proof -
  define url where "url = (case gf of Some v \<Rightarrow> v | None \<Rightarrow> envOr env ''FEDIVERSE_INSTANCE'' ''https://fosstodon.org'')"
  obtain app where "newApp lower (instance_client remote_at clock url) = Inr app" using newApp_ok by blast
  then show ?thesis by (auto simp: fediverse_run_def Let_def url_def)
qed

lemma fediverse_run_handler:
  assumes "fediverse_run lower remote_at clock env lf gf = Inr (listen, h)"
  obtains url where "newApp lower (instance_client remote_at clock url) = Inr (hd_app h)" "hd_secret h \<noteq> []"
  using assms by (auto simp: fediverse_run_def Let_def NewHandler_def split: sum.splits if_splits)

text \<open>What a choice of the timeline brings into the state: posts of bounded and valid text, or nothing at all.\<close>

definition posts_capped :: "fstate \<Rightarrow> bool" where
  "posts_capped s \<longleftrightarrow> list_all (\<lambda>p. length (po_Text p) \<le> 900 \<and> valid_utf8 (po_Text p)) (fs_Posts s)"

lemma menu_Handle_capped:
  assumes "reads_utf8 (remote_at c)" "posts_capped (cx_State c)" "menu_Handle lower (instance_client remote_at clock url) c inp = (r, c')"
  shows "posts_capped (cx_State c')"
proof -
  have "list_all (\<lambda>p. length (po_Text p) \<le> 900 \<and> valid_utf8 (po_Text p)) posts"
    if "instance_client remote_at clock url c timelineSize = Inr posts" for posts
    using that unfolding instance_client_def
  proof (rule PublicTimeline_Inr)
    fix statuses seen stop
    assume got: "posts = map (toPost (remote_at c) (clock c)) statuses" "rm_Decode (remote_at c) seen stop = Inr statuses"
    then have "list_all (\<lambda>s. valid_body s \<and> pred_option valid_body (api_Reblog s)) statuses"
      using assms(1) unfolding reads_utf8_def by blast
    then show ?thesis using got(1) toPost_valid [OF assms(1)] by (auto simp: list_all_iff toPost_Text)
  qed
  with assms(2,3) show ?thesis
    by (auto simp: menu_Handle_def posts_capped_def split: if_splits sum.splits)
qed

lemma other_callbacks_capped:
  "timeline_Prompt lower c = (r, c') \<Longrightarrow> fs_Posts (cx_State c') = fs_Posts (cx_State c)"
  "timeline_Handle lower c inp = (r', c') \<Longrightarrow> fs_Posts (cx_State c') = fs_Posts (cx_State c)"
  "renderPost lower c = (r, c') \<Longrightarrow> fs_Posts (cx_State c') = fs_Posts (cx_State c)"
  "post_Handle lower c inp = (r', c') \<Longrightarrow> fs_Posts (cx_State c') = fs_Posts (cx_State c)"
  "menu_Prompt lower c = (r, c') \<Longrightarrow> fs_Posts (cx_State c') = fs_Posts (cx_State c)"
  by (auto simp: timeline_Prompt_def timeline_Handle_def renderPost_def post_Handle_def menu_Prompt_def Let_def
      split: prod.splits sum.splits if_splits option.splits)

section \<open>The posts of a dialogue\<close>

definition callbacks_keep :: "('a \<Rightarrow> bool) \<Rightarrow> 'a App \<Rightarrow> bool" where
  "callbacks_keep Q a \<longleftrightarrow>
     (\<forall>n screen. Mapping.lookup (ap_screens a) n = Some screen \<longrightarrow>
        (\<forall>prompt c. sc_Prompt screen = Some prompt \<longrightarrow> Q (cx_State c) \<longrightarrow> Q (cx_State (snd (prompt c)))) \<and>
        (\<forall>h c inp. sc_Handle screen = Some h \<longrightarrow> Q (cx_State c) \<longrightarrow> Q (cx_State (snd (h c inp)))))"

lemma serves_conj:
  assumes "serves P a" "callbacks_keep Q a"
  shows "serves (\<lambda>s. P s \<and> Q s) a"
  unfolding serves_def
proof (intro allI impI conjI)
  fix n screen prompt and c :: "'a Context"
  assume a: "Mapping.lookup (ap_screens a) n = Some screen" "sc_Prompt screen = Some prompt" "P (cx_State c) \<and> Q (cx_State c)"
  then obtain body c' where "prompt c = (Inr body, c')" "P (cx_State c')" using assms(1) unfolding serves_def by blast
  moreover have "Q (cx_State (snd (prompt c)))" using assms(2) a unfolding callbacks_keep_def by blast
  ultimately show "\<exists>body c'. prompt c = (Inr body, c') \<and> P (cx_State c') \<and> Q (cx_State c')" by auto
next
  fix n screen h and c :: "'a Context" and inp
  assume a: "Mapping.lookup (ap_screens a) n = Some screen" "sc_Handle screen = Some h" "P (cx_State c) \<and> Q (cx_State c)"
  then obtain action c' where "h c inp = (Inr action, c')" "P (cx_State c')"
    "ac_Next action = [] \<or> Mapping.lookup (ap_screens a) (ac_Next action) \<noteq> None"
    using assms(1) unfolding serves_def by blast
  moreover have "Q (cx_State (snd (h c inp)))" using assms(2) a unfolding callbacks_keep_def by blast
  ultimately show "\<exists>action c'. h c inp = (Inr action, c') \<and> (P (cx_State c') \<and> Q (cx_State c')) \<and>
      (ac_Next action = [] \<or> Mapping.lookup (ap_screens a) (ac_Next action) \<noteq> None)" by auto
qed

lemma posts_capped_same: "fs_Posts s' = fs_Posts s \<Longrightarrow> posts_capped s \<Longrightarrow> posts_capped s'"
  by (simp add: posts_capped_def)

lemma fediverse_keeps_capped:
  assumes "newApp lower (instance_client remote_at clock url) = Inr app" "\<And>c. reads_utf8 (remote_at c)"
  shows "callbacks_keep posts_capped app"
  unfolding callbacks_keep_def
proof (intro allI impI)
  fix n screen
  assume "Mapping.lookup (ap_screens app) n = Some screen"
  then have "screen \<in> set (fediverse_screens lower (instance_client remote_at clock url))"
    using newApp_simps(4) [OF assms(1)] by simp
  then consider
      "sc_Prompt screen = Some (menu_Prompt lower)" "sc_Handle screen = Some (menu_Handle lower (instance_client remote_at clock url))"
    | "sc_Prompt screen = Some (timeline_Prompt lower)" "sc_Handle screen = Some (timeline_Handle lower)"
    | "sc_Prompt screen = Some (renderPost lower)" "sc_Handle screen = Some (post_Handle lower)"
    | "sc_Prompt screen = Some (\<lambda>c. (Inr (Context_T lower c ''about.body''), c))" "sc_Handle screen = None"
    by (auto simp: fediverse_screens_def)
  then show "(\<forall>prompt c. sc_Prompt screen = Some prompt \<longrightarrow> posts_capped (cx_State c) \<longrightarrow> posts_capped (cx_State (snd (prompt c)))) \<and>
      (\<forall>h c inp. sc_Handle screen = Some h \<longrightarrow> posts_capped (cx_State c) \<longrightarrow> posts_capped (cx_State (snd (h c inp))))"
  proof cases
    case 1
    have "posts_capped (cx_State (snd (menu_Handle lower (instance_client remote_at clock url) c inp)))"
      if "posts_capped (cx_State c)" for c inp
      by (rule menu_Handle_capped [OF assms(2) that prod.collapse [symmetric]])
    moreover have "posts_capped (cx_State (snd (menu_Prompt lower c)))" if "posts_capped (cx_State c)" for c
      by (rule posts_capped_same [OF other_callbacks_capped(5) [OF prod.collapse [symmetric]] that])
    ultimately show ?thesis using 1 by simp
  next
    case 2
    then show ?thesis
      using posts_capped_same [OF other_callbacks_capped(1)] posts_capped_same [OF other_callbacks_capped(2)]
      by (metis option.inject prod.collapse)
  next
    case 3
    then show ?thesis
      using posts_capped_same [OF other_callbacks_capped(3)] posts_capped_same [OF other_callbacks_capped(4)]
      by (metis option.inject prod.collapse)
  qed simp
qed

text \<open>So every state of a dialogue of the running program is safe and holds capped posts only.\<close>

lemma fediverse_dialogue:
  assumes "fediverse_run lower remote_at clock env lf gf = Inr (listen, h)" "\<And>c. reads_utf8 (remote_at c)" "keeps_screens cd (hd_app h)"
    "codec_keeps (\<lambda>s. fs_safe s \<and> posts_capped s) cd" "stored_state lower cd (hd_app h) stored"
  shows "fs_safe (sa_App (restored cd (hd_app h) stored)) \<and> posts_capped (sa_App (restored cd (hd_app h) stored))"
    and "\<exists>resp out. Turn lower cd (hd_app h) ev turn stored = Inr (resp, out) \<and> FitsScreen (resp_Body resp)"
proof -
  obtain url where app: "newApp lower (instance_client remote_at clock url) = Inr (hd_app h)"
    using fediverse_run_handler [OF assms(1)] .
  have "takes_input (hd_app h) (ap_start (hd_app h))"
    using newApp_takes_input [OF app] newApp_simps(2) [OF app] by simp
  note dialogue = dialogue_answers [OF assms(5) newApp_simps(1) [OF app] this assms(3)
      serves_conj [OF fediverse_serves [OF app] fediverse_keeps_capped [OF app assms(2)]] assms(4)]
  show "fs_safe (sa_App (restored cd (hd_app h) stored)) \<and> posts_capped (sa_App (restored cd (hd_app h) stored))"
    by (rule dialogue(1))
  show "\<exists>resp out. Turn lower cd (hd_app h) ev turn stored = Inr (resp, out) \<and> FitsScreen (resp_Body resp)"
    by (rule dialogue(2))
qed

section \<open>The endpoint of the program\<close>

text \<open>The paths are exact patterns; the handler of the SDK stands behind one of them.\<close>

definition fediverse_ServeHTTP ::
    "fstate libraries \<Rightarrow> fstate Handler \<Rightarrow> time \<Rightarrow> string \<Rightarrow> http_request \<Rightarrow> http_writer" where
  "fediverse_ServeHTTP lb h now path r =
     (if path = ''/ussd'' then Handler_ServeHTTP lb h now r
      else if path = ''/healthz'' then
        Write (''{'' @ [CHR 0x22] @ ''status'' @ [CHR 0x22, CHR '':'', CHR 0x22] @ ''ok'' @ [CHR 0x22] @ ''}'') new_writer
      else http_Error ''404 page not found'' 404 new_writer)"

text \<open>A signed turn of a dialogue of the program is answered with a screen that fits.\<close>

lemma fediverse_served:
  assumes "fediverse_run (lb_lower lb) remote_at clock env lf gf = Inr (listen, h)" "\<And>c. reads_utf8 (remote_at c)"
    "keeps_screens (lb_codec lb) (hd_app h)"
    "codec_keeps (\<lambda>s. fs_safe s \<and> posts_capped s) (lb_codec lb)" "admitted lb h now r = Some req"
    "stored_state (lb_lower lb) (lb_codec lb) (hd_app h) (NormaliseState (rq_State req))"
    "\<And>reply. \<exists>json. lb_Encode lb reply = Inr json"
  shows "\<exists>resp out json. FitsScreen (resp_Body resp) \<and> lb_Encode lb (turn_reply (resp, out)) = Inr json \<and>
    fediverse_ServeHTTP lb h now ''/ussd'' r = Write (json @ [CHR 0x0A]) (set_header ''Content-Type'' ''application/json'' new_writer)"
proof -
  obtain resp out where turn: "Turn (lb_lower lb) (lb_codec lb) (hd_app h) (rq_Event req) (rq_Turn req) (NormaliseState (rq_State req)) =
      Inr (resp, out)" "FitsScreen (resp_Body resp)"
    using fediverse_dialogue(2) [OF assms(1-4,6)] by blast
  obtain json where "lb_Encode lb (turn_reply (resp, out)) = Inr json" using assms(7) by blast
  with turn ServeHTTP_admitted [OF assms(5)] show ?thesis
    by (intro exI [of _ resp] exI [of _ out] exI [of _ json]) (simp add: fediverse_ServeHTTP_def)
qed

end
