(* ===== verification/Inbound_Concurrent.thy ===== *)
theory Inbound_Concurrent
  imports Inbound_Isolation
begin

text \<open>
  The gateway serves requests in parallel, and \<^verbatim>\<open>httpx/inbound.go\<close> holds no lock over a turn: it loads the
  session, waits for the tenant, and saves or deletes.  Here a turn is these two steps, with the turns of
  other requests between them.  Isolation holds in every interleaving; and as long as a network sends one
  request at a time for a session, every interleaving is a history of turns handled one after another.
\<close>

section \<open>A turn in two steps\<close>

record pending =
  pd_At :: instants
  pd_Event :: Event
  pd_Tenant :: Tenant
  pd_Session :: Session
  pd_Request :: Request

text \<open>Up to the delivery: nothing is pending for an event that ends the dialogue or has no route.\<close>

definition turn_begin :: "'s Store \<Rightarrow> Router \<Rightarrow> instants \<Rightarrow> Event \<Rightarrow> 's \<Rightarrow> pending option" where
  "turn_begin store router i ev s =
     (if Phase_Terminal (ev_Phase ev) then None
      else case Route router ev of
        Inl err \<Rightarrow> None
      | Inr (target, routed) \<Rightarrow>
          let sess = enter_tenant target (load_session store (at_Load i) ev s) in
          Some \<lparr>pd_At = i, pd_Event = ev, pd_Tenant = target, pd_Session = sess, pd_Request = turn_request routed sess\<rparr>)"

text \<open>From the delivery on.\<close>

definition turn_finish ::
    "'s Store \<Rightarrow> Dispatcher \<Rightarrow> pending \<Rightarrow> 's \<Rightarrow> (handle_error + Response) \<times> 's \<times> exchange" where
  "turn_finish store d p s =
     (let result = fst (Deliver d (at_Deliver (pd_At p)) (pd_Tenant p) (pd_Request p));
          ex = \<lparr>ex_Tenant = pd_Tenant p, ex_Request = pd_Request p, ex_Result = result\<rparr>
      in case result of
        Inl err \<Rightarrow> (Inl (DeliveryFailed err), s, ex)
      | Inr reply \<Rightarrow>
          if resp_EndSession (rp_Response reply)
          then (Inr (rp_Response reply), snd (st_Delete store (event_key (pd_Event p)) s), ex)
          else case st_Save store (at_Save (pd_At p)) (apply_reply reply (pd_Session p)) s of
            (Some err, s') \<Rightarrow> (Inl (SaveFailed err), s', ex)
          | (None, s') \<Rightarrow> (Inr (rp_Response reply), s', ex))"

text \<open>With nothing in between, the two steps are the turn.\<close>

lemma handle_two_steps:
  "handle store router d i ev s =
     (case turn_begin store router i ev s of
        None \<Rightarrow>
          if Phase_Terminal (ev_Phase ev) then (Inr empty_Response, snd (st_Delete store (event_key ev) s), None)
          else (case Route router ev of Inl err \<Rightarrow> (Inl (NoRoute err), s, None) | Inr _ \<Rightarrow> (Inr empty_Response, s, None))
      | Some p \<Rightarrow> (case turn_finish store d p s of (result, s', ex) \<Rightarrow> (result, s', Some ex)))"
  by (simp add: handle_def turn_begin_def turn_finish_def Let_def split: sum.split prod.split option.split)

lemma turn_begin_Some:
  "turn_begin store router i ev s = Some p \<longleftrightarrow>
     \<not> Phase_Terminal (ev_Phase ev) \<and>
     (\<exists>target routed. Route router ev = Inr (target, routed) \<and>
        p = (let sess = enter_tenant target (load_session store (at_Load i) ev s) in
          \<lparr>pd_At = i, pd_Event = ev, pd_Tenant = target, pd_Session = sess, pd_Request = turn_request routed sess\<rparr>))"
  by (auto simp: turn_begin_def Let_def split: sum.splits)

lemma turn_begin_cong:
  assumes "load_session store (at_Load i) ev s = load_session store (at_Load i) ev s'"
  shows "turn_begin store router i ev s = turn_begin store router i ev s'"
  unfolding turn_begin_def assms ..

section \<open>Interleavings\<close>

record 's world =
  wd_Store :: 's
  wd_Pending :: "pending list"
  wd_Log :: "(Event \<times> exchange) list"

abbreviation other_session :: "Event \<Rightarrow> pending \<Rightarrow> bool" where
  "other_session ev p \<equiv> Key_String (event_key (pd_Event p)) \<noteq> Key_String (event_key ev)"

text \<open>
  The worlds that are reached from a store: turns begin, finish in any order, and dialogues are ended by the
  network.  With \<open>alternating\<close>, no event arrives for a session one of whose turns is pending.
\<close>

inductive interleaved :: "bool \<Rightarrow> 's Store \<Rightarrow> Router \<Rightarrow> 's \<Rightarrow> 's world \<Rightarrow> bool"
  for alternating store router s0 where
    idle: "interleaved alternating store router s0 \<lparr>wd_Store = s0, wd_Pending = [], wd_Log = []\<rparr>"
  | begins: "interleaved alternating store router s0 w \<Longrightarrow> turn_begin store router i ev (wd_Store w) = Some p \<Longrightarrow>
      alternating \<longrightarrow> list_all (other_session ev) (wd_Pending w) \<Longrightarrow>
      interleaved alternating store router s0 (w\<lparr>wd_Pending := p # wd_Pending w\<rparr>)"
  | finishes: "interleaved alternating store router s0 w \<Longrightarrow> wd_Pending w = ps @ p # qs \<Longrightarrow>
      turn_finish store d p (wd_Store w) = (result, s', ex) \<Longrightarrow>
      interleaved alternating store router s0
        \<lparr>wd_Store = s', wd_Pending = ps @ qs, wd_Log = wd_Log w @ [(pd_Event p, ex)]\<rparr>"
  | hangs_up: "interleaved alternating store router s0 w \<Longrightarrow> Phase_Terminal (ev_Phase ev) \<Longrightarrow>
      alternating \<longrightarrow> list_all (other_session ev) (wd_Pending w) \<Longrightarrow>
      interleaved alternating store router s0 (w\<lparr>wd_Store := snd (st_Delete store (event_key ev) (wd_Store w))\<rparr>)"

lemma handle_run_append:
  assumes "handle_run store router turns s = (exs, s')"
  shows "handle_run store router (turns @ turns') s =
    (exs @ fst (handle_run store router turns' s'), snd (handle_run store router turns' s'))"
  using assms
proof (induction turns arbitrary: s exs)
  case (Cons turn turns)
  obtain i d ev where turn: "turn = (i, d, ev)" by (cases turn) auto
  obtain result s1 ex where step: "handle store router d i ev s = (result, s1, ex)" by (metis prod_cases3)
  obtain exs1 where rest: "handle_run store router turns s1 = (exs1, s')"
    using Cons.prems turn step by (auto split: prod.splits)
  from Cons.IH [OF rest] Cons.prems turn step rest show ?case by (auto split: prod.splits)
qed (simp split: prod.split)

text \<open>Every tenant of the log was found by the router.\<close>

definition routes_to :: "Router \<Rightarrow> Tenant \<Rightarrow> bool" where
  "routes_to router t \<longleftrightarrow> (\<exists>ev routed. Route router ev = Inr (t, routed))"

lemma interleaved_routed:
  assumes "interleaved alternating store router s0 w"
  shows "list_all (\<lambda>p. routes_to router (pd_Tenant p)) (wd_Pending w) \<and>
    list_all (\<lambda>evx. routes_to router (ex_Tenant (snd evx))) (wd_Log w)"
  using assms
proof (induction rule: interleaved.induct)
  case (begins w i ev p)
  have "routes_to router (pd_Tenant p)"
    using begins.hyps(2) unfolding turn_begin_Some Let_def routes_to_def by (metis pending.select_convs(3))
  with begins.IH show ?case by simp
next
  case (finishes w ps p qs d result s' ex)
  have "ex_Tenant ex = pd_Tenant p"
    using finishes.hyps(3) by (auto simp: turn_finish_def Let_def split: sum.splits if_splits option.splits prod.splits)
  with finishes.IH finishes.hyps(2) show ?case by simp
qed simp_all

text \<open>Turns handled one after another are one of the interleavings, and the network alternates in it.\<close>

lemma sequential_interleaved:
  assumes "handle_run store router turns s0 = (log, s)"
  shows "interleaved alternating store router s0 \<lparr>wd_Store = s, wd_Pending = [], wd_Log = log\<rparr>"
  using assms
proof (induction turns arbitrary: log s rule: rev_induct)
  case Nil
  then show ?case by (simp add: interleaved.idle)
next
  case (snoc turn turns)
  obtain i d ev where turn: "turn = (i, d, ev)" by (cases turn) auto
  obtain log1 s1 where run: "handle_run store router turns s0 = (log1, s1)" by force
  let ?w = "\<lparr>wd_Store = s1, wd_Pending = [], wd_Log = log1\<rparr>"
  note world = snoc.IH [OF run]
  obtain result s2 ex where h: "handle store router d i ev s1 = (result, s2, ex)" by (metis prod_cases3)
  have now: "log = log1 @ (case ex of None \<Rightarrow> [] | Some x \<Rightarrow> [(ev, x)])" "s = s2"
    using handle_run_append [OF run, of "[turn]"] snoc.prems turn h by (auto split: option.splits)
  show ?case
  proof (cases "turn_begin store router i ev s1")
    case (Some p)
    then have p: "pd_Event p = ev" by (auto simp: turn_begin_Some Let_def)
    obtain ex' where fin: "turn_finish store d p s1 = (result, s2, ex')" "ex = Some ex'"
      using h Some by (auto simp: handle_two_steps split: prod.splits)
    have "interleaved alternating store router s0 (?w\<lparr>wd_Pending := p # wd_Pending ?w\<rparr>)"
      by (rule interleaved.begins [OF world, of i ev]) (use Some in simp_all)
    then have "interleaved alternating store router s0 \<lparr>wd_Store = s1, wd_Pending = [p], wd_Log = log1\<rparr>" by simp
    from interleaved.finishes [OF this, of "[]" p "[]" d result s2 ex'] fin p now show ?thesis by simp
  next
    case None
    show ?thesis
    proof (cases "Phase_Terminal (ev_Phase ev)")
      case True
      then have "s2 = snd (st_Delete store (event_key ev) s1)" "ex = None" using h None by (simp_all add: handle_two_steps)
      with interleaved.hangs_up [OF world True] now show ?thesis by simp
    next
      case False
      then have "s2 = s1" "ex = None" using h None by (auto simp: handle_two_steps split: sum.splits)
      with world now show ?thesis by simp
    qed
  qed
qed

section \<open>Under the weaker contract of a store\<close>

context session_history
begin

text \<open>What is known of a pending turn, given the replies that have been kept.\<close>

definition pending_ok :: "(string \<times> string \<times> string \<times> string) set \<Rightarrow> pending \<Rightarrow> bool" where
  "pending_ok past p \<longleftrightarrow>
     enc (Key_String (se_Key (pd_Session p))) = enc (Key_String (event_key (pd_Event p))) \<and>
     se_MSISDN (pd_Session p) = ev_MSISDN (pd_Event p) \<and> se_Tenant (pd_Session p) = tn_Name (pd_Tenant p) \<and>
     tn_Name (pd_Tenant p) \<noteq> [] \<and> 1 \<le> se_Turn (pd_Session p) \<and> rq_State (pd_Request p) = se_State (pd_Session p) \<and>
     (\<forall>st. se_State (pd_Session p) = Some st \<longrightarrow>
        (enc (Key_String (event_key (pd_Event p))), enc (ev_MSISDN (pd_Event p)), enc (tn_Name (pd_Tenant p)), norm st) \<in> past)"

lemma pending_ok_mono: "pending_ok past p \<Longrightarrow> past \<subseteq> past' \<Longrightarrow> pending_ok past' p"
  unfolding pending_ok_def by blast

lemma pending_ok_begin:
  assumes "session_inv past s" "named_routes router"
    "turn_begin (store_of load save delete) router i ev s = Some p"
  shows "pending_ok past p" "pd_Event p = ev"
proof -
  obtain target routed where route: "Route router ev = Inr (target, routed)" and p:
    "p = (let sess = enter_tenant target (load_session (store_of load save delete) (at_Load i) ev s) in
        \<lparr>pd_At = i, pd_Event = ev, pd_Tenant = target, pd_Session = sess, pd_Request = turn_request routed sess\<rparr>)"
    using assms(3) by (auto simp: turn_begin_Some)
  have name: "tn_Name target \<noteq> []" using assms(2) route by (auto simp: named_routes_def)
  from entered_session [OF assms(1) refl name, of "at_Load i" ev] name show "pending_ok past p"
    by (simp add: pending_ok_def p Let_def turn_request_def)
  show "pd_Event p = ev" by (simp add: p Let_def)
qed

text \<open>Finishing a turn, in three cases.\<close>

lemma turn_finish_cases:
  assumes "turn_finish (store_of load save delete) d p s = (result, s', ex)"
  obtains (unchanged) "s' = s"
  | (deleted) "s' = snd (delete (event_key (pd_Event p)) s)"
  | (saved) reply where "ex_Result ex = Inr reply" "s' = snd (save (at_Save (pd_At p)) (apply_reply reply (pd_Session p)) s)"
proof (cases "fst (Deliver d (at_Deliver (pd_At p)) (pd_Tenant p) (pd_Request p))")
  case (Inl err)
  then show thesis using unchanged assms by (auto simp: turn_finish_def Let_def)
next
  case (Inr reply)
  then show thesis
    using deleted saved [of reply] assms
    by (auto simp: turn_finish_def Let_def split: if_splits option.splits prod.splits)
qed

lemma turn_finish_exchange:
  "turn_finish store d p s = (result, s', ex) \<Longrightarrow> ex_Request ex = pd_Request p \<and> ex_Tenant ex = pd_Tenant p"
  by (auto simp: turn_finish_def Let_def split: sum.splits if_splits option.splits prod.splits)

lemma session_inv_finish:
  assumes inv: "session_inv past s" and ok: "pending_ok past p"
    and fin: "turn_finish (store_of load save delete) d p s = (result, s', ex)"
  shows "session_inv (past \<union> {x. kept_norm enc norm (pd_Event p, ex) = Some x}) s'"
proof -
  let ?past = "past \<union> {x. kept_norm enc norm (pd_Event p, ex) = Some x}"
  have grow: "session_inv ?past s" using inv by (rule session_inv_mono) simp
  from fin show ?thesis
  proof (cases rule: turn_finish_cases)
    case unchanged
    with grow show ?thesis by simp
  next
    case deleted
    with session_inv_delete [OF grow] show ?thesis by simp
  next
    case (saved reply)
    have tenant: "ex_Tenant ex = pd_Tenant p" using turn_finish_exchange [OF fin] by simp
    show ?thesis
      unfolding saved(2)
    proof (rule session_inv_save [OF grow])
      show "se_Tenant (apply_reply reply (pd_Session p)) \<noteq> []" "1 \<le> se_Turn (apply_reply reply (pd_Session p))"
        using ok by (auto simp: pending_ok_def)
      fix st
      assume st: "se_State (apply_reply reply (pd_Session p)) = Some st"
      show "(enc (Key_String (se_Key (apply_reply reply (pd_Session p)))), enc (se_MSISDN (apply_reply reply (pd_Session p))),
          enc (se_Tenant (apply_reply reply (pd_Session p))), norm st) \<in> ?past"
      proof (cases "rp_State reply")
        case None
        then show ?thesis using st ok by (auto simp: pending_ok_def apply_reply_State split: if_splits)
      next
        case (Some st')
        then have "kept (pd_Event p, ex) = Some (Key_String (event_key (pd_Event p)), ev_MSISDN (pd_Event p), tn_Name (pd_Tenant p), st)"
          using st saved(1) tenant by (simp add: kept_def apply_reply_State split: if_splits)
        then show ?thesis using ok by (simp add: pending_ok_def kept_norm_Some)
      qed
    qed
  qed
qed

text \<open>Isolation, whatever is interleaved.\<close>

definition kept_by :: "(Event \<times> exchange) list \<Rightarrow> (string \<times> string \<times> string \<times> string) set" where
  "kept_by log = {x. Some x \<in> kept_norm enc norm ` set log}"

lemma kept_by_snoc: "kept_by (log @ [evx]) = kept_by log \<union> {x. kept_norm enc norm evx = Some x}"
  by (auto simp: kept_by_def)

definition isolated :: "(Event \<times> exchange) list \<Rightarrow> bool" where
  "isolated log \<longleftrightarrow>
     (\<forall>n < length log. \<forall>st. rq_State (ex_Request (snd (log ! n))) = Some st \<longrightarrow>
        (enc (Key_String (event_key (fst (log ! n)))), enc (ev_MSISDN (fst (log ! n))), enc (tn_Name (ex_Tenant (snd (log ! n)))), norm st)
          \<in> kept_by (take n log))"

lemma isolated_snoc:
  assumes "isolated log"
    "\<And>st. rq_State (ex_Request x) = Some st \<Longrightarrow> (enc (Key_String (event_key ev)), enc (ev_MSISDN ev), enc (tn_Name (ex_Tenant x)), norm st) \<in> kept_by log"
  shows "isolated (log @ [(ev, x)])"
  using assms by (auto simp: isolated_def less_Suc_eq nth_append)

lemma interleaved_isolated:
  assumes "interleaved alternating (store_of load save delete) router s0 w" "session_inv {} s0" "named_routes router"
  shows "session_inv (kept_by (wd_Log w)) (wd_Store w) \<and> list_all (pending_ok (kept_by (wd_Log w))) (wd_Pending w) \<and>
    isolated (wd_Log w)"
  using assms
proof (induction rule: interleaved.induct)
  case idle
  then show ?case by (simp add: kept_by_def isolated_def)
next
  case (begins w i ev p)
  then show ?case using pending_ok_begin by auto
next
  case (finishes w ps p qs d result s' ex)
  let ?past = "kept_by (wd_Log w)"
  have inv: "session_inv ?past (wd_Store w)" and ok: "list_all (pending_ok ?past) (ps @ p # qs)" and iso: "isolated (wd_Log w)"
    using finishes.IH [OF finishes.prems] finishes.hyps(2) by simp_all
  have p: "pending_ok ?past p" using ok by simp
  have "ex_Request ex = pd_Request p" "ex_Tenant ex = pd_Tenant p" using turn_finish_exchange [OF finishes.hyps(3)] by simp_all
  then have "isolated (wd_Log w @ [(pd_Event p, ex)])"
    using iso p by (intro isolated_snoc) (auto simp: pending_ok_def)
  moreover have "session_inv (kept_by (wd_Log w @ [(pd_Event p, ex)])) s'"
    unfolding kept_by_snoc by (rule session_inv_finish [OF inv p finishes.hyps(3)])
  moreover have "list_all (pending_ok (kept_by (wd_Log w @ [(pd_Event p, ex)]))) (ps @ qs)"
    using ok by (auto simp: list_all_iff kept_by_snoc intro: pending_ok_mono)
  ultimately show ?case by simp
next
  case (hangs_up w ev)
  then show ?case using session_inv_delete by simp
qed

end

section \<open>Under the contract of a store\<close>

context session_store
begin

text \<open>
  An alternating network.  A pending turn is the one that would begin now, since nothing has touched its
  session, so it may be taken to happen all at once when it finishes.
\<close>

lemma live_other:
  assumes "history.pending_ok past p" "turn_finish (store_of load save delete) d p s = (result, s', ex)"
    "Key_Validate k = None" "Key_String k \<noteq> Key_String (event_key (pd_Event p))"
  shows "live t s' k = live t s k"
  using assms(2)
proof (cases rule: history.turn_finish_cases)
  case deleted
  then show ?thesis using live_frame(2) [OF assms(3,4)] by simp
next
  case (saved reply)
  have "Key_String k \<noteq> Key_String (se_Key (apply_reply reply (pd_Session p)))"
    using assms(1,4) by (simp add: history.pending_ok_def)
  from live_frame(1) [OF assms(3) this, of t "at_Save (pd_At p)" s] saved(2) show ?thesis by simp
qed simp

lemma load_session_cong:
  assumes "\<And>t. Key_Validate (event_key ev) = None \<Longrightarrow> live t s' (event_key ev) = live t s (event_key ev)"
  shows "load_session (store_of load save delete) now ev s' = load_session (store_of load save delete) now ev s"
proof (cases "Key_Validate (event_key ev)")
  case None
  then show ?thesis using assms by (simp add: load_session_live)
next
  case (Some e)
  then have "live now x (event_key ev) = None" for x using load_invalid by (simp add: live_def)
  then show ?thesis by (simp add: load_session_live)
qed

definition undisturbed :: "Router \<Rightarrow> 's world \<Rightarrow> bool" where
  "undisturbed router w \<longleftrightarrow>
     (\<forall>p \<in> set (wd_Pending w). turn_begin (store_of load save delete) router (pd_At p) (pd_Event p) (wd_Store w) = Some p) \<and>
     distinct (map (\<lambda>p. Key_String (event_key (pd_Event p))) (wd_Pending w))"

lemma undisturbedI:
  assumes "undisturbed router w" "set ps \<subseteq> set (wd_Pending w)" "distinct (map (\<lambda>p. Key_String (event_key (pd_Event p))) ps)"
    "\<And>p t. p \<in> set ps \<Longrightarrow> Key_Validate (event_key (pd_Event p)) = None \<Longrightarrow>
       live t s' (event_key (pd_Event p)) = live t (wd_Store w) (event_key (pd_Event p))"
  shows "undisturbed router \<lparr>wd_Store = s', wd_Pending = ps, wd_Log = log\<rparr>"
proof -
  have "turn_begin (store_of load save delete) router (pd_At p) (pd_Event p) s' = Some p" if "p \<in> set ps" for p
  proof -
    have "load_session (store_of load save delete) (at_Load (pd_At p)) (pd_Event p) s' =
        load_session (store_of load save delete) (at_Load (pd_At p)) (pd_Event p) (wd_Store w)"
      by (rule load_session_cong) (rule assms(4) [OF that])
    then have "turn_begin (store_of load save delete) router (pd_At p) (pd_Event p) s' =
        turn_begin (store_of load save delete) router (pd_At p) (pd_Event p) (wd_Store w)"
      by (rule turn_begin_cong)
    then show ?thesis using assms(1,2) that by (auto simp: undisturbed_def)
  qed
  then show ?thesis using assms(3) by (simp add: undisturbed_def)
qed

lemma interleaved_undisturbed:
  assumes "interleaved True (store_of load save delete) router s0 w" "history.session_inv {} s0" "named_routes router"
  shows "undisturbed router w"
  using assms
proof (induction rule: interleaved.induct)
  case idle
  then show ?case by (simp add: undisturbed_def)
next
  case (begins w i ev p)
  have "pd_Event p = ev" "pd_At p = i" using begins.hyps(2) by (auto simp: turn_begin_Some Let_def)
  then show ?case using begins by (auto simp: undisturbed_def list_all_iff)
next
  case (finishes w ps p qs d result s' ex)
  note un = finishes.IH [OF finishes.prems]
  have ok: "history.pending_ok (history.kept_by (wd_Log w)) p"
    using history.interleaved_isolated [OF finishes.hyps(1) finishes.prems] finishes.hyps(2) by simp
  show ?case
  proof (rule undisturbedI [OF un])
    show "set (ps @ qs) \<subseteq> set (wd_Pending w)" using finishes.hyps(2) by auto
    show "distinct (map (\<lambda>p. Key_String (event_key (pd_Event p))) (ps @ qs))"
      using un finishes.hyps(2) by (simp add: undisturbed_def)
    fix q t
    assume "q \<in> set (ps @ qs)" and valid: "Key_Validate (event_key (pd_Event q)) = None"
    then have "Key_String (event_key (pd_Event q)) \<noteq> Key_String (event_key (pd_Event p))"
      using un finishes.hyps(2) by (auto simp: undisturbed_def image_iff)
    then show "live t s' (event_key (pd_Event q)) = live t (wd_Store w) (event_key (pd_Event q))"
      by (rule live_other [OF ok finishes.hyps(3) valid])
  qed
next
  case (hangs_up w ev)
  have "undisturbed router \<lparr>wd_Store = snd (delete (event_key ev) (wd_Store w)), wd_Pending = wd_Pending w, wd_Log = wd_Log w\<rparr>"
  proof (rule undisturbedI [OF hangs_up.IH [OF hangs_up.prems] subset_refl])
    show "distinct (map (\<lambda>p. Key_String (event_key (pd_Event p))) (wd_Pending w))"
      using hangs_up.IH [OF hangs_up.prems] by (simp add: undisturbed_def)
    fix q t
    assume "q \<in> set (wd_Pending w)" and valid: "Key_Validate (event_key (pd_Event q)) = None"
    then have "Key_String (event_key (pd_Event q)) \<noteq> Key_String (event_key ev)"
      using hangs_up.hyps(3) by (auto simp: list_all_iff)
    then show "live t (snd (delete (event_key ev) (wd_Store w))) (event_key (pd_Event q)) = live t (wd_Store w) (event_key (pd_Event q))"
      by (rule live_frame(2) [OF valid])
  qed
  then show ?case by (cases w) simp
qed

lemma interleaved_sequential:
  assumes "interleaved True (store_of load save delete) router s0 w" "history.session_inv {} s0" "named_routes router"
  shows "\<exists>turns. handle_run (store_of load save delete) router turns s0 = (wd_Log w, wd_Store w)"
  using assms
proof (induction rule: interleaved.induct)
  case idle
  show ?case by (rule exI [of _ "[]"]) simp
next
  case (begins w i ev p)
  then show ?case by simp
next
  case (finishes w ps p qs d result s' ex)
  from finishes.IH [OF finishes.prems] obtain turns where
    turns: "handle_run (store_of load save delete) router turns s0 = (wd_Log w, wd_Store w)" ..
  have "turn_begin (store_of load save delete) router (pd_At p) (pd_Event p) (wd_Store w) = Some p"
    using interleaved_undisturbed [OF finishes.hyps(1) finishes.prems] finishes.hyps(2) by (simp add: undisturbed_def)
  then have "handle (store_of load save delete) router d (pd_At p) (pd_Event p) (wd_Store w) = (result, s', Some ex)"
    using finishes.hyps(3) by (simp add: handle_two_steps)
  then show ?case
    using handle_run_append [OF turns, of "[(pd_At p, d, pd_Event p)]"]
    by (intro exI [of _ "turns @ [(pd_At p, d, pd_Event p)]"]) simp
next
  case (hangs_up w ev)
  from hangs_up.IH [OF hangs_up.prems] obtain turns where
    turns: "handle_run (store_of load save delete) router turns s0 = (wd_Log w, wd_Store w)" ..
  have "handle (store_of load save delete) router d i ev (wd_Store w) =
      (Inr empty_Response, snd (delete (event_key ev) (wd_Store w)), None)" for d i
    using hangs_up.hyps(2) by (simp add: handle_def Let_def)
  then show ?case
    using handle_run_append [OF turns, of "[(undefined, undefined, ev)]"]
    by (intro exI [of _ "turns @ [(undefined, undefined, ev)]"]) simp
qed

end

end
