(* ===== verification/Retries.thy ===== *)
theory Retries
  imports Inbound_Concurrent
begin

text \<open>
  Networks retry callbacks, and the gateway does not recognise a retry: \<^verbatim>\<open>TODOS.md\<close> and the section on
  replay of \<^verbatim>\<open>docs/webhook-protocol.md\<close> say what follows, and here it is proved of the code.  Two callbacks
  of one session whose turns overlap both reach the tenant, and the state of the first reply is lost; a
  callback retried after an answered turn arrives with a higher turn; and one that follows a turn that
  failed arrives with the turn the tenant has already seen.
\<close>

context session_history
begin

text \<open>Events of one subscriber and session that see the same session enter the tenant at the same turn.\<close>

lemma load_session_same:
  assumes "event_key ev' = event_key ev" "ev_MSISDN ev' = ev_MSISDN ev" "load t' (event_key ev) s = load t (event_key ev) s"
  shows "se_Turn (load_session (store_of load save delete) t' ev' s) = se_Turn (load_session (store_of load save delete) t ev s)"
    "se_State (load_session (store_of load save delete) t' ev' s) = se_State (load_session (store_of load save delete) t ev s)"
    "se_Tenant (load_session (store_of load save delete) t' ev' s) = se_Tenant (load_session (store_of load save delete) t ev s)"
  using assms by (simp_all add: load_session_held split: sum.split)

lemma entered_same:
  assumes "event_key ev' = event_key ev" "ev_MSISDN ev' = ev_MSISDN ev" "load t' (event_key ev) s = load t (event_key ev) s"
  shows "se_Turn (enter_tenant target (load_session (store_of load save delete) t' ev' s)) =
      se_Turn (enter_tenant target (load_session (store_of load save delete) t ev s))"
    "se_State (enter_tenant target (load_session (store_of load save delete) t' ev' s)) =
      se_State (enter_tenant target (load_session (store_of load save delete) t ev s))"
  using load_session_same [OF assms] by (simp_all add: enter_tenant_def Let_def)

end

section \<open>Turns of one session that overlap\<close>

lemma overlapping_world:
  assumes world: "interleaved False store router s0 \<lparr>wd_Store = s, wd_Pending = [], wd_Log = log\<rparr>"
    and "turn_begin store router i ev s = Some p" "turn_begin store router i' ev' s = Some p'"
    and "turn_finish store d p s = (r1, s1, x)" "turn_finish store d' p' s1 = (r2, s2, x')"
  shows "interleaved False store router s0
    \<lparr>wd_Store = s2, wd_Pending = [], wd_Log = log @ [(pd_Event p, x), (pd_Event p', x')]\<rparr>"
proof -
  let ?w = "\<lambda>s ps log. \<lparr>wd_Store = s, wd_Pending = ps, wd_Log = log\<rparr>"
  have "interleaved False store router s0 (?w s [p] log)" using interleaved.begins [OF world, of i ev p] assms(2) by simp
  from interleaved.begins [OF this, of i' ev' p'] have "interleaved False store router s0 (?w s [p', p] log)" using assms(3) by simp
  from interleaved.finishes [OF this, of "[p']" p "[]" d r1 s1 x]
  have "interleaved False store router s0 (?w s1 [p'] (log @ [(pd_Event p, x)]))" using assms(4) by simp
  from interleaved.finishes [OF this, of "[]" p' "[]" d' r2 s2 x'] show ?thesis using assms(5) by simp
qed

context session_store
begin

lemma begun_turn:
  assumes "turn_begin (store_of load save delete) router i ev s = Some p"
  shows "pd_Event p = ev" "pd_At p = i"
    "rq_Turn (pd_Request p) = se_Turn (enter_tenant (pd_Tenant p) (load_session (store_of load save delete) (at_Load i) ev s))"
    "rq_State (pd_Request p) = se_State (enter_tenant (pd_Tenant p) (load_session (store_of load save delete) (at_Load i) ev s))"
    "rq_Turn (pd_Request p) = se_Turn (pd_Session p)" "rq_State (pd_Request p) = se_State (pd_Session p)"
  using assms by (auto simp: turn_begin_Some Let_def turn_request_def)

text \<open>Two turns begun on one store are given the same turn number and the same state.\<close>

lemma overlapping_requests:
  assumes "turn_begin (store_of load save delete) router i ev s = Some p"
    "turn_begin (store_of load save delete) router i' ev' s = Some p'"
    "event_key ev' = event_key ev" "ev_MSISDN ev' = ev_MSISDN ev" "pd_Tenant p' = pd_Tenant p"
    "load (at_Load i') (event_key ev) s = load (at_Load i) (event_key ev) s"
  shows "rq_Turn (pd_Request p') = rq_Turn (pd_Request p) \<and> rq_State (pd_Request p') = rq_State (pd_Request p)"
  using begun_turn [OF assms(1)] begun_turn [OF assms(2)] history.entered_same [OF assms(3,4,6)] assms(5) by simp

lemma turn_finish_ttl: "turn_finish (store_of load save delete) d p s = (result, s', x) \<Longrightarrow> ttl s' = ttl s"
  by (cases rule: history.turn_finish_cases [of d p s result s' x]) (simp_all add: ttl_save ttl_delete)

text \<open>What the last turn to finish leaves: its own session, as it was when that turn began.\<close>

lemma last_write:
  assumes inv: "history.session_inv past s" and names: "named_routes router"
    and p: "turn_begin (store_of load save delete) router i ev s = Some p"
    and fin: "turn_finish (store_of load save delete) d p s1 = (Inr resp, s2, x)"
    and reply: "ex_Result x = Inr reply" "\<not> resp_EndSession resp"
    and key: "Key_Validate (event_key ev) = None" and soon: "t < at_Save i + ttl s1"
  shows "load t (event_key ev) s2 = Inr (stamp (at_Save i) (apply_reply reply (pd_Session p)))"
proof -
  have ok: "Key_String (se_Key (pd_Session p)) = Key_String (event_key ev)"
    using history.pending_ok_begin [OF inv names p] by (simp add: history.pending_ok_def)
  have "save (at_Save (pd_At p)) (apply_reply reply (pd_Session p)) s1 = (None, s2)"
    using fin reply by (auto simp: turn_finish_def Let_def split: sum.splits if_splits option.splits prod.splits)
  from load_save [OF this key, of t] show ?thesis using ok begun_turn [OF p] soon by simp
qed

text \<open>
  Together: both turns reach the tenant under one turn number, and what is stored counts one turn and has
  nothing of the first reply.
\<close>

lemma overlapping_lost:
  assumes inv: "history.session_inv past s" and names: "named_routes router"
    and p: "turn_begin (store_of load save delete) router i ev s = Some p"
      "turn_begin (store_of load save delete) router i' ev' s = Some p'"
    and fin: "turn_finish (store_of load save delete) d p s = (r, s1, x)"
      "turn_finish (store_of load save delete) d' p' s1 = (Inr resp, s2, x')"
    and reply: "ex_Result x' = Inr reply" "\<not> resp_EndSession resp"
    and same: "event_key ev' = event_key ev" "ev_MSISDN ev' = ev_MSISDN ev" "pd_Tenant p' = pd_Tenant p"
      "load (at_Load i') (event_key ev) s = load (at_Load i) (event_key ev) s"
    and key: "Key_Validate (event_key ev) = None" and soon: "t < at_Save i' + ttl s"
  shows "rq_Turn (ex_Request x') = rq_Turn (ex_Request x)" "rq_State (ex_Request x') = rq_State (ex_Request x)"
    "\<exists>sess. load t (event_key ev) s2 = Inr sess \<and> se_Turn sess = rq_Turn (ex_Request x) \<and>
       se_State sess = (if rp_ClearState reply then None
         else if rp_State reply \<noteq> None then rp_State reply else rq_State (ex_Request x))"
proof -
  have x: "ex_Request x = pd_Request p" "ex_Request x' = pd_Request p'"
    using history.turn_finish_exchange [OF fin(1)] history.turn_finish_exchange [OF fin(2)] by simp_all
  note requests = overlapping_requests [OF p same]
  then show "rq_Turn (ex_Request x') = rq_Turn (ex_Request x)" "rq_State (ex_Request x') = rq_State (ex_Request x)"
    by (simp_all add: x)
  have "t < at_Save i' + ttl s1" using soon turn_finish_ttl [OF fin(1)] by simp
  from last_write [OF inv names p(2) fin(2) reply _ this] same(1) key
  have "load t (event_key ev) s2 = Inr (stamp (at_Save i') (apply_reply reply (pd_Session p')))" by simp
  then show "\<exists>sess. load t (event_key ev) s2 = Inr sess \<and> se_Turn sess = rq_Turn (ex_Request x) \<and>
       se_State sess = (if rp_ClearState reply then None
         else if rp_State reply \<noteq> None then rp_State reply else rq_State (ex_Request x))"
    using requests begun_turn(5,6) [OF p(2)] by (auto simp: x apply_reply_State split: option.splits)
qed

section \<open>Turns of one session in sequence\<close>

text \<open>A callback repeated after an answered turn is a new turn to the tenant.\<close>

lemma repeated_callback_counts:
  assumes "history.session_inv past s" "named_routes router"
    "history.run_turn router d i ev s = (Inr resp, s', Some x)" "\<not> resp_EndSession resp" "ex_Result x = Inr reply"
    "history.run_turn router d' i' ev s' = (result, s'', Some y)"
    "Key_Validate (event_key ev) = None" "at_Load i' < at_Save i + ttl s"
  shows "rq_Turn (ex_Request y) = rq_Turn (ex_Request x) + 1"
proof -
  have "ex_Tenant y = ex_Tenant x"
    by (cases rule: handle_cases [of ev "store_of load save delete" router d i s];
        cases rule: handle_cases [of ev "store_of load save delete" router d' i' s'])
      (use assms(3,6) in auto)
  then show ?thesis using turn_continues [OF assms(1-6) refl refl assms(7,8)] by simp
qed

text \<open>
  After a turn that failed, at the tenant or at the store, any event of the session, be it the same callback
  or new input, is delivered under the turn number of the failed one.
\<close>

lemma after_failure_same_turn:
  assumes "history.run_turn router d i ev s = (Inl err, s', Some x)"
    "history.run_turn router d' i' ev' s' = (result, s'', Some y)"
    "event_key ev' = event_key ev" "ev_MSISDN ev' = ev_MSISDN ev" "ex_Tenant y = ex_Tenant x"
    "load (at_Load i') (event_key ev) s = load (at_Load i) (event_key ev) s"
  shows "rq_Turn (ex_Request y) = rq_Turn (ex_Request x) \<and> rq_State (ex_Request y) = rq_State (ex_Request x)"
proof -
  have s': "s' = s" by (rule failed_turn [OF assms(1)])
  let ?store = "store_of load save delete"
  have given: "rq_Turn (ex_Request x) = se_Turn (enter_tenant (ex_Tenant x) (load_session ?store (at_Load i) ev s)) \<and>
      rq_State (ex_Request x) = se_State (enter_tenant (ex_Tenant x) (load_session ?store (at_Load i) ev s))"
    if "history.run_turn router d i ev s = (r, s1, Some x)" for d i ev r s1 x
    by (cases rule: handle_cases [of ev ?store router d i s]) (use that in \<open>auto simp: turn_request_def\<close>)
  show ?thesis
    using given [OF assms(1)] given [OF assms(2) [unfolded s']] history.entered_same [OF assms(3,4,6)] assms(5) by simp
qed

end

end
