(* ===== verification/Ussdsim.thy ===== *)
theory Ussdsim
  imports Simulator Tenant_Dispatch
begin

text \<open>
  \<^verbatim>\<open>cmd/ussdsim/main.go\<close>: the terminal handset.  Wrapping a screen to the display is a loop that only
  ends because the display has a width, so it is a partial function; the dialogue is a recursion over
  the lines the user types, and the gateway it talks to is a state machine behind a client.
\<close>

section \<open>Wrapping\<close>

definition screenWidth :: nat where
  "screenWidth = 32"

text \<open>The loop that cuts a line longer than the display.\<close>

partial_function (option) break_line :: "nat \<Rightarrow> string list \<Rightarrow> string \<Rightarrow> (string list \<times> string) option" where
  "break_line width out l =
     (if length (runes l) > width then
        break_line width (out @ [string_of_runes (take width (runes l))]) (string_of_runes (drop width (runes l)))
      else Some (out, l))"

fun wrap_words :: "nat \<Rightarrow> string list \<Rightarrow> string list \<Rightarrow> string \<Rightarrow> (string list \<times> string) option" where
  "wrap_words width [] out l = Some (out, l)"
| "wrap_words width (word # words) out l =
     (case
        (if l = [] then break_line width out word
         else if length (runes l) + 1 + length (runes word) \<le> width then break_line width out (l @ '' '' @ word)
         else break_line width (out @ [l]) word) of
        None \<Rightarrow> None
      | Some (out', l') \<Rightarrow> wrap_words width words out' l')"

fun wrap_paras :: "nat \<Rightarrow> string list \<Rightarrow> string list \<Rightarrow> string list option" where
  "wrap_paras width [] out = Some out"
| "wrap_paras width (para # paras) out =
     (if para = [] then wrap_paras width paras (out @ [[]])
      else case wrap_words width (Fields para) out [] of
        None \<Rightarrow> None
      | Some (out', l) \<Rightarrow> wrap_paras width paras (if l \<noteq> [] then out' @ [l] else out'))"

definition wrap :: "string \<Rightarrow> nat \<Rightarrow> string list option" where
  "wrap s width = wrap_paras width (split_on (CHR 0x0A) s) []"

section \<open>Drawing\<close>

definition padded :: "nat \<Rightarrow> string \<Rightarrow> string" where
  "padded width l = l @ replicate (width - length (runes l)) (CHR '' '')"

definition encoding_name :: "Encoding \<Rightarrow> string" where
  "encoding_name e = (case e of EncodingGSM7 \<Rightarrow> ''gsm7'' | EncodingUCS2 \<Rightarrow> ''ucs2'')"

text \<open>The lines printed for a screen.\<close>

definition draw :: "string \<Rightarrow> bool \<Rightarrow> string list option" where
  "draw body ended =
     (let border = ''+'' @ replicate (screenWidth + 2) (CHR ''-'') @ ''+'' in
      case wrap body screenWidth of
        None \<Rightarrow> None
      | Some ls \<Rightarrow>
          Some ([[]] @ [border] @ map (\<lambda>l. ''| '' @ padded screenWidth l @ '' |'') ls @ [border]
            @ (if \<not> FitsScreen body then
                 [''!! '' @ FormatInt (int (fst (ScreenCost body))) @ '' '' @ encoding_name (snd (ScreenCost body))
                    @ '' units, budget is '' @ FormatInt (int (Budget body))
                    @ '': a real network would reject this screen'']
               else [])
            @ (if ended then [''(session ended)''] else []) @ [[]]))"

section \<open>The dialogue\<close>

record 'w handset =
  hs_Marshal :: "sim_request \<Rightarrow> string + string"
  hs_RequestError :: "string option"
  hs_Do :: "string \<Rightarrow> 'w \<Rightarrow> (string + http_response) \<times> 'w"
  hs_Decode :: "string \<Rightarrow> string option \<Rightarrow> string + Response"

datatype send_error =
    Marshalling string
  | BuildingSend string
  | ReachingGateway string
  | GatewayReplied string
  | DecodingSend string

definition send :: "'w handset \<Rightarrow> sim_request \<Rightarrow> 'w \<Rightarrow> (send_error + Response) \<times> 'w" where
  "send h req w =
     (case hs_Marshal h req of
        Inl err \<Rightarrow> (Inl (Marshalling err), w)
      | Inr body \<Rightarrow>
          (case hs_RequestError h of
             Some err \<Rightarrow> (Inl (BuildingSend err), w)
           | None \<Rightarrow>
               (case hs_Do h body w of
                  (Inl err, w') \<Rightarrow> (Inl (ReachingGateway err), w')
                | (Inr resp, w') \<Rightarrow>
                    if hp_StatusCode resp \<noteq> 200 then (Inl (GatewayReplied (hp_Status resp)), w')
                    else if Phase_Terminal (sim_Phase req) then (Inr empty_Response, w')
                    else
                      (case hs_Decode h (hp_Body resp) (hp_ReadError resp) of
                         Inl err \<Rightarrow> (Inl (DecodingSend err), w')
                       | Inr out \<Rightarrow> (Inr out, w')))))"

definition cancel :: "'w handset \<Rightarrow> sim_request \<Rightarrow> 'w \<Rightarrow> send_error option \<times> 'w" where
  "cancel h req w =
     (case send h req w of (Inl err, w') \<Rightarrow> (Some err, w') | (Inr _, w') \<Rightarrow> (None, w'))"

text \<open>What one run did: the requests it sent, the screens it drew, and the error that stopped it.\<close>

record run_log =
  rl_Sent :: "sim_request list"
  rl_Drawn :: "Response list"
  rl_Error :: "send_error option"

definition sent_request :: "string \<Rightarrow> string \<Rightarrow> string \<Rightarrow> string list \<Rightarrow> Phase \<Rightarrow> sim_request" where
  "sent_request sid msisdn shortcode path phase =
     \<lparr>sim_SessionID = sid, sim_MSISDN = msisdn, sim_Shortcode = shortcode, sim_Path = path, sim_Phase = phase\<rparr>"

fun dial ::
    "'w handset \<Rightarrow> string \<Rightarrow> string \<Rightarrow> string \<Rightarrow> string list \<Rightarrow> Phase \<Rightarrow> string list \<Rightarrow> 'w \<Rightarrow> run_log \<times> 'w" where
  "dial h sid msisdn shortcode path phase inputs w =
     (let req = sent_request sid msisdn shortcode path phase in
      case send h req w of
        (Inl err, w') \<Rightarrow> (\<lparr>rl_Sent = [req], rl_Drawn = [], rl_Error = Some err\<rparr>, w')
      | (Inr resp, w') \<Rightarrow>
          if resp_EndSession resp then (\<lparr>rl_Sent = [req], rl_Drawn = [resp], rl_Error = None\<rparr>, w')
          else case inputs of
            [] \<Rightarrow>
              let bye = sent_request sid msisdn shortcode path PhaseCancel in
              (case cancel h bye w' of
                 (err, w'') \<Rightarrow> (\<lparr>rl_Sent = [req, bye], rl_Drawn = [resp], rl_Error = err\<rparr>, w''))
          | inp # rest \<Rightarrow>
              (case dial h sid msisdn shortcode (path @ [TrimSpace inp]) PhaseContinue rest w' of
                 (log, w'') \<Rightarrow>
                   (log\<lparr>rl_Sent := req # rl_Sent log, rl_Drawn := resp # rl_Drawn log\<rparr>, w'')))"

declare dial.simps [simp del]

text \<open>The session: the time in seconds and a random number of four digits.\<close>

definition sim_session_id :: "int \<Rightarrow> nat \<Rightarrow> string" where
  "sim_session_id unix r =
     ''SIM_'' @ FormatInt unix @ ''_'' @ replicate (4 - length (digits r)) (CHR ''0'') @ digits r"

text \<open>The endpoint of a gateway, whose base may be written with slashes at its end.\<close>

definition sim_endpoint :: "string \<Rightarrow> string" where
  "sim_endpoint gateway = drop_while_end (\<lambda>c. c = CHR ''/'') gateway @ ''/ussd/simulator''"

definition ussdsim ::
    "(string \<Rightarrow> 'w handset) \<Rightarrow> string \<Rightarrow> int \<Rightarrow> nat \<Rightarrow> string \<Rightarrow> string \<Rightarrow> string list \<Rightarrow> 'w \<Rightarrow> run_log \<times> 'w" where
  "ussdsim at gateway unix r msisdn shortcode inputs w =
     dial (at (sim_endpoint gateway)) (sim_session_id unix r) msisdn shortcode [] PhaseBegin inputs w"

section \<open>Wrapping ends and loses nothing\<close>

abbreviation inked :: "string \<Rightarrow> rune list" where
  "inked s \<equiv> filter (\<lambda>r. \<not> IsSpace r) (runes s)"

abbreviation narrow :: "nat \<Rightarrow> string \<Rightarrow> bool" where
  "narrow width l \<equiv> length (runes l) \<le> width"

lemma runes_drop: "runes (string_of_runes (drop n (runes s))) = drop n (runes s)"
  by (rule runes_string_of_runes) (auto dest: in_set_dropD intro: runes_valid)

lemma break_line_result:
  assumes "0 < width"
  shows "\<exists>ls l'. break_line width out l = Some (out @ ls, l') \<and> (\<forall>x \<in> set ls. narrow width x) \<and> narrow width l' \<and>
    concat (map runes ls) @ runes l' = runes l"
proof (induction "length (runes l)" arbitrary: out l rule: less_induct)
  case less
  show ?case
  proof (cases "narrow width l")
    case True
    then show ?thesis by (intro exI [of _ "[]"] exI [of _ l]) (simp add: break_line.simps)
  next
    case False
    let ?head = "string_of_runes (take width (runes l))" and ?tail = "string_of_runes (drop width (runes l))"
    have step: "break_line width out l = break_line width (out @ [?head]) ?tail"
      using False by (subst break_line.simps) simp
    have "length (runes ?tail) < length (runes l)" unfolding runes_drop using False assms by simp
    from less [OF this, of "out @ [?head]"] obtain ls l' where rest:
      "break_line width (out @ [?head]) ?tail = Some ((out @ [?head]) @ ls, l')" "\<forall>x \<in> set ls. narrow width x" "narrow width l'"
      "concat (map runes ls) @ runes l' = drop width (runes l)"
      unfolding runes_drop by blast
    have "concat (map runes (?head # ls)) @ runes l' = runes l" using rest(4) by simp
    moreover have "\<forall>x \<in> set (?head # ls). narrow width x" using rest(2) by simp
    ultimately show ?thesis using step rest(1,3) by - (rule exI [of _ "?head # ls"], rule exI [of _ l'], simp)
  qed
qed

lemma concat_inked: "concat (map inked ls) = filter (\<lambda>r. \<not> IsSpace r) (concat (map runes ls))"
  by (induction ls) simp_all

lemma wrap_words_result:
  assumes "0 < width" "narrow width l"
  shows "\<exists>ls l'. wrap_words width ws out l = Some (out @ ls, l') \<and> (\<forall>x \<in> set ls. narrow width x) \<and> narrow width l' \<and>
    concat (map inked ls) @ inked l' = inked l @ concat (map inked ws)"
  using assms(2)
proof (induction ws arbitrary: out l)
  case Nil
  then show ?case by simp
next
  case (Cons word ws)
  define joined where "joined = (l \<noteq> [] \<and> length (runes l) + 1 + length (runes word) \<le> width)"
  define start where "start = (if l = [] \<or> joined then [] else [l])"
  define rest where "rest = (if joined then l @ '' '' @ word else word)"
  have step: "wrap_words width (word # ws) out l =
      (case break_line width (out @ start) rest of None \<Rightarrow> None | Some (out', l') \<Rightarrow> wrap_words width ws out' l')"
    by (simp add: joined_def start_def rest_def)
  have "runes (l @ '' '' @ word) = runes l @ 0x20 # runes word"
    by (simp add: runes_append is_cont_def runes_ascii_Cons)
  then have ink: "concat (map inked start) @ inked rest = inked l @ inked word"
    by (auto simp: start_def rest_def joined_def IsSpace_def)
  have narrow_start: "\<forall>x \<in> set start. narrow width x" using Cons.prems by (simp add: start_def)
  from break_line_result [OF assms(1), of "out @ start" rest] obtain ls l' where b:
    "break_line width (out @ start) rest = Some ((out @ start) @ ls, l')" "\<forall>x \<in> set ls. narrow width x" "narrow width l'"
    "concat (map runes ls) @ runes l' = runes rest" by blast
  have ink': "concat (map inked ls) @ inked l' = inked rest"
    unfolding concat_inked filter_append [symmetric] b(4) ..
  from Cons.IH [OF b(3), of "(out @ start) @ ls"] obtain ls' l'' where w:
    "wrap_words width ws ((out @ start) @ ls) l' = Some (((out @ start) @ ls) @ ls', l'')" "\<forall>x \<in> set ls'. narrow width x"
    "narrow width l''" "concat (map inked ls') @ inked l'' = inked l' @ concat (map inked ws)" by blast
  have "wrap_words width (word # ws) out l = Some (out @ (start @ ls @ ls'), l'')" using step b(1) w(1) by simp
  moreover have "\<forall>x \<in> set (start @ ls @ ls'). narrow width x" using narrow_start b(2) w(2) by auto
  moreover have "concat (map inked (start @ ls @ ls')) @ inked l'' = inked l @ concat (map inked (word # ws))"
    using ink ink' w(4) by (simp flip: append_assoc) (metis append_assoc)
  ultimately show ?case using w(3) by blast
qed

lemma inked_Fields: "concat (map inked (Fields s)) = inked s"
proof -
  have "concat (map inked (Fields s)) = filter (\<lambda>r. \<not> IsSpace r) (concat (fields_by IsSpace (runes s)))"
    unfolding Fields_def concat_inked map_runes_FieldsFunc ..
  then show ?thesis by (simp add: concat_fields_by)
qed

lemma wrap_paras_result:
  assumes "0 < width"
  shows "\<exists>ls. wrap_paras width ps out = Some (out @ ls) \<and> (\<forall>x \<in> set ls. narrow width x) \<and>
    concat (map inked ls) = concat (map inked ps)"
proof (induction ps arbitrary: out)
  case (Cons p ps)
  show ?case
  proof (cases "p = []")
    case True
    from Cons [of "out @ [[]]"] obtain ls where ls: "wrap_paras width ps (out @ [[]]) = Some ((out @ [[]]) @ ls)"
      "\<forall>x \<in> set ls. narrow width x" "concat (map inked ls) = concat (map inked ps)" by blast
    then show ?thesis using True by (intro exI [of _ "[] # ls"]) simp
  next
    case False
    from wrap_words_result [OF assms, of "[]" "Fields p" out] obtain ls l where w:
      "wrap_words width (Fields p) out [] = Some (out @ ls, l)" "\<forall>x \<in> set ls. narrow width x" "narrow width l"
      "concat (map inked ls) @ inked l = inked p" by (auto simp: inked_Fields)
    let ?ls = "if l \<noteq> [] then ls @ [l] else ls"
    have ink: "concat (map inked ?ls) = inked p" using w(4) by auto
    from Cons [of "out @ ?ls"] obtain ls' where r: "wrap_paras width ps (out @ ?ls) = Some ((out @ ?ls) @ ls')"
      "\<forall>x \<in> set ls'. narrow width x" "concat (map inked ls') = concat (map inked ps)" by blast
    have "wrap_paras width (p # ps) out = Some (out @ (?ls @ ls'))" using False w(1) r(1) by auto
    moreover have "\<forall>x \<in> set (?ls @ ls'). narrow width x" using w(2,3) r(2) by auto
    moreover have "concat (map inked (?ls @ ls')) = concat (map inked (p # ps))" using ink r(3) by simp
    ultimately show ?thesis by blast
  qed
qed simp

lemma wrap_result:
  assumes "0 < width"
  shows "\<exists>ls. wrap s width = Some ls \<and> (\<forall>x \<in> set ls. narrow width x) \<and> concat (map inked ls) = inked s"
proof -
  have "concat (map inked (split_on (CHR 0x0A) s)) = inked s"
    using runes_join_newline [of "CHR 0x0A" "\<lambda>r. \<not> IsSpace r" "split_on (CHR 0x0A) s"]
    by (simp add: join_split_on IsSpace_def)
  then show ?thesis using wrap_paras_result [OF assms, of "split_on (CHR 0x0A) s" "[]"] by (simp add: wrap_def)
qed

text \<open>On a display without a width the loop would not end.\<close>

lemma draw_total: "draw body ended \<noteq> None"
  using wrap_result [of screenWidth body] by (auto simp: draw_def screenWidth_def Let_def)

section \<open>What the handset sends\<close>

lemma dial_sent:
  assumes "dial h sid msisdn shortcode path phase inputs w = (log, w')" "req \<in> set (rl_Sent log)"
  shows "\<exists>k \<le> length inputs. \<exists>ph. req = sent_request sid msisdn shortcode (path @ map TrimSpace (take k inputs)) ph \<and>
    (ph = PhaseContinue \<and> 0 < k \<or> ph = phase \<and> k = 0 \<or> ph = PhaseCancel \<and> k = length inputs)"
  using assms
proof (induction inputs arbitrary: path phase w log w')
  case Nil
  then show ?case
    by (subst (asm) dial.simps) (auto simp: Let_def cancel_def split: prod.splits sum.splits if_splits)
next
  case (Cons inp rest)
  let ?req = "sent_request sid msisdn shortcode path phase"
  obtain r w1 where s: "send h ?req w = (r, w1)" by force
  have first: ?case if "req = ?req"
    using that by (intro exI [of _ 0]) simp
  show ?case
  proof (cases "\<exists>resp. r = Inr resp \<and> \<not> resp_EndSession resp")
    case False
    then have "rl_Sent log = [?req]"
      using Cons.prems(1) s by (subst (asm) dial.simps) (auto simp: Let_def split: sum.splits if_splits)
    then show ?thesis using Cons.prems(2) first by simp
  next
    case True
    obtain log' w2 where d: "dial h sid msisdn shortcode (path @ [TrimSpace inp]) PhaseContinue rest w1 = (log', w2)" by force
    have "rl_Sent log = ?req # rl_Sent log'"
      using Cons.prems(1) s True d by (subst (asm) dial.simps) (auto simp: Let_def)
    with Cons.prems(2) consider "req = ?req" | "req \<in> set (rl_Sent log')" by auto
    then show ?thesis
    proof cases
      case 2
      from Cons.IH [OF d 2] obtain k ph where k: "k \<le> length rest"
        "req = sent_request sid msisdn shortcode ((path @ [TrimSpace inp]) @ map TrimSpace (take k rest)) ph"
        "ph = PhaseContinue \<and> 0 < k \<or> ph = PhaseContinue \<and> k = 0 \<or> ph = PhaseCancel \<and> k = length rest" by blast
      then show ?thesis by (intro exI [of _ "Suc k"]) auto
    qed (rule first)
  qed
qed

text \<open>The simulator adapter accepts every request of a run, as long as the user types no star.\<close>

lemma length_digits: "n < 10 ^ k \<Longrightarrow> 0 < k \<Longrightarrow> length (digits n) \<le> k"
proof (induction k arbitrary: n)
  case (Suc k)
  show ?case
  proof (cases "n < 10")
    case True
    then show ?thesis by (subst digits.simps) simp
  next
    case False
    then have "0 < k" using Suc.prems by (cases k) auto
    moreover have "n div 10 < 10 ^ k" using Suc.prems by (simp add: div_less_iff_less_mult mult.commute)
    ultimately have "length (digits (n div 10)) \<le> k" by (rule Suc.IH [rotated])
    with False show ?thesis by (subst digits.simps) simp
  qed
qed simp

lemma sim_session_id_bounds:
  assumes "\<bar>unix\<bar> < 2 ^ 63" "r < 10000"
  shows "sim_session_id unix r \<noteq> []" "length (sim_session_id unix r) \<le> 128"
proof -
  show "sim_session_id unix r \<noteq> []" by (simp add: sim_session_id_def)
  have "nat \<bar>unix\<bar> < 10 ^ 19" using assms(1) by simp
  then have "length (digits (nat \<bar>unix\<bar>)) \<le> 19" by (rule length_digits) simp
  then have "length (FormatInt unix) \<le> 20" by (auto simp: FormatInt_def abs_if split: if_splits)
  moreover have "length (digits r) \<le> 4" using assms(2) by (intro length_digits) simp_all
  ultimately show "length (sim_session_id unix r) \<le> 128" by (simp add: sim_session_id_def)
qed

lemma dial_accepted:
  assumes "dial h (sim_session_id unix r) msisdn shortcode [] PhaseBegin inputs w = (log, w')" "req \<in> set (rl_Sent log)"
    "\<bar>unix\<bar> < 2 ^ 63" "r < 10000" "msisdn \<noteq> []" "\<forall>inp \<in> set inputs. CHR ''*'' \<notin> set inp"
  shows "wf_event (Simulator_event now raw req)"
proof -
  obtain k ph where k: "req = sent_request (sim_session_id unix r) msisdn shortcode (map TrimSpace (take k inputs)) ph"
    "ph = PhaseContinue \<and> 0 < k \<or> ph = PhaseBegin \<and> k = 0 \<or> ph = PhaseCancel \<and> k = length inputs"
    using dial_sent [OF assms(1,2)] by auto
  have "CHR ''*'' \<notin> set (TrimSpace inp)" if "inp \<in> set inputs" for inp
    using set_mono_sublist [OF TrimSpace_sublist [of inp]] assms(6) that by auto
  then have stars: "\<forall>seg \<in> set (map TrimSpace (take k inputs)). CHR ''*'' \<notin> set seg"
    by (auto dest: in_set_takeD)
  have ph: "ph \<in> {PhaseBegin, PhaseContinue, PhaseCancel}" "ph = PhaseBegin \<Longrightarrow> k = 0" "ph \<noteq> []"
    using k(2) by (auto simp: PhaseBegin_def PhaseContinue_def PhaseCancel_def)
  with stars sim_session_id_bounds [OF assms(3,4)] assms(5) show ?thesis
    by (auto simp: wf_event_def Simulator_event_def sent_request_def k(1) Let_def Simulator_Name_def)
qed

end
