(* ===== verification/Gateway_Config.thy ===== *)
theory Gateway_Config
  imports Session_Memory Tenant_Router
begin

text \<open>
  \<^verbatim>\<open>gateway/internal/config/config.go\<close>: the configuration file, the expansion of references to the
  environment on the parsed document, the defaults and the validation.  Reading the file, the YAML
  parser, the decoding of a document and the environment are arguments of \<open>Load\<close>.
\<close>

section \<open>The code\<close>

record SessionConfig =
  sc_Backend :: string
  sc_RedisURL :: string
  sc_TTL :: duration

record AdapterConfig =
  ac_Enabled :: bool
  ac_AllowedSources :: "string list"
  ac_TrustedForwarders :: "string list"

record Config =
  cf_Listen :: string
  cf_Session :: SessionConfig
  cf_Adapters :: "(string, AdapterConfig) mapping"
  cf_Tenants :: "Tenant list"
  cf_LogLevel :: string

text \<open>A YAML node: a scalar with its value, or any other kind with its children.\<close>

datatype node = Scalar string | Other "node list"

definition name_start :: "char \<Rightarrow> bool" where
  "name_start c \<longleftrightarrow>
     (65 \<le> (of_char c :: nat) \<and> of_char c \<le> (90 :: nat)) \<or> (97 \<le> (of_char c :: nat) \<and> of_char c \<le> (122 :: nat)) \<or> c = CHR ''_''"

definition name_char :: "char \<Rightarrow> bool" where
  "name_char c \<longleftrightarrow> name_start c \<or> is_digit c"

text \<open>The pattern \<^verbatim>\<open>\$\{([A-Za-z_][A-Za-z0-9_]*)\}\<close> at the head of a string: the name and what follows.\<close>

definition env_ref :: "string \<Rightarrow> (string \<times> string) option" where
  "env_ref s =
     (if prefix [CHR ''$'', CHR 0x7B] s then
        let body = drop 2 s; name = takeWhile name_char body; rest = dropWhile name_char body in
        if name \<noteq> [] \<and> name_start (hd name) \<and> rest \<noteq> [] \<and> hd rest = CHR 0x7D then Some (name, tl rest) else None
      else None)"

lemma env_ref_shorter: "env_ref s = Some (name, rest) \<Longrightarrow> length rest < length s"
proof -
  assume "env_ref s = Some (name, rest)"
  then have "rest = tl (dropWhile name_char (drop 2 s))" "dropWhile name_char (drop 2 s) \<noteq> []"
    by (auto simp: env_ref_def Let_def split: if_splits)
  moreover have "length (dropWhile name_char (drop 2 s)) \<le> length s"
    using length_dropWhile_le [of name_char "drop 2 s"] by simp
  ultimately show ?thesis by (cases "dropWhile name_char (drop 2 s)") auto
qed

function expand :: "(string \<Rightarrow> string option) \<Rightarrow> string \<Rightarrow> string \<times> string list" where
  "expand env [] = ([], [])"
| "expand env (c # cs) =
     (case env_ref (c # cs) of
        Some (name, rest) \<Rightarrow>
          (case env name of
             Some v \<Rightarrow> (v @ fst (expand env rest), snd (expand env rest))
           | None \<Rightarrow> (fst (expand env rest), name # snd (expand env rest)))
      | None \<Rightarrow> (c # fst (expand env cs), snd (expand env cs)))"
  by pat_completeness auto
termination by (relation "measure (\<lambda>(env, s). length s)") (auto dest: env_ref_shorter)

fun expandNode :: "(string \<Rightarrow> string option) \<Rightarrow> node \<Rightarrow> node \<times> string list" where
  "expandNode env (Scalar v) = (Scalar (fst (expand env v)), snd (expand env v))"
| "expandNode env (Other children) =
     (Other (map (fst \<circ> expandNode env) children), concat (map (snd \<circ> expandNode env) children))"

definition applyDefaults :: "Config \<Rightarrow> Config" where
  "applyDefaults c =
     (let c = (if cf_Listen c = [] then c\<lparr>cf_Listen := '':8080''\<rparr> else c);
          c = (if cf_LogLevel c = [] then c\<lparr>cf_LogLevel := ''info''\<rparr> else c);
          c = (if sc_Backend (cf_Session c) = [] then c\<lparr>cf_Session := (cf_Session c)\<lparr>sc_Backend := ''memory''\<rparr>\<rparr> else c)
      in if sc_TTL (cf_Session c) = 0 then c\<lparr>cf_Session := (cf_Session c)\<lparr>sc_TTL := DefaultTTL\<rparr>\<rparr> else c)"

datatype config_error =
    ReadingConfig string
  | ParsingConfig string
  | UnsetVariables "string list"
  | DecodingConfig string
  | RedisWithoutURL
  | UnknownBackend string
  | NoTenants
  | NoAdapters

definition enabled_count :: "(string set \<Rightarrow> string list) \<Rightarrow> (string, AdapterConfig) mapping \<Rightarrow> nat" where
  "enabled_count order adapters =
     length (filter (\<lambda>n. case Mapping.lookup adapters n of Some a \<Rightarrow> ac_Enabled a | None \<Rightarrow> False)
       (order (Mapping.keys adapters)))"

definition Config_Validate :: "(string set \<Rightarrow> string list) \<Rightarrow> Config \<Rightarrow> config_error option" where
  "Config_Validate order c =
     (let backend = sc_Backend (cf_Session c) in
      if backend = ''redis'' \<and> sc_RedisURL (cf_Session c) = [] then Some RedisWithoutURL
      else if backend \<noteq> ''memory'' \<and> backend \<noteq> ''redis'' then Some (UnknownBackend backend)
      else if length (cf_Tenants c) = 0 then Some NoTenants
      else if enabled_count order (cf_Adapters c) = 0 then Some NoAdapters
      else None)"

definition Load ::
    "(string \<Rightarrow> string + string) \<Rightarrow> (string \<Rightarrow> string + node) \<Rightarrow> (string \<Rightarrow> string option) \<Rightarrow> (node \<Rightarrow> string + Config) \<Rightarrow>
     (string set \<Rightarrow> string list) \<Rightarrow> string \<Rightarrow> config_error + Config" where
  "Load read_file parse env decode order path =
     (case read_file path of
        Inl err \<Rightarrow> Inl (ReadingConfig err)
      | Inr raw \<Rightarrow>
          (case parse raw of
             Inl err \<Rightarrow> Inl (ParsingConfig err)
           | Inr doc \<Rightarrow>
               (case expandNode env doc of
                  (doc', missing) \<Rightarrow>
                    if length missing > 0 then Inl (UnsetVariables missing)
                    else case decode doc' of
                      Inl err \<Rightarrow> Inl (DecodingConfig err)
                    | Inr c \<Rightarrow>
                        let c = applyDefaults c in
                        (case Config_Validate order c of Some err \<Rightarrow> Inl err | None \<Rightarrow> Inr c))))"

definition SimulatorExposed :: "Config \<Rightarrow> bool" where
  "SimulatorExposed c =
     (case Mapping.lookup (cf_Adapters c) ''simulator'' of
        None \<Rightarrow> False
      | Some a \<Rightarrow>
          ac_Enabled a \<and> \<not> prefix ''127.0.0.1:'' (cf_Listen c) \<and> \<not> prefix ''localhost:'' (cf_Listen c))"

section \<open>References\<close>

text \<open>The names a document refers to, in the order of the document.\<close>

function env_names :: "string \<Rightarrow> string list" where
  "env_names [] = []"
| "env_names (c # cs) =
     (case env_ref (c # cs) of Some (name, rest) \<Rightarrow> name # env_names rest | None \<Rightarrow> env_names cs)"
  by pat_completeness auto
termination by (relation "measure length") (auto dest: env_ref_shorter)

fun node_names :: "node \<Rightarrow> string list" where
  "node_names (Scalar v) = env_names v"
| "node_names (Other children) = concat (map node_names children)"

text \<open>Every reference to an unset variable is reported, and nothing else.\<close>

lemma expand_missing: "snd (expand env s) = filter (\<lambda>n. env n = None) (env_names s)"
  by (induction env s rule: expand.induct) (auto split: option.split)

lemma expandNode_missing: "snd (expandNode env d) = filter (\<lambda>n. env n = None) (node_names d)"
  by (induction env d rule: expandNode.induct) (simp_all add: expand_missing filter_concat cong: map_cong)

text \<open>A text without a dollar sign is left alone, and a value is not expanded again.\<close>

lemma env_ref_dollar: "env_ref (c # cs) = Some x \<Longrightarrow> c = CHR ''$''"
  by (auto simp: env_ref_def split: if_splits)

lemma expand_plain: "CHR ''$'' \<notin> set s \<Longrightarrow> expand env s = (s, [])"
proof (induction s)
  case (Cons c cs)
  then have "env_ref (c # cs) = None" using env_ref_dollar [of c cs] by (cases "env_ref (c # cs)") auto
  with Cons show ?case by simp
qed simp

section \<open>What is loaded\<close>

lemma Load_Inr:
  assumes "Load read_file parse env decode order path = Inr c"
  obtains raw doc c0 where "read_file path = Inr raw" "parse raw = Inr doc" "\<forall>n \<in> set (node_names doc). env n \<noteq> None"
    "decode (fst (expandNode env doc)) = Inr c0" "c = applyDefaults c0" "Config_Validate order c = None"
proof -
  from assms obtain raw doc where rd: "read_file path = Inr raw" "parse raw = Inr doc"
    by (auto simp: Load_def split: sum.splits)
  obtain doc' missing where e: "expandNode env doc = (doc', missing)" by force
  with assms rd obtain c0 where "missing = []" "decode doc' = Inr c0" "c = applyDefaults c0" "Config_Validate order c = None"
    by (auto simp: Load_def Let_def split: sum.splits if_splits option.splits)
  moreover from this(1) e have "filter (\<lambda>n. env n = None) (node_names doc) = []"
    using expandNode_missing [of env doc] by simp
  then have "\<forall>n \<in> set (node_names doc). env n \<noteq> None" by (simp add: filter_empty_conv)
  ultimately show thesis using that [OF rd] e by simp
qed

lemma Load_missing:
  assumes "read_file path = Inr raw" "parse raw = Inr doc" "n \<in> set (node_names doc)" "env n = None"
  shows "\<exists>names. Load read_file parse env decode order path = Inl (UnsetVariables names) \<and>
    set names = {m \<in> set (node_names doc). env m = None}"
proof -
  obtain doc' where e: "expandNode env doc = (doc', filter (\<lambda>n. env n = None) (node_names doc))"
    using expandNode_missing [of env doc] by (metis prod.collapse)
  have "filter (\<lambda>n. env n = None) (node_names doc) \<noteq> []" using assms(3,4) by (auto simp: filter_empty_conv)
  with assms(1,2) e show ?thesis by (auto simp: Load_def)
qed

lemma enabled_count_pos:
  assumes "map_order order" "finite (Mapping.keys adapters)"
  shows "enabled_count order adapters \<noteq> 0 \<longleftrightarrow> (\<exists>n a. Mapping.lookup adapters n = Some a \<and> ac_Enabled a)"
  using assms by (auto simp: enabled_count_def map_order_def filter_empty_conv keys_dom_lookup split: option.splits)

lemma applyDefaults_TTL: "sc_TTL (cf_Session (applyDefaults c)) \<noteq> 0"
  by (simp add: applyDefaults_def Let_def DefaultTTL_def Second_def)

lemma applyDefaults_Listen: "cf_Listen (applyDefaults c) \<noteq> []"
  by (simp add: applyDefaults_def Let_def)

lemma Config_Validate_None:
  assumes "Config_Validate order c = None"
  shows "sc_Backend (cf_Session c) \<in> {''memory'', ''redis''}" "sc_Backend (cf_Session c) = ''redis'' \<Longrightarrow> sc_RedisURL (cf_Session c) \<noteq> []"
    "cf_Tenants c \<noteq> []" "enabled_count order (cf_Adapters c) \<noteq> 0"
  using assms by (auto simp: Config_Validate_def Let_def split: if_splits)

text \<open>
  A negative lifetime passes the validation.  A store with it never finds a session, so every turn of a
  dialogue is its first.
\<close>

lemma Config_Validate_TTL:
  "Config_Validate order (c\<lparr>cf_Session := (cf_Session c)\<lparr>sc_TTL := ttl\<rparr>\<rparr>) = Config_Validate order c"
  by (simp add: Config_Validate_def Let_def)

lemma negative_ttl_forgets:
  assumes "mem_ttl m \<le> 0" "Memory_Save now x m = (None, m')" "now \<le> t" "Key_Validate (se_Key x) = None"
  shows "Memory_Load t (se_Key x) m' = Inl NotFound"
  using memory.load_save [OF assms(2,4), of t] assms(1,3) by simp

end
