(* ===== verification/Session_Redis.thy ===== *)
theory Session_Redis
  imports Session_Store
begin

text \<open>
  \<^verbatim>\<open>gateway/internal/session/redis.go\<close>: the session store of several replicas.  The Redis client is a
  record of the calls the store makes, each a function of the server's state and, where the lifetime
  of a key matters, of the instant; the JSON codec of a session is a parameter of the store.
\<close>

section \<open>The code\<close>

definition redisKeyPrefix :: string where
  "redisKeyPrefix = ''openussd:session:''"

datatype redis_error = RedisNil | RedisFailure string

record 's client =
  rc_Get :: "time \<Rightarrow> string \<Rightarrow> 's \<Rightarrow> redis_error + string"
  rc_Set :: "time \<Rightarrow> string \<Rightarrow> string \<Rightarrow> duration \<Rightarrow> 's \<Rightarrow> string option \<times> 's"
  rc_Del :: "string \<Rightarrow> 's \<Rightarrow> string option \<times> 's"
  rc_Ping :: "'s \<Rightarrow> string option"
  rc_Close :: "'s \<Rightarrow> string option \<times> 's"

record 's Redis =
  rd_client :: "'s client"
  rd_ttl :: duration
  rd_owned :: bool

record session_codec =
  sj_Marshal :: "Session \<Rightarrow> string + string"
  sj_Unmarshal :: "string \<Rightarrow> string + Session"

datatype RedisOption = WithRedisTTL duration

fun apply_options :: "'s Redis \<Rightarrow> RedisOption list \<Rightarrow> 's Redis" where
  "apply_options r [] = r"
| "apply_options r (WithRedisTTL ttl # opts) = apply_options (r\<lparr>rd_ttl := ttl\<rparr>) opts"

definition NewRedisWithClient :: "'s client \<Rightarrow> RedisOption list \<Rightarrow> 's Redis" where
  "NewRedisWithClient c opts = apply_options \<lparr>rd_client = c, rd_ttl = DefaultTTL, rd_owned = False\<rparr> opts"

definition Redis_Close :: "'s Redis \<Rightarrow> 's \<Rightarrow> string option \<times> 's" where
  "Redis_Close r s = (if \<not> rd_owned r then (None, s) else rc_Close (rd_client r) s)"

text \<open>\<open>connect\<close>: the parsed address as a client, or why it does not parse.\<close>

definition NewRedis ::
    "(string \<Rightarrow> string + 's client) \<Rightarrow> string \<Rightarrow> RedisOption list \<Rightarrow> 's \<Rightarrow> (session_error + 's Redis) \<times> 's" where
  "NewRedis connect url opts s =
     (case connect url of
        Inl err \<Rightarrow> (Inl (StoreFailure (''session: parsing redis url: '' @ err)), s)
      | Inr c \<Rightarrow>
          let r = (NewRedisWithClient c opts)\<lparr>rd_owned := True\<rparr> in
          case rc_Ping (rd_client r) s of
            Some err \<Rightarrow> (Inl (StoreFailure (''session: connecting to redis: '' @ err)), snd (Redis_Close r s))
          | None \<Rightarrow> (Inr r, s))"

definition Redis_Load :: "session_codec \<Rightarrow> 's Redis \<Rightarrow> time \<Rightarrow> Key \<Rightarrow> 's \<Rightarrow> session_error + Session" where
  "Redis_Load j r now key s =
     (case Key_Validate key of
        Some err \<Rightarrow> Inl err
      | None \<Rightarrow>
          (case rc_Get (rd_client r) now (redisKeyPrefix @ Key_String key) s of
             Inl RedisNil \<Rightarrow> Inl NotFound
           | Inl (RedisFailure err) \<Rightarrow> Inl (StoreFailure (''session: redis get: '' @ err))
           | Inr raw \<Rightarrow>
               (case sj_Unmarshal j raw of
                  Inl err \<Rightarrow> Inl (StoreFailure (''session: decoding stored session: '' @ err))
                | Inr x \<Rightarrow> Inr x)))"

definition Redis_Save :: "session_codec \<Rightarrow> 's Redis \<Rightarrow> time \<Rightarrow> Session \<Rightarrow> 's \<Rightarrow> session_error option \<times> 's" where
  "Redis_Save j r now x s =
     (case Key_Validate (se_Key x) of
        Some err \<Rightarrow> (Some err, s)
      | None \<Rightarrow>
          (case sj_Marshal j (stamp now x) of
             Inl err \<Rightarrow> (Some (StoreFailure (''session: encoding session: '' @ err)), s)
           | Inr raw \<Rightarrow>
               (case rc_Set (rd_client r) now (redisKeyPrefix @ Key_String (se_Key x)) raw (rd_ttl r) s of
                  (Some err, s') \<Rightarrow> (Some (StoreFailure (''session: redis set: '' @ err)), s')
                | (None, s') \<Rightarrow> (None, s'))))"

definition Redis_Delete :: "'s Redis \<Rightarrow> Key \<Rightarrow> 's \<Rightarrow> session_error option \<times> 's" where
  "Redis_Delete r key s =
     (case rc_Del (rd_client r) (redisKeyPrefix @ Key_String key) s of
        (Some err, s') \<Rightarrow> (Some (StoreFailure (''session: redis del: '' @ err)), s')
      | (None, s') \<Rightarrow> (None, s'))"

section \<open>What the store relies on, and what it promises\<close>

text \<open>
  The documented behaviour of the three commands: a value set with a lifetime is read back until it has
  passed, a deleted one is not, and no other key is affected.
\<close>

definition redis_laws :: "'s client \<Rightarrow> bool" where
  "redis_laws c \<longleftrightarrow>
     (\<forall>now k v ttl s s' t k'. rc_Set c now k v ttl s = (None, s') \<longrightarrow> 0 < ttl \<longrightarrow>
        rc_Get c t k' s' = (if k' = k then if t < now + ttl then Inr v else Inl RedisNil else rc_Get c t k' s)) \<and>
     (\<forall>k s s' t k'. rc_Del c k s = (None, s') \<longrightarrow>
        rc_Get c t k' s' = (if k' = k then Inl RedisNil else rc_Get c t k' s))"

lemma apply_options_simps [simp]:
  "rd_client (apply_options r opts) = rd_client r" "rd_owned (apply_options r opts) = rd_owned r"
  by (induction r opts rule: apply_options.induct) simp_all

lemma NewRedisWithClient_simps [simp]:
  "rd_client (NewRedisWithClient c opts) = c" "\<not> rd_owned (NewRedisWithClient c opts)"
  by (simp_all add: NewRedisWithClient_def)

lemma Redis_Load_invalid: "Key_Validate k = Some e \<Longrightarrow> Redis_Load j r t k s = Inl e"
  by (simp add: Redis_Load_def)

lemma Redis_Load_cong:
  "rc_Get (rd_client r) t (redisKeyPrefix @ Key_String k) s = rc_Get (rd_client r) t (redisKeyPrefix @ Key_String k) s' \<Longrightarrow>
   Redis_Load j r t k s = Redis_Load j r t k s'"
  by (cases "Key_Validate k") (simp_all add: Redis_Load_def)

lemma Redis_Save_None:
  assumes "Redis_Save j r now x s = (None, s')"
  obtains raw where "Key_Validate (se_Key x) = None" "sj_Marshal j (stamp now x) = Inr raw"
    "rc_Set (rd_client r) now (redisKeyPrefix @ Key_String (se_Key x)) raw (rd_ttl r) s = (None, s')"
  using assms by (auto simp: Redis_Save_def split: option.splits sum.splits prod.splits)

text \<open>The same law as that of the in-process store, for sessions whose encoding decodes to them.\<close>

lemma Redis_load_save:
  assumes "redis_laws (rd_client r)" "0 < rd_ttl r" "Redis_Save j r now x s = (None, s')" "Key_Validate k = None"
    and "\<And>raw. sj_Marshal j (stamp now x) = Inr raw \<Longrightarrow> sj_Unmarshal j raw = Inr (stamp now x)"
  shows "Redis_Load j r t k s' =
    (if Key_String k = Key_String (se_Key x)
     then if t < now + rd_ttl r then Inr (stamp now x) else Inl NotFound
     else Redis_Load j r t k s)"
proof -
  obtain raw where raw: "sj_Marshal j (stamp now x) = Inr raw"
    "rc_Set (rd_client r) now (redisKeyPrefix @ Key_String (se_Key x)) raw (rd_ttl r) s = (None, s')"
    using Redis_Save_None [OF assms(3)] by blast
  with assms(1,2) have get: "rc_Get (rd_client r) t k' s' =
      (if k' = redisKeyPrefix @ Key_String (se_Key x) then if t < now + rd_ttl r then Inr raw else Inl RedisNil
       else rc_Get (rd_client r) t k' s)" for k'
    unfolding redis_laws_def by blast
  show ?thesis
  proof (cases "Key_String k = Key_String (se_Key x)")
    case True
    then show ?thesis using assms(4) get assms(5) [OF raw(1)] by (simp add: Redis_Load_def)
  next
    case False
    then show ?thesis using get by (simp add: Redis_Load_cong [of r t k s' s])
  qed
qed

lemma Redis_load_delete:
  assumes "redis_laws (rd_client r)" "Redis_Delete r k' s = (None, s')" "Key_Validate k = None"
  shows "Redis_Load j r t k s' = (if Key_String k = Key_String k' then Inl NotFound else Redis_Load j r t k s)"
proof -
  have "rc_Del (rd_client r) (redisKeyPrefix @ Key_String k') s = (None, s')"
    using assms(2) by (auto simp: Redis_Delete_def split: prod.splits option.splits)
  with assms(1) have get: "rc_Get (rd_client r) t n s' =
      (if n = redisKeyPrefix @ Key_String k' then Inl RedisNil else rc_Get (rd_client r) t n s)" for n
    unfolding redis_laws_def by blast
  show ?thesis
  proof (cases "Key_String k = Key_String k'")
    case True
    then show ?thesis using assms(3) get by (simp add: Redis_Load_def)
  next
    case False
    then show ?thesis using get by (simp add: Redis_Load_cong [of r t k s' s])
  qed
qed

text \<open>A client that was handed over stays open; one that could not be reached is closed again.\<close>

lemma Redis_Close_kept: "Redis_Close (NewRedisWithClient c opts) s = (None, s)"
  by (simp add: Redis_Close_def)

lemma NewRedis_Inr:
  "NewRedis connect url opts s = (Inr r, s') \<Longrightarrow> rd_owned r \<and> s' = s \<and> rc_Ping (rd_client r) s = None"
  by (auto simp: NewRedis_def Let_def split: sum.splits option.splits)

end
