(* ===== verification/Gateway_Main.thy ===== *)
theory Gateway_Main
  imports Gateway_Config Session_Redis Inbound Trusted_Proxy Africas_Talking Simulator
begin

text \<open>
  \<^verbatim>\<open>gateway/cmd/gateway/main.go\<close>: how a configuration becomes a running gateway: the session store, the
  router, the registry of guarded adapters and the endpoints that are mounted.  Logging is not modelled.
\<close>

section \<open>The code\<close>

datatype 's session_backend = MemoryBackend Memory | RedisBackend "'s Redis"

definition newSessionStore ::
    "(string \<Rightarrow> string + 's client) \<Rightarrow> Config \<Rightarrow> 's \<Rightarrow> (session_error + 's session_backend) \<times> 's" where
  "newSessionStore connect cfg s =
     (if sc_Backend (cf_Session cfg) = ''redis'' then
        (case NewRedis connect (sc_RedisURL (cf_Session cfg)) [WithRedisTTL (sc_TTL (cf_Session cfg))] s of
           (Inl err, s') \<Rightarrow> (Inl err, s')
         | (Inr r, s') \<Rightarrow> (Inr (RedisBackend r), s'))
      else (Inr (MemoryBackend (NewMemory [WithTTL (sc_TTL (cf_Session cfg))])), s))"

datatype registry_error =
    UnknownAdapter string
  | NoAllowedSources string
  | BadAllowedSources string prefix_error
  | BadTrustedForwarders string prefix_error
  | Registering register_error

definition available ::
    "(string \<Rightarrow> string + sim_request) \<Rightarrow> (Response \<Rightarrow> string + string) \<Rightarrow> string \<Rightarrow> Adapter option" where
  "available decode encode adapter =
     (if adapter = AT_Name then Some AT_Adapter
      else if adapter = Simulator_Name then Some (Simulator_Adapter decode encode)
      else None)"

definition guard :: "string \<Rightarrow> AdapterConfig \<Rightarrow> Adapter \<Rightarrow> registry_error + Adapter" where
  "guard adapter ac base =
     (if NeedsAllowlist base \<and> length (ac_AllowedSources ac) = 0 then Inl (NoAllowedSources adapter)
      else if length (ac_AllowedSources ac) > 0 then
        (case ParsePrefixes (ac_AllowedSources ac) of
           Inl err \<Rightarrow> Inl (BadAllowedSources adapter err)
         | Inr allowed \<Rightarrow>
             (case ParsePrefixes (ac_TrustedForwarders ac) of
                Inl err \<Rightarrow> Inl (BadTrustedForwarders adapter err)
              | Inr forwarders \<Rightarrow>
                  Inr (TrustedProxy_Adapter
                    \<lparr>tp_Adapter = base, tp_Allowed = allowed, tp_Forwarders = forwarders\<rparr>)))
      else Inr base)"

fun newRegistry_loop ::
    "(string \<Rightarrow> Adapter option) \<Rightarrow> (string, AdapterConfig) mapping \<Rightarrow> string list \<Rightarrow> Registry \<Rightarrow> registry_error + Registry" where
  "newRegistry_loop av adapters [] reg = Inr reg"
| "newRegistry_loop av adapters (adapter # rest) reg =
     (case Mapping.lookup adapters adapter of
        None \<Rightarrow> newRegistry_loop av adapters rest reg
      | Some ac \<Rightarrow>
          if \<not> ac_Enabled ac then newRegistry_loop av adapters rest reg
          else case av adapter of
            None \<Rightarrow> Inl (UnknownAdapter adapter)
          | Some base \<Rightarrow>
              (case guard adapter ac base of
                 Inl err \<Rightarrow> Inl err
               | Inr guarded \<Rightarrow>
                   (case Register (Some guarded) reg of
                      (Some err, _) \<Rightarrow> Inl (Registering err)
                    | (None, reg') \<Rightarrow> newRegistry_loop av adapters rest reg')))"

definition newRegistry ::
    "(string set \<Rightarrow> string list) \<Rightarrow> (string \<Rightarrow> Adapter option) \<Rightarrow> Config \<Rightarrow> registry_error + Registry" where
  "newRegistry order av cfg =
     newRegistry_loop av (cf_Adapters cfg) (order (Mapping.keys (cf_Adapters cfg))) NewRegistry"

text \<open>The endpoints: \<^verbatim>\<open>/ussd/{adapter}\<close> for every registered adapter.\<close>

definition mounted :: "(string set \<Rightarrow> string list) \<Rightarrow> Registry \<Rightarrow> string \<Rightarrow> Adapter option" where
  "mounted order reg path =
     (case filter (\<lambda>n. ''/ussd/'' @ n = path) (Names order reg) of
        [] \<Rightarrow> None
      | n # _ \<Rightarrow> Lookup reg n)"

datatype start_error =
    ConfigError config_error
  | StoreError session_error
  | RouterError tenant_error
  | RegistryError registry_error

text \<open>The part of \<^verbatim>\<open>run\<close> before the server listens.\<close>

definition assemble ::
    "(string set \<Rightarrow> string list) \<Rightarrow> (string \<Rightarrow> string + string) \<Rightarrow> (string \<Rightarrow> string + 's client) \<Rightarrow>
     (string \<Rightarrow> Adapter option) \<Rightarrow> config_error + Config \<Rightarrow> 's \<Rightarrow>
     start_error + 's session_backend \<times> Router \<times> Registry" where
  "assemble order url connect av loaded s =
     (case loaded of
        Inl err \<Rightarrow> Inl (ConfigError err)
      | Inr cfg \<Rightarrow>
          (case fst (newSessionStore connect cfg s) of
             Inl err \<Rightarrow> Inl (StoreError err)
           | Inr store \<Rightarrow>
               (case NewRouter url order (cf_Tenants cfg) of
                  Inl err \<Rightarrow> Inl (RouterError err)
                | Inr router \<Rightarrow>
                    (case newRegistry order av cfg of
                       Inl err \<Rightarrow> Inl (RegistryError err)
                     | Inr reg \<Rightarrow> Inr (store, router, reg)))))"

section \<open>Every mounted adapter is guarded\<close>

text \<open>An adapter that is registered for a configuration: its base, behind an allowlist if it needs one.\<close>

definition guarded_by :: "(string \<Rightarrow> Adapter option) \<Rightarrow> (string, AdapterConfig) mapping \<Rightarrow> string \<Rightarrow> Adapter \<Rightarrow> bool" where
  "guarded_by av adapters n a \<longleftrightarrow>
     (\<exists>ac base. Mapping.lookup adapters n = Some ac \<and> ac_Enabled ac \<and> av n = Some base \<and> guard n ac base = Inr a)"

lemma guard_Name: "guard n ac base = Inr a \<Longrightarrow> ad_Name a = ad_Name base"
  by (auto simp: guard_def TrustedProxy_Adapter_def split: if_splits sum.splits)

lemma available_Name: "available decode encode n = Some base \<Longrightarrow> ad_Name base = n"
  by (auto simp: available_def AT_Adapter_def Simulator_Adapter_def split: if_splits)

lemma newRegistry_loop_guarded:
  assumes "newRegistry_loop av adapters names reg = Inr reg'" "\<And>n base. av n = Some base \<Longrightarrow> ad_Name base = n"
    "\<And>n a. Lookup reg n = Some a \<Longrightarrow> guarded_by av adapters n a"
  shows "Lookup reg' n = Some a \<Longrightarrow> guarded_by av adapters n a"
  using assms(1,3)
proof (induction names arbitrary: reg)
  case (Cons m names)
  show ?case
  proof (cases "\<exists>ac. Mapping.lookup adapters m = Some ac \<and> ac_Enabled ac")
    case False
    then have "newRegistry_loop av adapters names reg = Inr reg'"
      using Cons.prems(2) by (auto split: option.splits if_splits)
    then show ?thesis using Cons.IH Cons.prems by blast
  next
    case True
    then obtain ac where ac: "Mapping.lookup adapters m = Some ac" "ac_Enabled ac" by blast
    with Cons.prems(2) obtain base guarded reg1 where
      base: "av m = Some base" "guard m ac base = Inr guarded" "Register (Some guarded) reg = (None, reg1)"
        "newRegistry_loop av adapters names reg1 = Inr reg'"
      by (auto split: option.splits sum.splits prod.splits)
    have name: "ad_Name guarded = m" using guard_Name [OF base(2)] assms(2) [OF base(1)] by simp
    have "guarded_by av adapters m guarded" using ac base by (auto simp: guarded_by_def)
    moreover have "Lookup reg1 k = (if k = m then Some guarded else Lookup reg k)" for k
      using Lookup_Register [of "Some guarded" reg k] base(3) name by auto
    ultimately have "Lookup reg1 k = Some b \<Longrightarrow> guarded_by av adapters k b" for k b
      using Cons.prems(3) by (auto split: if_splits)
    then show ?thesis using Cons.IH [OF Cons.prems(1) base(4)] by blast
  qed
qed simp

lemma newRegistry_guarded:
  assumes "newRegistry order (available decode encode) cfg = Inr reg" "Lookup reg n = Some a"
  shows "guarded_by (available decode encode) (cf_Adapters cfg) n a"
  using newRegistry_loop_guarded [OF assms(1) [unfolded newRegistry_def] available_Name _ assms(2)]
  by (simp add: Lookup_def NewRegistry_def)

text \<open>An adapter whose network authenticates nothing is only ever mounted behind its allowlist.\<close>

lemma guarded_allowlist:
  assumes "guarded_by av adapters n a" "av n = Some base" "NeedsAllowlist base"
  obtains ac allowed forwarders where "Mapping.lookup adapters n = Some ac" "ac_Enabled ac" "ac_AllowedSources ac \<noteq> []"
    "ParsePrefixes (ac_AllowedSources ac) = Inr allowed" "ParsePrefixes (ac_TrustedForwarders ac) = Inr forwarders"
    "a = TrustedProxy_Adapter \<lparr>tp_Adapter = base, tp_Allowed = allowed, tp_Forwarders = forwarders\<rparr>"
  using assms by (auto simp: guarded_by_def guard_def split: if_splits sum.splits)

text \<open>A guard changes only who is believed.\<close>

lemma guard_methods: "guard n ac base = Inr a \<Longrightarrow> ad_Parse a = ad_Parse base \<and> ad_Render a = ad_Render base"
  by (auto simp: guard_def TrustedProxy_Adapter_def split: if_splits sum.splits)

lemma guarded_methods:
  assumes "guarded_by (available decode encode) adapters n a"
  shows "n = AT_Name \<and> ad_Parse a = AT_Parse \<and> ad_Render a = AT_Render \<or>
    n = Simulator_Name \<and> ad_Parse a = Simulator_Parse decode \<and> ad_Render a = Simulator_Render encode"
  using assms guard_methods
  by (auto simp: guarded_by_def available_def AT_Adapter_def Simulator_Adapter_def split: if_splits)

section \<open>What the endpoint asks of an adapter\<close>

context telco_adapter
begin

text \<open>A callback that is believed and understood is always answered with a screen.\<close>

lemma served_status:
  assumes "ad_Parse a = parse" "ad_Render a = render" "ad_Verify a r = None" "parse (at_Load i) r = Inr ev"
  shows "hw_Status (fst (ServeHTTP a store router d i reqID r s)) = Some 200"
proof -
  have "hw_Status (snd (render (rendered (fst (handle store router d i ev s)))
      (set_header HeaderRequestID reqID new_writer))) = Some 200"
    by (rule render_fits) (simp_all add: rendered_fits)
  then show ?thesis using assms by (simp add: ServeHTTP_parsed)
qed

text \<open>And every event that reaches the sessions is well formed and carries the adapter's name.\<close>

lemma served_event:
  assumes "ad_Parse a = parse" "ad_Verify a r = None" "ServeHTTP a store router d i reqID r s = (w, s', ex)"
    "s' \<noteq> s \<or> ex \<noteq> None"
  obtains ev where "parse (at_Load i) r = Inr ev" "wf_event ev" "ev_MNO ev = adapter_name"
proof (cases "parse (at_Load i) r")
  case (Inl err)
  then show thesis using assms ServeHTTP_unparsed [of a r i err store router d reqID s] by simp
next
  case (Inr ev)
  then show thesis using that parse_valid parse_name by blast
qed

end

text \<open>What reaches the sessions through any guarded adapter is a well-formed event, and is answered.\<close>

lemma guarded_served:
  assumes "guarded_by (available decode encode) adapters n a"
    "ServeHTTP a store router d i reqID r s = (w, s', ex)" "s' \<noteq> s \<or> ex \<noteq> None"
  shows "\<exists>ev. ad_Parse a (at_Load i) r = Inr ev \<and> wf_event ev \<and> ev_MNO ev = n \<and> hw_Status w = Some 200"
proof -
  have verified: "ad_Verify a r = None"
    using assms(2,3) ServeHTTP_rejected [of a r store router d i reqID s] by fastforce
  from guarded_methods [OF assms(1)] show ?thesis
  proof (elim disjE conjE)
    assume a: "n = AT_Name" "ad_Parse a = AT_Parse" "ad_Render a = AT_Render"
    from africastalking.served_event [OF a(2) verified assms(2,3)] obtain ev where
      "AT_Parse (at_Load i) r = Inr ev" "wf_event ev" "ev_MNO ev = AT_Name" .
    then show ?thesis
      using a africastalking.served_status [OF a(2,3) verified] assms(2) by (metis fst_conv)
  next
    assume a: "n = Simulator_Name" "ad_Parse a = Simulator_Parse decode" "ad_Render a = Simulator_Render encode"
    from simulator.served_event [OF a(2) verified assms(2,3)] obtain ev where
      "Simulator_Parse decode (at_Load i) r = Inr ev" "wf_event ev" "ev_MNO ev = Simulator_Name" .
    then show ?thesis
      using a simulator.served_status [OF a(2,3) verified] assms(2) by (metis fst_conv)
  qed
qed

lemma mounted_Lookup: "mounted order reg path = Some a \<Longrightarrow> \<exists>n. path = ''/ussd/'' @ n \<and> Lookup reg n = Some a"
  by (auto simp: mounted_def filter_eq_Cons_iff split: list.splits)

lemma available_AT: "available decode encode AT_Name = Some AT_Adapter"
  by (simp add: available_def)

lemma AT_needs_allowlist: "NeedsAllowlist AT_Adapter"
  by (simp add: NeedsAllowlist_def AT_Adapter_def)

lemma assemble_Inr:
  assumes "assemble order url connect av loaded s = Inr (store, router, reg)"
  obtains cfg where "loaded = Inr cfg" "fst (newSessionStore connect cfg s) = Inr store"
    "NewRouter url order (cf_Tenants cfg) = Inr router" "newRegistry order av cfg = Inr reg"
  using assms by (auto simp: assemble_def split: sum.splits)

lemma newSessionStore_memory:
  "sc_Backend (cf_Session cfg) \<noteq> ''redis'' \<Longrightarrow>
   newSessionStore connect cfg s = (Inr (MemoryBackend (NewMemory [WithTTL (sc_TTL (cf_Session cfg))])), s)"
  by (simp add: newSessionStore_def)

end
