(* ===== verification/Gateway_Process.thy ===== *)
theory Gateway_Process
  imports Gateway_Main
begin

text \<open>
  \<^verbatim>\<open>run\<close> of \<^verbatim>\<open>gateway/cmd/gateway/main.go\<close>: the handler of the whole process, and the process from its
  configuration to its end.  What happens while it listens is an argument: how the requests leave the
  store, and whether listening failed or a signal came and how the shutdown went.
\<close>

section \<open>The handler of the process\<close>

text \<open>
  The paths are exact patterns of \<^verbatim>\<open>http.ServeMux\<close>.  A path that is not in its shortest form never arrives
  here: the multiplexer redirects it first.
\<close>

definition gateway_ServeHTTP ::
    "(string set \<Rightarrow> string list) \<Rightarrow> (ready_report \<Rightarrow> string) \<Rightarrow> Registry \<Rightarrow> 's Store \<Rightarrow> Router \<Rightarrow> Dispatcher \<Rightarrow>
     instants \<Rightarrow> string \<Rightarrow> string \<Rightarrow> http_request \<Rightarrow> 's \<Rightarrow> http_writer \<times> 's \<times> exchange option" where
  "gateway_ServeHTTP order encode reg store router d i reqID path r s =
     (case mounted order reg path of
        Some a \<Rightarrow> ServeHTTP a store router d i reqID r s
      | None \<Rightarrow>
          if path = ''/healthz'' then (Health new_writer, s, None)
          else if path = ''/readyz'' then (Ready encode (Names order reg) (Tenants order router) new_writer, s, None)
          else (http_Error ''404 page not found'' 404 new_writer, s, None))"

section \<open>The process\<close>

datatype stop = ListenFailed string | ShutDown "string option"

datatype run_failure = StartFailed start_error | ServingFailed string | ShutdownFailed string

definition stopped :: "stop \<Rightarrow> run_failure option" where
  "stopped st =
     (case st of ListenFailed err \<Rightarrow> Some (ServingFailed err) | ShutDown res \<Rightarrow> map_option ShutdownFailed res)"

definition backend_Close :: "'s session_backend \<Rightarrow> 's \<Rightarrow> 's session_backend \<times> 's" where
  "backend_Close store s =
     (case store of
        MemoryBackend m \<Rightarrow> (MemoryBackend (Memory_Close m), s)
      | RedisBackend r \<Rightarrow> (RedisBackend r, snd (Redis_Close r s)))"

text \<open>Once the store is open, however the rest ends: the deferred call closes it.\<close>

definition main_open ::
    "(string set \<Rightarrow> string list) \<Rightarrow> (string \<Rightarrow> string + string) \<Rightarrow> (string \<Rightarrow> Adapter option) \<Rightarrow>
     (Config \<Rightarrow> 's session_backend \<Rightarrow> Router \<Rightarrow> Registry \<Rightarrow> 's \<Rightarrow> stop \<times> 's session_backend \<times> 's) \<Rightarrow>
     Config \<Rightarrow> 's session_backend \<Rightarrow> 's \<Rightarrow> run_failure option \<times> 's session_backend \<times> 's" where
  "main_open order url av serve cfg store s =
     (case NewRouter url order (cf_Tenants cfg) of
        Inl err \<Rightarrow> (Some (StartFailed (RouterError err)), store, s)
      | Inr router \<Rightarrow>
          (case newRegistry order av cfg of
             Inl err \<Rightarrow> (Some (StartFailed (RegistryError err)), store, s)
           | Inr reg \<Rightarrow> (case serve cfg store router reg s of (st, store', s') \<Rightarrow> (stopped st, store', s'))))"

definition main_run ::
    "(string set \<Rightarrow> string list) \<Rightarrow> (string \<Rightarrow> string + string) \<Rightarrow> (string \<Rightarrow> string + 's client) \<Rightarrow>
     (string \<Rightarrow> Adapter option) \<Rightarrow>
     (Config \<Rightarrow> 's session_backend \<Rightarrow> Router \<Rightarrow> Registry \<Rightarrow> 's \<Rightarrow> stop \<times> 's session_backend \<times> 's) \<Rightarrow>
     config_error + Config \<Rightarrow> 's \<Rightarrow> run_failure option \<times> 's session_backend option \<times> 's" where
  "main_run order url connect av serve loaded s =
     (case loaded of
        Inl err \<Rightarrow> (Some (StartFailed (ConfigError err)), None, s)
      | Inr cfg \<Rightarrow>
          (case newSessionStore connect cfg s of
             (Inl err, s') \<Rightarrow> (Some (StartFailed (StoreError err)), None, s')
           | (Inr store, s') \<Rightarrow>
               (case main_open order url av serve cfg store s' of
                  (result, store', s'') \<Rightarrow>
                    (case backend_Close store' s'' of (closed, t) \<Rightarrow> (result, Some closed, t)))))"

section \<open>What requests can do\<close>

lemma mounted_prefix: "mounted order reg path = Some a \<Longrightarrow> path \<noteq> ''/healthz'' \<and> path \<noteq> ''/readyz''"
  by (auto dest: mounted_Lookup)

text \<open>A request that changes the sessions or calls a tenant came to an endpoint, as a well-formed event.\<close>

lemma gateway_served:
  assumes "newRegistry order (available decode encode) cfg = Inr reg"
    "gateway_ServeHTTP order report reg store router d i reqID path r s = (w, s', ex)" "s' \<noteq> s \<or> ex \<noteq> None"
  shows "\<exists>a ev. mounted order reg path = Some a \<and> ad_Verify a r = None \<and> ad_Parse a (at_Load i) r = Inr ev \<and> wf_event ev \<and>
    path = ''/ussd/'' @ ev_MNO ev \<and> hw_Status w = Some 200"
proof (cases "mounted order reg path")
  case None
  then show ?thesis using assms(2,3) by (auto simp: gateway_ServeHTTP_def split: if_splits)
next
  case (Some a)
  then have serve: "ServeHTTP a store router d i reqID r s = (w, s', ex)" using assms(2) by (simp add: gateway_ServeHTTP_def)
  from mounted_Lookup [OF Some] obtain n where n: "path = ''/ussd/'' @ n" "Lookup reg n = Some a" by blast
  from guarded_served [OF newRegistry_guarded [OF assms(1) n(2)] serve assms(3)] obtain ev where
    "ad_Parse a (at_Load i) r = Inr ev" "wf_event ev" "ev_MNO ev = n" "hw_Status w = Some 200" by blast
  moreover have "ad_Verify a r = None"
    using serve assms(3) ServeHTTP_rejected [of a r store router d i reqID s] by fastforce
  ultimately show ?thesis using n(1) Some by blast
qed

section \<open>What a start comes to\<close>

text \<open>The process fails to start as \<open>assemble\<close> says, and otherwise ends as the listening ended.\<close>

lemma main_run_result:
  "fst (main_run order url connect av serve loaded s) =
     (case assemble order url connect av loaded s of
        Inl err \<Rightarrow> Some (StartFailed err)
      | Inr (store, router, reg) \<Rightarrow>
          (case loaded of
             Inl err \<Rightarrow> None
           | Inr cfg \<Rightarrow> stopped (fst (serve cfg store router reg (snd (newSessionStore connect cfg s))))))"
  by (simp add: main_run_def main_open_def assemble_def case_prod_beta split: sum.split)

text \<open>While it listens, the process keeps the store it opened: the same Redis client, or its own memory.\<close>

definition same_store :: "'s session_backend \<Rightarrow> 's session_backend \<Rightarrow> bool" where
  "same_store store store' \<longleftrightarrow>
     (case store of
        MemoryBackend _ \<Rightarrow> (\<exists>m. store' = MemoryBackend m)
      | RedisBackend r \<Rightarrow> store' = RedisBackend r)"

lemma same_store_refl: "same_store store store"
  by (simp add: same_store_def split: session_backend.split)

lemma main_open_store:
  assumes "\<And>router reg s. same_store store (fst (snd (serve cfg store router reg s)))"
  shows "same_store store (fst (snd (main_open order url av serve cfg store s)))"
  using assms same_store_refl [of store] by (simp add: main_open_def case_prod_beta split: sum.split)

text \<open>A store that was opened for Redis owns its client.\<close>

lemma newSessionStore_owned:
  "newSessionStore connect cfg s = (Inr (RedisBackend r), s') \<Longrightarrow> rd_owned r"
  by (auto simp: newSessionStore_def dest: NewRedis_Inr split: if_splits prod.splits sum.splits)

text \<open>The client a start opens: the one the configured address names, if Redis is configured and it parses.\<close>

definition started_client :: "(string \<Rightarrow> string + 's client) \<Rightarrow> config_error + Config \<Rightarrow> 's client option" where
  "started_client connect loaded =
     (case loaded of
        Inl _ \<Rightarrow> None
      | Inr cfg \<Rightarrow>
          if sc_Backend (cf_Session cfg) = ''redis''
          then (case connect (sc_RedisURL (cf_Session cfg)) of Inl _ \<Rightarrow> None | Inr c \<Rightarrow> Some c)
          else None)"

text \<open>It is closed when the server does not answer; and otherwise it is the client of the store.\<close>

lemma newSessionStore_client:
  "newSessionStore connect cfg s = (Inl err, s') \<Longrightarrow>
     s' = (case started_client connect (Inr cfg) of None \<Rightarrow> s | Some c \<Rightarrow> snd (rc_Close c s))"
  "newSessionStore connect cfg s = (Inr (RedisBackend r), s') \<Longrightarrow> started_client connect (Inr cfg) = Some (rd_client r)"
  "newSessionStore connect cfg s = (Inr (MemoryBackend m), s') \<Longrightarrow> started_client connect (Inr cfg) = None"
  by (auto simp: newSessionStore_def NewRedis_def Redis_Close_def started_client_def Let_def
      split: if_splits sum.splits option.splits prod.splits)

text \<open>The connection or the sweeper of a store, given up: of the client that was opened, or of no client.\<close>

definition released :: "'s client option \<Rightarrow> 's session_backend \<Rightarrow> 's \<Rightarrow> bool" where
  "released opened store s \<longleftrightarrow>
     (case store of
        MemoryBackend m \<Rightarrow> opened = None \<and> mem_stopped m
      | RedisBackend r \<Rightarrow> opened = Some (rd_client r) \<and> (\<exists>s0. s = snd (rc_Close (rd_client r) s0)))"

lemma main_run_releases:
  assumes "\<And>cfg store router reg s. same_store store (fst (snd (serve cfg store router reg s)))"
    "main_run order url connect av serve loaded s = (result, Some store, s')"
  shows "released (started_client connect loaded) store s'"
proof -
  obtain cfg opened s1 where opened: "newSessionStore connect cfg s = (Inr opened, s1)" and loaded: "loaded = Inr cfg"
    and closed: "(Some store, s') = (case main_open order url av serve cfg opened s1 of
      (result, store', s'') \<Rightarrow> (case backend_Close store' s'' of (closed, t) \<Rightarrow> (Some closed, t)))"
    using assms(2) by (auto simp: main_run_def split: sum.splits prod.splits)
  obtain result' store' s'' where end_of: "main_open order url av serve cfg opened s1 = (result', store', s'')" by (rule prod_cases3)
  have kept: "same_store opened store'" using main_open_store [of opened serve cfg order url av s1] assms(1) end_of by simp
  have "backend_Close store' s'' = (store, s')" using closed end_of by (simp split: prod.splits)
  then show ?thesis
    using kept opened newSessionStore_owned [of connect cfg s] newSessionStore_client(2,3) [of connect cfg s]
    by (cases opened) (auto simp: loaded released_def same_store_def backend_Close_def Memory_Close_def Redis_Close_def)
qed

lemma main_run_unopened:
  assumes "main_run order url connect av serve loaded s = (result, None, s')"
  shows "(\<exists>err. result = Some (StartFailed err)) \<and>
    s' = (case started_client connect loaded of None \<Rightarrow> s | Some c \<Rightarrow> snd (rc_Close c s))"
proof (cases loaded)
  case (Inl err)
  then show ?thesis using assms by (auto simp: main_run_def started_client_def)
next
  case (Inr cfg)
  then obtain err where "newSessionStore connect cfg s = (Inl err, s')" "result = Some (StartFailed (StoreError err))"
    using assms by (auto simp: main_run_def split: sum.splits prod.splits)
  with newSessionStore_client(1) [of connect cfg s err s'] Inr show ?thesis by simp
qed

end
