(* ===== verification/Session_Replicas.thy ===== *)
theory Session_Replicas
  imports Inbound_Concurrent Session_Redis Go_Valid
begin

text \<open>
  Several replicas of the gateway over one Redis server.  Their turns are interleaved turns on one store,
  and the server keeps the weaker contract of a store, so the isolation of tenants holds across replicas.
\<close>

section \<open>What is relied on\<close>

text \<open>
  A command that fails may or may not have been carried out; in no case is a value read that was not
  written under that key.
\<close>

definition redis_safe :: "'s client \<Rightarrow> bool" where
  "redis_safe c \<longleftrightarrow>
     (\<forall>now k v ttl s t k' x. rc_Get c t k' (snd (rc_Set c now k v ttl s)) = Inr x \<longrightarrow>
        rc_Get c t k' s = Inr x \<or> k' = k \<and> x = v) \<and>
     (\<forall>k s t k' x. rc_Get c t k' (snd (rc_Del c k s)) = Inr x \<longrightarrow> rc_Get c t k' s = Inr x)"

text \<open>
  What \<^verbatim>\<open>encoding/json\<close> documents: bytes of a string that are no UTF-8 come back as U+FFFD, and the encoding of a
  state may be another one of the same value, which \<open>norm\<close> does not tell apart.
\<close>

definition codec_reads_back :: "session_codec \<Rightarrow> (string \<Rightarrow> string) \<Rightarrow> bool" where
  "codec_reads_back j norm \<longleftrightarrow>
     (\<forall>x raw y. sj_Marshal j x = Inr raw \<longrightarrow> sj_Unmarshal j raw = Inr y \<longrightarrow> reads_back utf8_coerced norm x y)"

definition redis_store :: "session_codec \<Rightarrow> 's Redis \<Rightarrow> 's Store" where
  "redis_store j r = store_of (Redis_Load j r) (Redis_Save j r) (Redis_Delete r)"

section \<open>Redis keeps the weaker contract\<close>

lemma Redis_Load_Inr:
  "Redis_Load j r t k s = Inr y \<longleftrightarrow> Key_Validate k = None \<and>
     (\<exists>raw. rc_Get (rd_client r) t (redisKeyPrefix @ Key_String k) s = Inr raw \<and> sj_Unmarshal j raw = Inr y)"
  by (auto simp: Redis_Load_def split: option.splits sum.splits redis_error.splits)

lemma Redis_Save_state:
  obtains (kept) "snd (Redis_Save j r now x s) = s"
  | (sent) raw where "Key_Validate (se_Key x) = None" "sj_Marshal j (stamp now x) = Inr raw"
      "snd (Redis_Save j r now x s) = snd (rc_Set (rd_client r) now (redisKeyPrefix @ Key_String (se_Key x)) raw (rd_ttl r) s)"
proof (cases "Key_Validate (se_Key x)")
  case None
  show thesis
  proof (cases "sj_Marshal j (stamp now x)")
    case (Inl err)
    then show thesis using kept None by (simp add: Redis_Save_def)
  next
    case (Inr raw)
    then show thesis using sent None by (simp add: Redis_Save_def split: prod.splits option.splits)
  qed
qed (use kept in \<open>simp add: Redis_Save_def\<close>)

lemma Redis_Delete_state:
  "snd (Redis_Delete r k s) = snd (rc_Del (rd_client r) (redisKeyPrefix @ Key_String k) s)"
  by (simp add: Redis_Delete_def split: prod.splits option.splits)

lemma redis_history:
  assumes safe: "redis_safe (rd_client r)" and codec: "codec_reads_back j norm"
  shows "session_history (Redis_Load j r) (Redis_Save j r) (Redis_Delete r) utf8_coerced norm"
proof unfold_locales
  fix t now :: time and k k' :: Key and s and x y :: Session
  show "Redis_Load j r t k s = Inr y \<Longrightarrow> Key_Validate k = None" by (simp add: Redis_Load_Inr)
  show "Redis_Load j r t k s = Inr y" if "Redis_Load j r t k (snd (Redis_Delete r k' s)) = Inr y"
    using that safe unfolding Redis_Delete_state Redis_Load_Inr redis_safe_def by blast
  show "Redis_Load j r t k s = Inr y \<or>
      reads_back utf8_coerced norm x y \<and> Key_String k = Key_String (se_Key x) \<and> Key_Validate (se_Key x) = None"
    if loads: "Redis_Load j r t k (snd (Redis_Save j r now x s)) = Inr y"
  proof (cases rule: Redis_Save_state [of j r now x s])
    case kept
    then show ?thesis using loads by simp
  next
    case (sent raw)
    from loads obtain raw' where k: "Key_Validate k = None" and
      got: "rc_Get (rd_client r) t (redisKeyPrefix @ Key_String k) (snd (Redis_Save j r now x s)) = Inr raw'"
        "sj_Unmarshal j raw' = Inr y"
      by (auto simp: Redis_Load_Inr)
    from got(1) safe sent(3) consider "rc_Get (rd_client r) t (redisKeyPrefix @ Key_String k) s = Inr raw'"
      | "redisKeyPrefix @ Key_String k = redisKeyPrefix @ Key_String (se_Key x)" "raw' = raw"
      unfolding redis_safe_def by metis
    then show ?thesis
    proof cases
      case 1
      then show ?thesis using k got(2) by (simp add: Redis_Load_Inr)
    next
      case 2
      then have "reads_back utf8_coerced norm (stamp now x) y" using codec sent(2) got(2) by (auto simp: codec_reads_back_def)
      then show ?thesis using 2(1) sent(1) by (simp add: reads_back_def)
    qed
  qed
qed (use utf8_coerced_key in simp_all)

section \<open>Isolation\<close>

context session_history
begin

lemma interleaved_given:
  assumes "\<And>t k x. load t k s0 \<noteq> Inr x" "named_routes router"
    "interleaved alternating (store_of load save delete) router s0 w"
    "n < length (wd_Log w)" "rq_State (ex_Request (snd (wd_Log w ! n))) = Some st"
  shows "\<exists>k < n. \<exists>key msisdn tenant st0. kept (wd_Log w ! k) = Some (key, msisdn, tenant, st0) \<and>
    enc key = enc (Key_String (event_key (fst (wd_Log w ! n)))) \<and> enc msisdn = enc (ev_MSISDN (fst (wd_Log w ! n))) \<and>
    enc tenant = enc (tn_Name (ex_Tenant (snd (wd_Log w ! n)))) \<and> norm st0 = norm st"
proof -
  have "session_inv {} s0" using assms(1) by (simp add: session_inv_def)
  then have "isolated (wd_Log w)" using interleaved_isolated [OF assms(3) _ assms(2)] by blast
  then have "(enc (Key_String (event_key (fst (wd_Log w ! n)))), enc (ev_MSISDN (fst (wd_Log w ! n))),
      enc (tn_Name (ex_Tenant (snd (wd_Log w ! n)))), norm st) \<in> kept_by (take n (wd_Log w))"
    using assms(4,5) by (simp add: isolated_def)
  then obtain k where "k < n" "kept_norm enc norm (wd_Log w ! k) = Some (enc (Key_String (event_key (fst (wd_Log w ! n)))),
      enc (ev_MSISDN (fst (wd_Log w ! n))), enc (tn_Name (ex_Tenant (snd (wd_Log w ! n)))), norm st)"
    by (auto simp: kept_by_def in_set_conv_nth image_iff)
  then show ?thesis by (auto simp: kept_norm_Some)
qed

end

text \<open>Valid strings are told apart, and so are the tenants, whose names are valid.\<close>

lemma valid_coerced_inject: "valid_utf8 s \<Longrightarrow> valid_utf8 t \<Longrightarrow> utf8_coerced s = utf8_coerced t \<longleftrightarrow> s = t"
  by (simp add: valid_utf8_def)

lemma redis_isolated:
  assumes "redis_safe (rd_client r)" "codec_reads_back j norm" "\<And>t k x. Redis_Load j r t k s0 \<noteq> Inr x" "named_routes router"
    "\<And>t. routes_to router t \<Longrightarrow> valid_utf8 (tn_Name t)"
    "interleaved alternating (redis_store j r) router s0 w"
    "n < length (wd_Log w)" "rq_State (ex_Request (snd (wd_Log w ! n))) = Some st"
  shows "\<exists>k < n. \<exists>key msisdn st0.
    kept (wd_Log w ! k) = Some (key, msisdn, tn_Name (ex_Tenant (snd (wd_Log w ! n))), st0) \<and>
    utf8_coerced key = utf8_coerced (Key_String (event_key (fst (wd_Log w ! n)))) \<and>
    utf8_coerced msisdn = utf8_coerced (ev_MSISDN (fst (wd_Log w ! n))) \<and> norm st0 = norm st"
proof -
  from session_history.interleaved_given [OF redis_history [OF assms(1,2)] assms(3,4) assms(6) [unfolded redis_store_def] assms(7,8)]
  obtain k key msisdn tenant st0 where k: "k < n" "kept (wd_Log w ! k) = Some (key, msisdn, tenant, st0)"
    "utf8_coerced key = utf8_coerced (Key_String (event_key (fst (wd_Log w ! n))))"
    "utf8_coerced msisdn = utf8_coerced (ev_MSISDN (fst (wd_Log w ! n)))"
    "utf8_coerced tenant = utf8_coerced (tn_Name (ex_Tenant (snd (wd_Log w ! n))))" "norm st0 = norm st" by blast
  have routed: "valid_utf8 (tn_Name (ex_Tenant (snd (wd_Log w ! m))))" if "m < length (wd_Log w)" for m
    using interleaved_routed [OF assms(6)] assms(5) that by (auto simp: list_all_length)
  have "tenant = tn_Name (ex_Tenant (snd (wd_Log w ! k)))"
    using k(2) by (auto simp: kept_def split: sum.splits option.splits)
  then have "tenant = tn_Name (ex_Tenant (snd (wd_Log w ! n)))"
    using k(1,5) routed [of k] routed [of n] assms(7) by (simp add: valid_coerced_inject)
  with k show ?thesis by blast
qed

end
