(* ===== verification/Session_Agreement.thy ===== *)
theory Session_Agreement
  imports Session_Replicas
begin

text \<open>
  The two stores are interchangeable.  While the Redis server is reachable and the codec loses nothing of the
  sessions it is given, a gateway on Redis answers every history of turns as one on the in-process store:
  the same requests to the tenants, the same results.
\<close>

section \<open>What is compared\<close>

text \<open>What a history of turns gives the networks.\<close>

fun run_answers ::
    "'s Store \<Rightarrow> Router \<Rightarrow> (instants \<times> Dispatcher \<times> Event) list \<Rightarrow> 's \<Rightarrow> (handle_error + Response) list" where
  "run_answers store router [] s = []"
| "run_answers store router ((i, d, ev) # turns) s =
     (case handle store router d i ev s of (result, s', _) \<Rightarrow> result # run_answers store router turns s')"

definition redis_up :: "'s client \<Rightarrow> bool" where
  "redis_up c \<longleftrightarrow>
     (\<forall>now k v ttl s. fst (rc_Set c now k v ttl s) = None) \<and> (\<forall>k s. fst (rc_Del c k s) = None)"

definition written_exactly :: "session_codec \<Rightarrow> Session \<Rightarrow> bool" where
  "written_exactly j x \<longleftrightarrow> (\<exists>raw. sj_Marshal j x = Inr raw \<and> sj_Unmarshal j raw = Inr x)"

text \<open>Two stores agree when every load gives the same, at any instant.\<close>

definition agrees :: "session_codec \<Rightarrow> 's Redis \<Rightarrow> 's \<Rightarrow> Memory \<Rightarrow> bool" where
  "agrees j r s m \<longleftrightarrow> (\<forall>t k. Redis_Load j r t k s = Memory_Load t k m)"

lemma agreesD: "agrees j r s m \<Longrightarrow> Redis_Load j r t k s = Memory_Load t k m"
  by (simp add: agrees_def)

lemma agrees_empty:
  assumes "\<And>t k. rc_Get (rd_client r) t k s = Inl RedisNil"
  shows "agrees j r s (NewMemory opts)"
proof -
  have "mem_items (NewMemory_options m opts) = Mapping.empty" if "mem_items m = Mapping.empty" for m
    using that by (induction m opts rule: NewMemory_options.induct) simp_all
  then have "mem_items (NewMemory opts) = Mapping.empty" by (simp add: NewMemory_def)
  then show ?thesis
    using assms by (simp add: agrees_def Redis_Load_def Memory_Load_def split: option.split)
qed

section \<open>One operation, and one turn\<close>

lemma agrees_delete:
  assumes "agrees j r s m" "redis_laws (rd_client r)" "redis_up (rd_client r)"
  shows "agrees j r (snd (Redis_Delete r k s)) (snd (Memory_Delete k m))"
proof -
  have "fst (Redis_Delete r k s) = None"
    using assms(3) by (simp add: redis_up_def Redis_Delete_def split: prod.split option.split) (metis fst_conv option.distinct(1))
  then obtain s' where del: "Redis_Delete r k s = (None, s')" by (metis prod.collapse)
  obtain m' where mdel: "Memory_Delete k m = (None, m')" by (simp add: Memory_Delete_def)
  have "Redis_Load j r t l s' = Memory_Load t l m'" for t l
  proof (cases "Key_Validate l")
    case None
    then show ?thesis
      using Redis_load_delete [OF assms(2) del None] memory.load_delete [OF mdel None] agreesD [OF assms(1)] by simp
  next
    case (Some e)
    then show ?thesis by (simp add: Redis_Load_invalid memory.load_invalid)
  qed
  then show ?thesis by (simp add: del mdel agrees_def)
qed

lemma agrees_save:
  assumes "agrees j r s m" "redis_laws (rd_client r)" "redis_up (rd_client r)" "rd_ttl r = mem_ttl m" "0 < mem_ttl m"
    and exact: "\<And>t k y. Memory_Load t k (snd (Memory_Save now x m)) = Inr y \<Longrightarrow> written_exactly j y"
  shows "fst (Redis_Save j r now x s) = fst (Memory_Save now x m) \<and>
    agrees j r (snd (Redis_Save j r now x s)) (snd (Memory_Save now x m))"
proof (cases "Key_Validate (se_Key x)")
  case (Some e)
  then show ?thesis using assms(1) by (simp add: Redis_Save_def Memory_Save_def)
next
  case None
  obtain m' where msave: "Memory_Save now x m = (None, m')" using None by (simp add: Memory_Save_def)
  have "Memory_Load now (se_Key x) m' = Inr (stamp now x)"
    using memory.load_save [OF msave None, of now] assms(5) by simp
  then have written: "written_exactly j (stamp now x)" using exact msave by fastforce
  then obtain raw where raw: "sj_Marshal j (stamp now x) = Inr raw" "sj_Unmarshal j raw = Inr (stamp now x)"
    by (auto simp: written_exactly_def)
  obtain s' where "rc_Set (rd_client r) now (redisKeyPrefix @ Key_String (se_Key x)) raw (rd_ttl r) s = (None, s')"
    using assms(3) unfolding redis_up_def by (metis prod.collapse)
  then have save: "Redis_Save j r now x s = (None, s')" using None raw by (simp add: Redis_Save_def)
  have "Redis_Load j r t k s' = Memory_Load t k m'" for t k
  proof (cases "Key_Validate k")
    case None
    have "Redis_Load j r t k s' = (if Key_String k = Key_String (se_Key x)
        then if t < now + rd_ttl r then Inr (stamp now x) else Inl NotFound else Redis_Load j r t k s)"
      by (rule Redis_load_save [OF assms(2) _ save None]) (use assms(4,5) raw in auto)
    then show ?thesis using memory.load_save [OF msave None, of t] agreesD [OF assms(1)] assms(4) by simp
  next
    case (Some e)
    then show ?thesis by (simp add: Redis_Load_invalid memory.load_invalid)
  qed
  then show ?thesis by (simp add: save msave agrees_def)
qed

text \<open>A turn over two stores that give it the same session, and keep what they have in common over its writes.\<close>

lemma handle_two_stores:
  assumes "load_session A (at_Load i) ev s = load_session B (at_Load i) ev u" "P s u"
    and save: "\<And>x. fst (snd (handle B router d i ev u)) = snd (st_Save B (at_Save i) x u) \<Longrightarrow>
      fst (st_Save A (at_Save i) x s) = fst (st_Save B (at_Save i) x u) \<and>
      P (snd (st_Save A (at_Save i) x s)) (snd (st_Save B (at_Save i) x u))"
    and delete: "P (snd (st_Delete A (event_key ev) s)) (snd (st_Delete B (event_key ev) u))"
  shows "fst (handle A router d i ev s) = fst (handle B router d i ev u) \<and>
    snd (snd (handle A router d i ev s)) = snd (snd (handle B router d i ev u)) \<and>
    P (fst (snd (handle A router d i ev s))) (fst (snd (handle B router d i ev u)))"
proof (cases rule: handle_cases [of ev B router d i u])
  case (unsaved target routed sess ex reply err u')
  then obtain s' where "st_Save A (at_Save i) (apply_reply reply sess) s = (Some err, s')" "P s' u'"
    using save [of "apply_reply reply sess"] by (metis fst_conv snd_conv prod.collapse)
  then show ?thesis using unsaved assms(1) by (simp add: handle_def Let_def)
next
  case (saved target routed sess ex reply u')
  then obtain s' where "st_Save A (at_Save i) (apply_reply reply sess) s = (None, s')" "P s' u'"
    using save [of "apply_reply reply sess"] by (metis fst_conv snd_conv prod.collapse)
  then show ?thesis using saved assms(1) by (simp add: handle_def Let_def)
qed (use assms(1,2) delete in \<open>simp_all add: handle_def Let_def\<close>)

lemma agrees_handle:
  assumes "agrees j r s m" "redis_laws (rd_client r)" "redis_up (rd_client r)" "rd_ttl r = mem_ttl m" "0 < mem_ttl m"
    and exact: "\<And>t k y. Memory_Load t k (fst (snd (handle memory_store router d i ev m))) = Inr y \<Longrightarrow> written_exactly j y"
  shows "fst (handle (redis_store j r) router d i ev s) = fst (handle memory_store router d i ev m) \<and>
    snd (snd (handle (redis_store j r) router d i ev s)) = snd (snd (handle memory_store router d i ev m)) \<and>
    agrees j r (fst (snd (handle (redis_store j r) router d i ev s))) (fst (snd (handle memory_store router d i ev m)))"
proof (rule handle_two_stores)
  show "load_session (redis_store j r) (at_Load i) ev s = load_session memory_store (at_Load i) ev m"
    using agreesD [OF assms(1)] by (simp add: load_session_def redis_store_def memory_store_def)
  show "agrees j r (snd (st_Delete (redis_store j r) (event_key ev) s)) (snd (st_Delete memory_store (event_key ev) m))"
    using agrees_delete [OF assms(1-3)] by (simp add: redis_store_def memory_store_def)
next
  fix x
  assume "fst (snd (handle memory_store router d i ev m)) = snd (st_Save memory_store (at_Save i) x m)"
  then have "written_exactly j y" if "Memory_Load t k (snd (Memory_Save (at_Save i) x m)) = Inr y" for t k y
    using exact that by (simp add: memory_store_def)
  from agrees_save [OF assms(1-5) this]
  show "fst (st_Save (redis_store j r) (at_Save i) x s) = fst (st_Save memory_store (at_Save i) x m) \<and>
      agrees j r (snd (st_Save (redis_store j r) (at_Save i) x s)) (snd (st_Save memory_store (at_Save i) x m))"
    by (simp add: redis_store_def memory_store_def)
qed (rule assms(1))

lemma handle_keeps_ttl: "mem_ttl (fst (snd (handle memory_store router d i ev m))) = mem_ttl m"
  by (cases rule: handle_cases [of ev memory_store router d i m])
    (auto simp: memory_store_def Memory_Save_def Memory_Delete_def split: option.splits)

section \<open>Histories\<close>

lemma agrees_run:
  assumes "agrees j r s m" "redis_laws (rd_client r)" "redis_up (rd_client r)" "rd_ttl r = mem_ttl m" "0 < mem_ttl m"
    and "\<And>n t k y. Memory_Load t k (snd (handle_run memory_store router (take n turns) m)) = Inr y \<Longrightarrow> written_exactly j y"
  shows "run_answers (redis_store j r) router turns s = run_answers memory_store router turns m \<and>
    fst (handle_run (redis_store j r) router turns s) = fst (handle_run memory_store router turns m)"
  using assms(1,4-6)
proof (induction turns arbitrary: s m)
  case (Cons turn turns)
  obtain i d ev where turn: "turn = (i, d, ev)" by (cases turn) auto
  obtain result m' ex where mstep: "handle memory_store router d i ev m = (result, m', ex)" by (metis prod_cases3)
  have first: "snd (handle_run memory_store router (take (Suc n) (turn # turns)) m) =
      snd (handle_run memory_store router (take n turns) m')" for n
    by (simp add: turn mstep split: prod.split)
  have "written_exactly j y" if "Memory_Load t k m' = Inr y" for t k y
    using Cons.prems(4) [of t k "Suc 0"] first [of 0] that by simp
  from agrees_handle [OF Cons.prems(1) assms(2,3) Cons.prems(2,3), of router d i ev] this mstep
  obtain s' where rstep: "handle (redis_store j r) router d i ev s = (result, s', ex)" and "agrees j r s' m'"
    by (metis fst_conv snd_conv prod.collapse)
  moreover have "mem_ttl m' = mem_ttl m" using handle_keeps_ttl [of router d i ev m] mstep by simp
  moreover have "written_exactly j y" if "Memory_Load t k (snd (handle_run memory_store router (take n turns) m')) = Inr y" for n t k y
    using Cons.prems(4) [of t k "Suc n"] first [of n] that by simp
  ultimately show ?case
    using Cons.IH [of s' m'] Cons.prems(2,3) by (simp add: turn mstep rstep case_prod_beta)
qed simp

end
