(* ===== verification/Handset_Gateway.thy ===== *)
theory Handset_Gateway
  imports Ussdsim Gateway_Process Gateway_Sdk Session_Agreement
begin

text \<open>
  The handset of \<^verbatim>\<open>cmd/ussdsim\<close> on a gateway that has the simulator's endpoint mounted: the screens it draws
  are the responses the gateway gives to its events, and a run leaves the sessions as these events do.
\<close>

section \<open>The wire between them\<close>

text \<open>The gateway behind the handset's client, over the store and the number of requests served so far.\<close>

definition handset_request :: "string \<Rightarrow> http_request" where
  "handset_request body =
     \<lparr>hr_Method = ''POST'', hr_Header = Header_Set Map.empty ''Content-Type'' ''application/json'', hr_RemoteAddr = [],
      hr_Body = body, hr_BodyError = None\<rparr>"

definition gateway_client ::
    "(nat \<Rightarrow> instants \<Rightarrow> http_request \<Rightarrow> 's \<Rightarrow> http_writer \<times> 's \<times> exchange option) \<Rightarrow> (nat \<Rightarrow> instants) \<Rightarrow>
     string \<Rightarrow> 's \<times> nat \<Rightarrow> (string + http_response) \<times> ('s \<times> nat)" where
  "gateway_client serve at body w =
     (case serve (snd w) (at (snd w)) (handset_request body) (fst w) of
        (out, s', _) \<Rightarrow> (Inr (answered out), (s', snd w + 1)))"

text \<open>The handset's client reaches the endpoint of this gateway.\<close>

definition dials ::
    "('s \<times> nat) handset \<Rightarrow> (string set \<Rightarrow> string list) \<Rightarrow> (ready_report \<Rightarrow> string) \<Rightarrow> Registry \<Rightarrow> 's Store \<Rightarrow> Router \<Rightarrow>
     (nat \<Rightarrow> Dispatcher) \<Rightarrow> (nat \<Rightarrow> instants) \<Rightarrow> (nat \<Rightarrow> string) \<Rightarrow> bool" where
  "dials h order report reg store router dsp at ids \<longleftrightarrow>
     hs_RequestError h = None \<and>
     hs_Do h = gateway_client (\<lambda>n i r. gateway_ServeHTTP order report reg store router (dsp n) i (ids n) ''/ussd/simulator'' r) at"

text \<open>What one side writes the other reads: a request of the handset, and a response of the gateway.\<close>

definition speaks_request :: "'w handset \<Rightarrow> (string \<Rightarrow> string + sim_request) \<Rightarrow> sim_request \<Rightarrow> bool" where
  "speaks_request h decode req \<longleftrightarrow>
     (\<exists>body. hs_Marshal h req = Inr body \<and> length body \<le> simulator_maxBodyBytes \<and> decode body = Inr req)"

definition speaks_screen :: "'w handset \<Rightarrow> (Response \<Rightarrow> string + string) \<Rightarrow> Response \<Rightarrow> bool" where
  "speaks_screen h encode resp \<longleftrightarrow>
     (\<exists>json. encode resp = Inr json \<and> hs_Decode h (json @ [CHR 0x0A]) None = Inr resp)"

text \<open>The event a request becomes, and the turns a run asks of the gateway.\<close>

definition sim_event :: "'w handset \<Rightarrow> instants \<Rightarrow> sim_request \<Rightarrow> Event" where
  "sim_event h i req =
     Simulator_event (at_Load i) (case hs_Marshal h req of Inr body \<Rightarrow> body | Inl _ \<Rightarrow> []) req"

fun sim_turns ::
    "'w handset \<Rightarrow> (nat \<Rightarrow> Dispatcher) \<Rightarrow> (nat \<Rightarrow> instants) \<Rightarrow> nat \<Rightarrow> sim_request list \<Rightarrow> (instants \<times> Dispatcher \<times> Event) list" where
  "sim_turns h dsp at n [] = []"
| "sim_turns h dsp at n (req # reqs) = (at n, dsp n, sim_event h (at n) req) # sim_turns h dsp at (n + 1) reqs"

section \<open>One request\<close>

lemma answered_200: "hw_Status w = Some code \<Longrightarrow>
    hp_StatusCode (answered w) = code \<and> hp_Body (answered w) = hw_Body w \<and> hp_ReadError (answered w) = None"
  by (simp add: answered_def)

lemma send_turn:
  assumes "dials h order report reg store router dsp at ids" "speaks_request h decode req"
    "\<not> Phase_Terminal (sim_Phase req) \<Longrightarrow>
       speaks_screen h encode (rendered (fst (handle store router (dsp n) (at n) (sim_event h (at n) req) s)))"
    "mounted order reg ''/ussd/simulator'' = Some (Simulator_Adapter decode encode)"
    "wf_event (sim_event h (at n) req)" "sim_Phase req \<noteq> []"
  shows "send h req (s, n) =
    (Inr (if Phase_Terminal (sim_Phase req) then empty_Response
          else rendered (fst (handle store router (dsp n) (at n) (sim_event h (at n) req) s))),
     fst (snd (handle store router (dsp n) (at n) (sim_event h (at n) req) s)), n + 1)"
proof -
  let ?a = "Simulator_Adapter decode encode" and ?ev = "sim_event h (at n) req"
  let ?resp = "rendered (fst (handle store router (dsp n) (at n) ?ev s))"
  let ?w = "set_header HeaderRequestID (ids n) new_writer"
  obtain body where body: "hs_Marshal h req = Inr body" "length body \<le> simulator_maxBodyBytes" "decode body = Inr req"
    using assms(2) by (auto simp: speaks_request_def)
  have fits: "FitsScreen (resp_Body ?resp)" by (rule rendered_fits)
  have ev: "Simulator_event (at_Load (at n)) body req = ?ev" by (simp add: sim_event_def body(1))
  have phase: "ev_Phase ?ev = sim_Phase req" using assms(6) by (simp add: sim_event_def Simulator_event_def Let_def)
  have parse: "ad_Parse ?a (at_Load (at n)) (handset_request body) = Inr ?ev"
    using body ReadAll_limited_exact [OF body(2)] Event_Validate_wf [THEN iffD2, OF assms(5)]
    by (simp add: Simulator_Adapter_def Simulator_Parse_def handset_request_def Let_def ev)
  have render: "snd (ad_Render ?a ?resp ?w) =
      Write (json @ [CHR 0x0A]) (WriteHeader 200 (set_header ''Content-Type'' ''application/json'' ?w))"
    if "encode ?resp = Inr json" for json
    using that fits Response_Validate_None [of ?resp] by (simp add: Simulator_Adapter_def Simulator_Render_def Let_def)
  have serve: "gateway_ServeHTTP order report reg store router (dsp n) (at n) (ids n) ''/ussd/simulator'' (handset_request body) s =
      (if Phase_Terminal (sim_Phase req) then WriteHeader 200 ?w else snd (ad_Render ?a ?resp ?w),
       snd (handle store router (dsp n) (at n) ?ev s))"
    using ServeHTTP_parsed [OF _ parse, of store router "dsp n" "ids n" s] assms(4) phase
    by (simp add: gateway_ServeHTTP_def) (simp add: Simulator_Adapter_def)
  then have did: "hs_Do h body (s, n) =
      (Inr (answered (if Phase_Terminal (sim_Phase req) then WriteHeader 200 ?w else snd (ad_Render ?a ?resp ?w))),
       fst (snd (handle store router (dsp n) (at n) ?ev s)), n + 1)"
    using assms(1) by (simp add: dials_def gateway_client_def case_prod_beta)
  show ?thesis
  proof (cases "Phase_Terminal (sim_Phase req)")
    case True
    then show ?thesis using assms(1) body(1) did by (simp add: send_def dials_def answered_def)
  next
    case False
    then obtain json where json: "encode ?resp = Inr json" "hs_Decode h (json @ [CHR 0x0A]) None = Inr ?resp"
      using assms(3) unfolding speaks_screen_def by blast
    from False assms(1) body(1) did json(2) show ?thesis unfolding render [OF json(1)] by (simp add: send_def dials_def answered_def)
  qed
qed

section \<open>A run\<close>

text \<open>The responses to the requests that are no hang-ups.\<close>

definition drawn :: "(handle_error + Response) list \<Rightarrow> sim_request list \<Rightarrow> Response list" where
  "drawn results reqs =
     map (rendered \<circ> fst) (filter (\<lambda>x. \<not> Phase_Terminal (sim_Phase (snd x))) (zip results reqs))"

lemma drawn_simps [simp]:
  "drawn [] reqs = []" "drawn results [] = []"
  "drawn (a # results) (req # reqs) =
     (if Phase_Terminal (sim_Phase req) then drawn results reqs else rendered a # drawn results reqs)"
  by (simp_all add: drawn_def)

lemma sent_request_Phase [simp]: "sim_Phase (sent_request sid msisdn shortcode path phase) = phase"
  by (simp add: sent_request_def)

lemma dial_turns:
  assumes link: "dials h order report reg store router dsp at ids"
    "mounted order reg ''/ussd/simulator'' = Some (Simulator_Adapter decode encode)"
    and run: "dial h sid msisdn shortcode path phase inputs (s, n) = (log, w')" "\<not> Phase_Terminal phase"
    and screens: "\<And>resp. resp \<in> set (drawn (run_answers store router (sim_turns h dsp at n (rl_Sent log)) s) (rl_Sent log)) \<Longrightarrow>
      speaks_screen h encode resp"
    and sent: "\<And>req. req \<in> set (rl_Sent log) \<Longrightarrow>
      speaks_request h decode req \<and> (\<forall>i. wf_event (sim_event h i req)) \<and> sim_Phase req \<noteq> []"
  shows "rl_Error log = None \<and>
    rl_Drawn log = drawn (run_answers store router (sim_turns h dsp at n (rl_Sent log)) s) (rl_Sent log) \<and>
    w' = (snd (handle_run store router (sim_turns h dsp at n (rl_Sent log)) s), n + length (rl_Sent log))"
  using run screens sent
proof (induction inputs arbitrary: path phase s n log w')
  case (Nil path phase s n log w')
  let ?req = "sent_request sid msisdn shortcode path phase" and ?bye = "sent_request sid msisdn shortcode path PhaseCancel"
  have cancel: "Phase_Terminal PhaseCancel" by (simp add: Phase_Terminal_def)
  obtain reqs where reqs: "rl_Sent log = ?req # reqs"
    using Nil.prems(1) by (subst (asm) dial.simps) (auto simp: Let_def split: prod.splits sum.splits if_splits)
  then have "?req \<in> set (rl_Sent log)" by simp
  with Nil.prems(4) have "speaks_request h decode ?req" "wf_event (sim_event h (at n) ?req)" "sim_Phase ?req \<noteq> []" by blast+
  note sends = this
  obtain result s1 ex where step: "handle store router (dsp n) (at n) (sim_event h (at n) ?req) s = (result, s1, ex)" by (rule prod_cases3)
  have "speaks_screen h encode (rendered result)" using Nil.prems(2,3) reqs step by (auto simp: case_prod_beta)
  then have "\<not> Phase_Terminal (sim_Phase ?req) \<Longrightarrow>
      speaks_screen h encode (rendered (fst (handle store router (dsp n) (at n) (sim_event h (at n) ?req) s)))" using step by simp
  note one = send_turn [OF link(1) sends(1) this link(2) sends(2,3)]
  show ?case
  proof (cases "resp_EndSession (rendered result)")
    case True
    with Nil.prems(1,2) one step have "log = \<lparr>rl_Sent = [?req], rl_Drawn = [rendered result], rl_Error = None\<rparr>" "w' = (s1, n + 1)"
      by (subst (asm) dial.simps, simp add: Let_def)+
    then show ?thesis using step Nil.prems(2) by simp
  next
    case False
    have "?bye \<in> set (rl_Sent log)"
      using Nil.prems(1,2) one step False by (subst (asm) dial.simps) (auto simp: Let_def split: prod.splits)
    with Nil.prems(4) have "speaks_request h decode ?bye" "wf_event (sim_event h (at (n + 1)) ?bye)" "sim_Phase ?bye \<noteq> []" by blast+
    note two = send_turn [OF link(1) this(1) _ link(2) this(2,3), of s1]
    obtain result' s2 ex' where step': "handle store router (dsp (n + 1)) (at (n + 1)) (sim_event h (at (n + 1)) ?bye) s1 = (result', s2, ex')"
      by (rule prod_cases3)
    have "log = \<lparr>rl_Sent = [?req, ?bye], rl_Drawn = [rendered result], rl_Error = None\<rparr> \<and> w' = (s2, n + 1 + 1)"
      using Nil.prems(1,2) one two step step' False cancel by (subst (asm) dial.simps) (simp add: Let_def cancel_def)
    then show ?thesis using step step' Nil.prems(2) cancel by simp
  qed
next
  case (Cons inp rest path phase s n log w')
  let ?req = "sent_request sid msisdn shortcode path phase"
  obtain reqs where reqs: "rl_Sent log = ?req # reqs"
    using Cons.prems(1) by (subst (asm) dial.simps) (auto simp: Let_def split: prod.splits sum.splits if_splits)
  then have "?req \<in> set (rl_Sent log)" by simp
  with Cons.prems(4) have "speaks_request h decode ?req" "wf_event (sim_event h (at n) ?req)" "sim_Phase ?req \<noteq> []" by blast+
  note sends = this
  obtain result s1 ex where step: "handle store router (dsp n) (at n) (sim_event h (at n) ?req) s = (result, s1, ex)" by (rule prod_cases3)
  have "speaks_screen h encode (rendered result)" using Cons.prems(2,3) reqs step by (auto simp: case_prod_beta)
  then have "\<not> Phase_Terminal (sim_Phase ?req) \<Longrightarrow>
      speaks_screen h encode (rendered (fst (handle store router (dsp n) (at n) (sim_event h (at n) ?req) s)))" using step by simp
  note one = send_turn [OF link(1) sends(1) this link(2) sends(2,3)]
  show ?case
  proof (cases "resp_EndSession (rendered result)")
    case True
    with Cons.prems(1,2) one step have "log = \<lparr>rl_Sent = [?req], rl_Drawn = [rendered result], rl_Error = None\<rparr>" "w' = (s1, n + 1)"
      by (subst (asm) dial.simps, simp add: Let_def)+
    then show ?thesis using step Cons.prems(2) by simp
  next
    case False
    obtain log' w'' where d: "dial h sid msisdn shortcode (path @ [TrimSpace inp]) PhaseContinue rest (s1, n + 1) = (log', w'')" by (metis prod.exhaust)
    have log: "log = log'\<lparr>rl_Sent := ?req # rl_Sent log', rl_Drawn := rendered result # rl_Drawn log'\<rparr> \<and> w' = w''"
      using Cons.prems(1,2) one step False d by (subst (asm) dial.simps) (simp add: Let_def)
    then have sent': "speaks_request h decode req \<and> (\<forall>i. wf_event (sim_event h i req)) \<and> sim_Phase req \<noteq> []"
      if "req \<in> set (rl_Sent log')" for req using Cons.prems(4) that by simp
    have screens': "speaks_screen h encode resp"
      if "resp \<in> set (drawn (run_answers store router (sim_turns h dsp at (n + 1) (rl_Sent log')) s1) (rl_Sent log'))" for resp
      using Cons.prems(3) [of resp] that log step Cons.prems(2) by (simp add: case_prod_beta)
    from Cons.IH [OF d _ screens' sent'] have rest: "rl_Error log' = None"
      "rl_Drawn log' = drawn (run_answers store router (sim_turns h dsp at (n + 1) (rl_Sent log')) s1) (rl_Sent log')"
      "w'' = (snd (handle_run store router (sim_turns h dsp at (n + 1) (rl_Sent log')) s1), n + 1 + length (rl_Sent log'))"
      by (simp_all add: Phase_Terminal_def phase_defs)
    then show ?thesis using step log Cons.prems(2) by (simp add: case_prod_beta)
  qed
qed

text \<open>A hang-up is the last request of a run, if there is one.\<close>

abbreviation alive :: "sim_request \<Rightarrow> bool" where
  "alive req \<equiv> \<not> Phase_Terminal (sim_Phase req)"

lemma dial_alive:
  assumes "dial h sid msisdn shortcode path phase inputs w = (log, w')" "\<not> Phase_Terminal phase"
  shows "\<exists>byes. rl_Sent log = filter alive (rl_Sent log) @ byes \<and> list_all (\<lambda>req. \<not> alive req) byes"
  using assms
proof (induction inputs arbitrary: path phase w log w')
  case (Nil path phase w)
  let ?req = "sent_request sid msisdn shortcode path phase"
  let ?bye = "sent_request sid msisdn shortcode path PhaseCancel"
  have "rl_Sent log = [?req] \<or> rl_Sent log = [?req, ?bye]"
    using Nil.prems(1) by (subst (asm) dial.simps) (auto simp: Let_def split: prod.splits sum.splits if_splits)
  then show ?case using Nil.prems(2) by (auto simp: Phase_Terminal_def intro: exI [of _ "[]"] exI [of _ "[?bye]"])
next
  case (Cons inp rest path phase w)
  let ?req = "sent_request sid msisdn shortcode path phase"
  obtain sent w1 where send: "send h ?req w = (sent, w1)" by (rule prod.exhaust)
  show ?case
  proof (cases "\<exists>resp. sent = Inr resp \<and> \<not> resp_EndSession resp")
    case False
    then have "rl_Sent log = [?req]"
      using Cons.prems(1) send by (subst (asm) dial.simps) (auto simp: Let_def split: sum.splits if_splits)
    then show ?thesis using Cons.prems(2) by simp
  next
    case True
    obtain log' w2 where d: "dial h sid msisdn shortcode (path @ [TrimSpace inp]) PhaseContinue rest w1 = (log', w2)" by (rule prod.exhaust)
    have "rl_Sent log = ?req # rl_Sent log'"
      using Cons.prems(1) send True d by (subst (asm) dial.simps) (auto simp: Let_def)
    moreover obtain byes where byes: "rl_Sent log' = filter alive (rl_Sent log') @ byes" "list_all (\<lambda>req. \<not> alive req) byes"
      using Cons.IH [OF d] by (auto simp: Phase_Terminal_def phase_defs)
    ultimately have "rl_Sent log = filter alive (rl_Sent log) @ byes" using Cons.prems(2) by (metis append_Cons filter.simps(2) sent_request_Phase)
    then show ?thesis using byes(2) by blast
  qed
qed

text \<open>The requests of a dialogue in which all the lines are typed: the path grows by each, without its blanks.\<close>

definition typed ::
    "string \<Rightarrow> string \<Rightarrow> string \<Rightarrow> string list \<Rightarrow> Phase \<Rightarrow> string list \<Rightarrow> sim_request list" where
  "typed sid msisdn shortcode path phase inputs =
     map (\<lambda>k. sent_request sid msisdn shortcode (path @ map TrimSpace (take k inputs)) (if k = 0 then phase else PhaseContinue))
       [0..<Suc (length inputs)]"

lemma typed_simps:
  "typed sid msisdn shortcode path phase [] = [sent_request sid msisdn shortcode path phase]"
  "typed sid msisdn shortcode path phase (inp # rest) =
     sent_request sid msisdn shortcode path phase # typed sid msisdn shortcode (path @ [TrimSpace inp]) PhaseContinue rest"
proof -
  show "typed sid msisdn shortcode path phase [] = [sent_request sid msisdn shortcode path phase]" by (simp add: typed_def)
  have "[0..<Suc (Suc (length rest))] = 0 # map Suc [0..<Suc (length rest)]" by (metis map_Suc_upt upt_conv_Cons zero_less_Suc)
  then show "typed sid msisdn shortcode path phase (inp # rest) =
     sent_request sid msisdn shortcode path phase # typed sid msisdn shortcode (path @ [TrimSpace inp]) PhaseContinue rest"
    by (simp add: typed_def o_def del: upt_Suc)
qed

text \<open>A run without an error sends them all, unless a screen ends the dialogue, and that screen is the last.\<close>

lemma dial_typed:
  assumes "dial h sid msisdn shortcode path phase inputs w = (log, w')" "\<not> Phase_Terminal phase" "rl_Error log = None"
  shows "filter alive (rl_Sent log) = take (length (rl_Drawn log)) (typed sid msisdn shortcode path phase inputs)"
    "rl_Drawn log \<noteq> []" "length (rl_Drawn log) = Suc (length inputs) \<or> resp_EndSession (last (rl_Drawn log))"
    "list_all (\<lambda>resp. \<not> resp_EndSession resp) (butlast (rl_Drawn log))"
proof -
  have "filter alive (rl_Sent log) = take (length (rl_Drawn log)) (typed sid msisdn shortcode path phase inputs) \<and>
    rl_Drawn log \<noteq> [] \<and> (length (rl_Drawn log) = Suc (length inputs) \<or> resp_EndSession (last (rl_Drawn log))) \<and>
    list_all (\<lambda>resp. \<not> resp_EndSession resp) (butlast (rl_Drawn log))"
    using assms
  proof (induction inputs arbitrary: path phase w log w')
    case (Nil path phase w)
    have "\<exists>resp. rl_Drawn log = [resp] \<and> filter alive (rl_Sent log) = [sent_request sid msisdn shortcode path phase]"
      using Nil.prems by (subst (asm) dial.simps) (auto simp: Let_def Phase_Terminal_def split: prod.splits sum.splits if_splits)
    then show ?case by (auto simp: typed_simps)
  next
    case (Cons inp rest path phase w)
    let ?req = "sent_request sid msisdn shortcode path phase"
    obtain sent w1 where send: "send h ?req w = (sent, w1)" by (rule prod.exhaust)
    obtain resp where resp: "sent = Inr resp"
      using Cons.prems(1,3) send by (subst (asm) dial.simps) (auto simp: Let_def split: sum.splits)
    show ?case
    proof (cases "resp_EndSession resp")
      case True
      then have "log = \<lparr>rl_Sent = [?req], rl_Drawn = [resp], rl_Error = None\<rparr>"
        using Cons.prems(1) send resp by (subst (asm) dial.simps) (simp add: Let_def)
      then show ?thesis using Cons.prems(2) True by (simp add: typed_simps)
    next
      case False
      obtain log' w2 where d: "dial h sid msisdn shortcode (path @ [TrimSpace inp]) PhaseContinue rest w1 = (log', w2)" by (rule prod.exhaust)
      have log: "log = log'\<lparr>rl_Sent := ?req # rl_Sent log', rl_Drawn := resp # rl_Drawn log'\<rparr>"
        using Cons.prems(1) send resp False d by (subst (asm) dial.simps) (simp add: Let_def)
      have "\<not> Phase_Terminal PhaseContinue" by (simp add: Phase_Terminal_def phase_defs)
      from Cons.IH [OF d this] Cons.prems(3) log show ?thesis using Cons.prems(2) False by (simp add: typed_simps)
    qed
  qed
  then show "filter alive (rl_Sent log) = take (length (rl_Drawn log)) (typed sid msisdn shortcode path phase inputs)"
    "rl_Drawn log \<noteq> []" "length (rl_Drawn log) = Suc (length inputs) \<or> resp_EndSession (last (rl_Drawn log))"
    "list_all (\<lambda>resp. \<not> resp_EndSession resp) (butlast (rl_Drawn log))" by blast+
qed

lemma drawn_byes: "list_all (\<lambda>req. \<not> alive req) byes \<Longrightarrow> drawn results byes = []"
  by (auto simp: drawn_def list_all_iff filter_empty_conv dest: set_zip_rightD)

lemma drawn_alive:
  assumes "list_all alive reqs" "list_all (\<lambda>req. \<not> alive req) byes"
  shows "drawn (run_answers store router (sim_turns h dsp at n (reqs @ byes)) s) (reqs @ byes) =
    map rendered (run_answers store router (sim_turns h dsp at n reqs) s)"
  using assms(1)
proof (induction reqs arbitrary: n s)
  case Nil
  then show ?case using drawn_byes [OF assms(2)] by simp
next
  case (Cons req reqs)
  obtain result s1 ex where "handle store router (dsp n) (at n) (sim_event h (at n) req) s = (result, s1, ex)" by (rule prod_cases3)
  then show ?case using Cons by simp
qed

section \<open>An application under the handset\<close>

fun sim_steps ::
    "'w handset \<Rightarrow> (nat \<Rightarrow> Dispatcher) \<Rightarrow> (nat \<Rightarrow> time) \<Rightarrow> (nat \<Rightarrow> instants) \<Rightarrow> nat \<Rightarrow> sim_request list \<Rightarrow>
     (instants \<times> Dispatcher \<times> time \<times> Event) list" where
  "sim_steps h dsp clk at n [] = []"
| "sim_steps h dsp clk at n (req # reqs) = (at n, dsp n, clk n, sim_event h (at n) req) # sim_steps h dsp clk at (n + 1) reqs"

lemma gateway_run_steps:
  "gateway_run store router (sim_steps h dsp clk at n reqs) s = run_answers store router (sim_turns h dsp at n reqs) s"
  by (induction reqs arbitrary: n s) (simp_all split: prod.split)

lemma handset_over_gateway:
  assumes link: "dials h order report reg store router dsp at ids"
      "mounted order reg ''/ussd/simulator'' = Some (Simulator_Adapter decode encode)"
    and run: "dial h (sim_session_id unix r) msisdn shortcode [] PhaseBegin inputs (s, n) = (log, w')"
    and range: "\<bar>unix\<bar> < 2 ^ 63" "r < 10000" "msisdn \<noteq> []" "\<forall>inp \<in> set inputs. CHR ''*'' \<notin> set inp"
    and sent: "\<And>req. req \<in> set (rl_Sent log) \<Longrightarrow> speaks_request h decode req"
    and shows_all: "gateway_run store router (sim_steps h dsp clk at n (filter alive (rl_Sent log))) s = map Inr resps"
    and screens: "\<And>resp. resp \<in> set resps \<Longrightarrow> speaks_screen h encode resp"
  shows "rl_Drawn log = resps \<and> rl_Error log = None"
proof -
  have first: "\<not> Phase_Terminal PhaseBegin" by (simp add: Phase_Terminal_def phase_defs)
  have phase: "sim_Phase req \<noteq> []" if "req \<in> set (rl_Sent log)" for req
    using dial_sent [OF run that] by (auto simp: phase_defs)
  have "speaks_request h decode req \<and> (\<forall>i. wf_event (sim_event h i req)) \<and> sim_Phase req \<noteq> []"
    if "req \<in> set (rl_Sent log)" for req
    using sent [OF that] phase [OF that] dial_accepted [OF run that range] unfolding sim_event_def by blast
  note asked = this
  obtain byes where byes: "rl_Sent log = filter alive (rl_Sent log) @ byes" "list_all (\<lambda>req. \<not> alive req) byes"
    using dial_alive [OF run first] by blast
  have "list_all alive (filter alive (rl_Sent log))" by (simp add: list_all_iff)
  from drawn_alive [OF this byes(2), of store router h dsp at n s] shows_all
  have answers: "drawn (run_answers store router (sim_turns h dsp at n (rl_Sent log)) s) (rl_Sent log) = map rendered (map Inr resps)"
    unfolding byes(1) [symmetric] gateway_run_steps by simp
  then have answers: "drawn (run_answers store router (sim_turns h dsp at n (rl_Sent log)) s) (rl_Sent log) = resps"
    by (simp add: rendered_def o_def)
  from dial_turns [OF link run first _ asked] screens show ?thesis unfolding answers by simp
qed

end
