(* ===== verification/Samples_Gateway.thy ===== *)
theory Samples_Gateway
  imports Samples_Sdk Fediverse_Layout Fediverse_Main Retries Handset_Gateway
begin

text \<open>
  Concrete values for the gateway as it is assembled, the Redis store, the fediverse application and the
  handset.
\<close>

section \<open>A configuration\<close>

definition sample_adapters :: "(string, AdapterConfig) mapping" where
  "sample_adapters =
     Mapping.update AT_Name \<lparr>ac_Enabled = True, ac_AllowedSources = [''10.0.0.0/8''], ac_TrustedForwarders = []\<rparr> Mapping.empty"

definition sample_config :: Config where
  "sample_config =
     \<lparr>cf_Listen = ''127.0.0.1:1'',
      cf_Session = \<lparr>sc_Backend = ''memory'', sc_RedisURL = [], sc_TTL = DefaultTTL\<rparr>,
      cf_Adapters = sample_adapters, cf_Tenants = [sample_root, sample_shop], cf_LogLevel = ''info''\<rparr>"

definition sample_allowed :: "Prefix list" where
  "sample_allowed = [\<lparr>pf_Addr = V4 0x0A000000, pf_Bits = 8\<rparr>]"

definition sample_guarded :: Adapter where
  "sample_guarded = TrustedProxy_Adapter \<lparr>tp_Adapter = AT_Adapter, tp_Allowed = sample_allowed, tp_Forwarders = []\<rparr>"

definition sample_registry :: Registry where
  "sample_registry = \<lparr>rg_adapters = Mapping.update AT_Name sample_guarded Mapping.empty\<rparr>"

definition sample_available :: "string \<Rightarrow> Adapter option" where
  "sample_available = available (\<lambda>_. Inl []) (\<lambda>_. Inl [])"

lemma sample_keys: "Mapping.keys sample_adapters = {AT_Name}" "Mapping.keys (rg_adapters sample_registry) = {AT_Name}"
  by (simp_all add: sample_adapters_def sample_registry_def)

lemma sample_allowed_parses: "ParsePrefixes [''10.0.0.0/8''] = Inr sample_allowed" "ParsePrefixes [] = Inr []"
proof -
  have "TrimSpace ''10.0.0.0/8'' = ''10.0.0.0/8''" by (simp add: TrimSpace_plain)
  moreover have "ParsePrefix ''10.0.0.0/8'' = Some \<lparr>pf_Addr = V4 0x0A000000, pf_Bits = 8\<rparr>" by code_simp
  moreover have "Masked (unmapPrefix \<lparr>pf_Addr = V4 0x0A000000, pf_Bits = 8\<rparr>) = \<lparr>pf_Addr = V4 0x0A000000, pf_Bits = 8\<rparr>"
    by code_simp
  ultimately show "ParsePrefixes [''10.0.0.0/8''] = Inr sample_allowed"
    by (simp add: ParsePrefixes_def sample_allowed_def)
qed (simp add: ParsePrefixes_def)

lemma sample_newRegistry: "newRegistry sample_order sample_available sample_config = Inr sample_registry"
proof -
  have "guard AT_Name \<lparr>ac_Enabled = True, ac_AllowedSources = [''10.0.0.0/8''], ac_TrustedForwarders = []\<rparr> AT_Adapter = Inr sample_guarded"
    using sample_allowed_parses by (simp add: guard_def sample_guarded_def)
  moreover have "ad_Name sample_guarded = AT_Name" by (simp add: sample_guarded_def TrustedProxy_Adapter_def AT_Adapter_def)
  moreover have "AT_Name \<noteq> []" by (simp add: AT_Name_def)
  moreover have "sample_order (Mapping.keys sample_adapters) = [AT_Name]" by (simp add: sample_keys sample_order_def)
  ultimately show ?thesis
    by (simp add: newRegistry_def sample_config_def)
      (simp add: sample_adapters_def lookup_update' Register_def NewRegistry_def lookup_empty sample_registry_def
        sample_available_def available_AT)
qed

lemma sample_mounted: "mounted sample_order sample_registry (''/ussd/'' @ AT_Name) = Some sample_guarded"
  by (simp add: mounted_def Names_def sample_keys sample_order_def Lookup_def) (simp add: sample_registry_def)

lemma sample_assemble:
  "assemble sample_order sample_url (\<lambda>_. Inl []) sample_available (Inr sample_config) () =
     Inr (MemoryBackend (NewMemory [WithTTL DefaultTTL]), sample_router, sample_registry)"
proof -
  have "cf_Tenants sample_config = [sample_root, sample_shop]" "sc_Backend (cf_Session sample_config) = ''memory''"
    "sc_TTL (cf_Session sample_config) = DefaultTTL"
    by (simp_all add: sample_config_def)
  then show ?thesis by (simp add: assemble_def sample_newRegistry newSessionStore_memory sample_NewRouter)
qed

lemma sample_Validate: "Config_Validate sample_order sample_config = None"
  using enabled_count_pos [OF map_order_sample, of sample_adapters]
  by (simp add: Config_Validate_def sample_config_def sample_keys)
    (auto simp: sample_adapters_def lookup_update')

lemma sample_defaults: "applyDefaults sample_config = sample_config"
  by (simp add: applyDefaults_def sample_config_def Let_def DefaultTTL_def Second_def)

lemma sample_Load:
  "Load (\<lambda>_. Inr ''x'') (\<lambda>_. Inr (Scalar ''x'')) (\<lambda>_. None) (\<lambda>_. Inr sample_config) sample_order ''p'' = Inr sample_config"
  using expand_plain [of "''x''"] by (simp add: Load_def sample_defaults sample_Validate)

text \<open>A callback of the allowed network that reaches the tenant.\<close>

lemma sample_verified: "ad_Verify sample_guarded (sample_request body) = None"
proof -
  have "peerAddr (sample_request []) = Some (V4 167772161)" by code_simp
  moreover have "peerAddr (sample_request body) = peerAddr (sample_request [])"
    by (rule peerAddr_cong) (simp add: sample_request_def)
  moreover have "containsAddr sample_allowed (V4 167772161)" by code_simp
  ultimately have "TrustedProxy_Verify \<lparr>tp_Adapter = AT_Adapter, tp_Allowed = sample_allowed, tp_Forwarders = []\<rparr> (sample_request body) = None"
    by (simp add: TrustedProxy_Verify_None clientAddr_def) (simp add: AT_Adapter_def)
  then show ?thesis by (simp add: sample_guarded_def TrustedProxy_Adapter_def)
qed

lemma sample_served:
  "snd (snd (ServeHTTP sample_guarded memory_store sample_router sample_dispatcher sample_instants ''i''
     (sample_request sample_form) sample_saved)) \<noteq> None"
proof -
  obtain ev where ev: "AT_Parse (at_Load sample_instants) (sample_request sample_form) = Inr ev"
    using sample_form_parses by blast
  let ?form = "[(''sessionId'', ''s''), (''phoneNumber'', ''+1''), (''serviceCode'', ''*1#''), (''text'', [])]"
  have form: "ParseQuery sample_form = Some ?form" unfolding sample_form_def by (rule ParseQuery_encode_form)
  have shape: "ev = AT_event (at_Load sample_instants) sample_form ?form"
    using AT_Parse_Inr [OF ev] form by (auto simp: sample_request_def)
  have "ev_Shortcode ev = ''*1#''" "ev_Path ev = []"
    by (simp_all add: shape AT_event_def Values_Get_def TrimSpace_plain splitPath_def)
  then have route: "\<exists>routed. Route sample_router ev = Inr (sample_root, routed)"
    by (simp add: Route_def sample_router_def lookup_default_update hasPrefix_def sample_root_def sample_shop_def)
  have live: "\<not> Phase_Terminal (ev_Phase ev)" unfolding shape by (rule AT_event_not_terminal)
  have "snd (snd (handle memory_store sample_router sample_dispatcher sample_instants ev sample_saved)) \<noteq> None"
    by (cases rule: handle_cases [of ev memory_store sample_router sample_dispatcher sample_instants sample_saved])
      (use route live in auto)
  moreover have "ad_Parse sample_guarded (at_Load sample_instants) (sample_request sample_form) = Inr ev"
    using ev by (simp add: sample_guarded_def TrustedProxy_Adapter_def AT_Adapter_def)
  ultimately show ?thesis by (simp add: ServeHTTP_parsed [OF sample_verified])
qed

section \<open>A Redis server\<close>

type_synonym redis_server = "string \<Rightarrow> (string \<times> time) option"

definition sample_client :: "redis_server client" where
  "sample_client =
     \<lparr>rc_Get = (\<lambda>now k s. case s k of None \<Rightarrow> Inl RedisNil | Some (v, e) \<Rightarrow> if now < e then Inr v else Inl RedisNil),
      rc_Set = (\<lambda>now k v ttl s. (None, s(k \<mapsto> (v, now + ttl)))), rc_Del = (\<lambda>k s. (None, s(k := None))),
      rc_Ping = (\<lambda>s. None), rc_Close = (\<lambda>s. (None, s))\<rparr>"

lemma sample_redis_laws: "redis_laws sample_client"
  by (auto simp: redis_laws_def sample_client_def)

text \<open>The codec writes and reads the one session that the first turn of the sample dialogue leaves.\<close>

definition sample_json :: session_codec where
  "sample_json =
     (let left = stamp 0 (sample_session 1 (Some ''7'')) in
      \<lparr>sj_Marshal = (\<lambda>x. if x = left then Inr ''j'' else Inl ''e''), sj_Unmarshal = (\<lambda>_. Inr left)\<rparr>)"

lemma sample_left_key: "se_Key (sample_session n st) = sample_session_key"
  by (simp add: sample_session_def sample_key sample_session_key_def)

lemma sample_codec_reads_back: "codec_reads_back sample_json (\<lambda>st. st)"
  by (auto simp: codec_reads_back_def sample_json_def Let_def reads_back_def utf8_coerced_ascii sample_left_key sample_session_key_def
      split: if_splits) (simp_all add: sample_session_def fresh_session_def sample_event_def utf8_coerced_ascii)

lemma sample_redis_safe: "redis_safe sample_client"
  by (auto simp: redis_safe_def sample_client_def split: if_splits option.splits)

definition sample_redis :: "redis_server Redis" where
  "sample_redis = NewRedisWithClient sample_client [WithRedisTTL 5]"

lemma sample_redis_simps: "rd_client sample_redis = sample_client" "rd_ttl sample_redis = 5"
  by (simp_all add: sample_redis_def NewRedisWithClient_def)

definition sample_server :: redis_server where
  "sample_server = snd (Redis_Save sample_json sample_redis 0 (sample_session 1 (Some ''7'')) Map.empty)"

lemma sample_redis_saved:
  "Redis_Save sample_json sample_redis 0 (sample_session 1 (Some ''7'')) Map.empty = (None, sample_server)"
  by (simp add: sample_server_def Redis_Save_def sample_left_key sample_session_valid sample_json_def Let_def
      sample_client_def sample_redis_simps case_prod_beta)

lemma sample_redis_empty: "Redis_Load sample_json sample_redis t k Map.empty \<noteq> Inr x"
proof -
  have "rc_Get sample_client t n Map.empty = Inl RedisNil" for n by (simp add: sample_client_def)
  then show ?thesis by (simp add: Redis_Load_Inr sample_redis_simps)
qed

text \<open>A sample turn, over any store.\<close>

lemma sample_handle:
  assumes "load_session store 0 (sample_event path) s = old" "path \<in> {[], [''1'']}"
    "turn_request (sample_event path) (enter_tenant sample_root old) = ex_Request (sample_exchange path n st)"
  shows "snd (snd (handle store sample_router sample_dispatcher sample_instants (sample_event path) s)) = Some (sample_exchange path n st)"
    "fst (snd (handle store sample_router sample_dispatcher sample_instants (sample_event path) s)) =
       snd (st_Save store 0 (apply_reply sample_reply (enter_tenant sample_root old)) s)"
  using assms sample_not_terminal [of path]
  by (auto simp: handle_def Let_def sample_Route sample_instants_def sample_Deliver Continue_def split: prod.splits option.splits)
    (auto simp: sample_exchange_def)

lemma sample_redis_run:
  "fst (handle_run (redis_store sample_json sample_redis) sample_router sample_turns Map.empty) =
     [(sample_event [], sample_exchange [] 1 None), (sample_event [''1''], sample_exchange [''1''] 2 (Some ''7''))]"
proof -
  let ?store = "redis_store sample_json sample_redis"
  have "load_session ?store 0 (sample_event []) Map.empty = fresh_session (sample_event [])"
    using sample_redis_empty [of 0 "event_key (sample_event [])"]
    by (simp add: load_session_eq redis_store_def split: sum.split)
  note first = sample_handle [OF this, where n = 1 and st = None]
  have entered: "enter_tenant sample_root (fresh_session (sample_event [])) = sample_session 1 None"
    by (simp add: enter_tenant_def sample_session_def fresh_session_def empty_Session_def sample_root_def)
  have reply: "apply_reply sample_reply (sample_session 1 None) = sample_session 1 (Some ''7'')"
    by (simp add: apply_reply_def sample_session_def)
  have req: "turn_request (sample_event []) (sample_session 1 None) = ex_Request (sample_exchange [] 1 None)"
    by (simp add: turn_request_def sample_session_def sample_exchange_def)
  have "st_Save ?store 0 (sample_session 1 (Some ''7'')) Map.empty = (None, sample_server)"
    using sample_redis_saved by (simp add: redis_store_def)
  then have one: "snd (snd (handle ?store sample_router sample_dispatcher sample_instants (sample_event []) Map.empty)) = Some (sample_exchange [] 1 None)"
    "fst (snd (handle ?store sample_router sample_dispatcher sample_instants (sample_event []) Map.empty)) = sample_server"
    using first by (simp_all add: entered reply req)
  let ?left = "stamp 0 (sample_session 1 (Some ''7''))"
  have "Redis_Load sample_json sample_redis 0 (event_key (sample_event [''1''])) sample_server = Inr ?left"
    using Redis_load_save [OF _ _ sample_redis_saved, of sample_session_key 0] sample_session_valid sample_redis_laws
    by (simp add: sample_redis_simps sample_left_key sample_key sample_session_key_def sample_json_def Let_def)
  then have "load_session ?store 0 (sample_event [''1'']) sample_server = ?left"
    by (simp add: load_session_eq redis_store_def) (simp add: sample_session_def sample_key)
  note second = sample_handle(1) [OF this, where n = 2 and st = "Some ''7''"]
  have "turn_request (sample_event [''1'']) (enter_tenant sample_root ?left) = ex_Request (sample_exchange [''1''] 2 (Some ''7''))"
    using enter_tenant_same [of ?left sample_root]
    by (simp add: turn_request_def sample_exchange_def) (simp add: sample_session_def sample_root_def)
  with second have "snd (snd (handle ?store sample_router sample_dispatcher sample_instants (sample_event [''1'']) sample_server)) =
      Some (sample_exchange [''1''] 2 (Some ''7''))" by simp
  with one show ?thesis by (simp add: sample_turns_def case_prod_beta)
qed

section \<open>The fediverse application\<close>

definition feed_codec :: "fstate codec" where
  "feed_codec =
     (let zero = \<lparr>fs_Posts = [], fs_Cursor = 0, fs_Page = 0, fs_Listed = 0\<rparr> in
      \<lparr>cd_zero = zero, cd_Unmarshal = (\<lambda>b. Inr \<lparr>sa_Screen = b, sa_Lang = ''en'', sa_App = zero\<rparr>),
       cd_Marshal = (\<lambda>st. Inr (sa_Screen st))\<rparr>)"

lemma feed_codec_ok: "keeps_screens feed_codec a" "codec_keeps fs_safe feed_codec"
  by (simp_all add: keeps_screens_def codec_keeps_def feed_codec_def fs_safe_def Let_def)

lemma feed_codec_capped: "codec_keeps (\<lambda>s. fs_safe s \<and> posts_capped s) feed_codec"
  by (simp add: codec_keeps_def feed_codec_def fs_safe_def posts_capped_def Let_def)

definition feed_context :: "string \<Rightarrow> fstate Context" where
  "feed_context author =
     (brace_context (sample_event []))\<lparr>cx_State :=
        \<lparr>fs_Posts = [\<lparr>po_Author = author, po_Text = replicate 5 (CHR ''a''), po_When = []\<rparr>], fs_Cursor = 0, fs_Page = 0, fs_Listed = 1\<rparr>\<rparr>"

lemma feed_context_simps:
  "cx_bundle (feed_context author) = Some fediverse_bundle" "fs_Cursor (cx_State (feed_context author)) = 0"
  "fs_Page (cx_State (feed_context author)) = 0"
  "fs_Posts (cx_State (feed_context author)) = [\<lparr>po_Author = author, po_Text = replicate 5 (CHR ''a''), po_When = []\<rparr>]"
  by (simp_all add: feed_context_def brace_context_def)

lemma feed_pages: "postPages lower (feed_context author) = Inr [replicate 5 (CHR ''a'')]"
proof -
  let ?p = "\<lparr>po_Author = author, po_Text = replicate 5 (CHR ''a''), po_When = []\<rparr> :: Post"
  have "0 \<le> post_reserve lower (feed_context author) ?p \<and> post_reserve lower (feed_context author) ?p \<le> 61"
    by (rule post_reserve_bounds [OF feed_context_simps(1)])
  then have "Paginate (replicate 5 (CHR ''a'')) (post_reserve lower (feed_context author) ?p) = [replicate 5 (CHR ''a'')]"
    by (intro Paginate_letters) auto
  then show ?thesis by (simp add: postPages_def Let_def feed_context_simps)
qed

lemma author_line_bob: "Label ''bob'' maxHeaderLen ''Post'' = ''bob''"
proof -
  have "OneLine ''bob'' = ''bob''" by (rule OneLine_unbroken) (simp_all add: runes_ascii line_break_def)
  moreover have "ToGSM ''bob'' = ''bob''" by (rule ToGSM_plain) (simp add: plain_def)
  moreover have "TrimSpace ''bob'' = ''bob''" by (simp add: TrimSpace_plain)
  moreover have "Truncate ''bob'' 28 = ''bob''" by (rule Truncate_short) (simp_all add: runes_ascii)
  ultimately show ?thesis by (simp add: Label_def Let_def maxHeaderLen_def runes_ascii)
qed

text \<open>The server and the in-process store over the first turn.\<close>

lemma sample_redis_up: "redis_up sample_client"
  by (simp add: redis_up_def sample_client_def)

lemma sample_exact:
  assumes "Memory_Load t k (snd (handle_run memory_store sample_router (take n [hd sample_turns]) (NewMemory []))) = Inr y"
  shows "written_exactly sample_json y"
proof (cases n)
  case 0
  then show ?thesis using assms by (simp add: Memory_Load_def NewMemory_def split: option.splits)
next
  case (Suc n')
  then have "Memory_Load t k sample_saved = Inr y" using assms by (simp add: sample_turns_def sample_first)
  moreover obtain m where saved: "Memory_Save 0 (sample_session 1 (Some ''7'')) (NewMemory []) = (None, m)" "m = sample_saved"
    by (simp add: sample_saved_def Memory_Save_def sample_left_key sample_session_valid)
  moreover have "Memory_Load t k (NewMemory []) \<noteq> Inr y"
    by (simp add: Memory_Load_def NewMemory_def split: option.split)
  ultimately have "y = stamp 0 (sample_session 1 (Some ''7''))"
    using memory.load_save [OF saved(1), of k t] memory.history.load_valid [of t k sample_saved y] by (auto split: if_splits)
  then show ?thesis by (simp add: written_exactly_def sample_json_def Let_def)
qed

section \<open>A turn under way\<close>

definition sample_pending :: pending where
  "sample_pending =
     \<lparr>pd_At = sample_instants, pd_Event = sample_event [], pd_Tenant = sample_root, pd_Session = sample_session 1 None,
      pd_Request = ex_Request (sample_exchange [] 1 None)\<rparr>"

lemma sample_begin:
  "turn_begin memory_store sample_router sample_instants (sample_event []) (NewMemory []) = Some sample_pending"
proof -
  have "load_session memory_store 0 (sample_event []) (NewMemory []) = fresh_session (sample_event [])"
    by (simp add: load_session_eq memory_store_def Memory_Load_def NewMemory_def Key_Validate_def sample_key)
  moreover have "enter_tenant sample_root (fresh_session (sample_event [])) = sample_session 1 None"
    by (simp add: enter_tenant_def sample_session_def fresh_session_def empty_Session_def sample_root_def)
  ultimately show ?thesis
    by (simp add: turn_begin_def sample_not_terminal sample_Route sample_pending_def sample_instants_def)
      (simp add: turn_request_def sample_session_def sample_exchange_def)
qed

lemma sample_finish:
  "\<exists>m'. turn_finish memory_store sample_dispatcher sample_pending m = (Inr (Continue ''hi''), m', sample_exchange [] 1 None)"
proof -
  have reply: "apply_reply sample_reply (sample_session 1 None) = sample_session 1 (Some ''7'')"
    by (simp add: apply_reply_def sample_session_def)
  have "fst (Memory_Save 0 (sample_session 1 (Some ''7'')) m) = None"
    by (simp add: Memory_Save_def sample_session_def Key_Validate_def sample_key)
  then show ?thesis
    by (auto simp: turn_finish_def Let_def sample_pending_def sample_Deliver reply memory_store_def sample_instants_def
        Continue_def sample_exchange_def split: prod.splits option.splits)
qed

section \<open>A handset\<close>

text \<open>The handset calls the greeting application over the gateway, and types one line.\<close>

definition call_request :: "string list \<Rightarrow> sim_request" where
  "call_request path =
     sent_request (sim_session_id 7 1) ''+1'' ''*1#'' path (if path = [] then PhaseBegin else PhaseContinue)"

definition call_base :: Event where
  "call_base = Simulator_event 0 [] (call_request [])"

definition call_decode :: "string \<Rightarrow> string + sim_request" where
  "call_decode body = Inr (call_request (if body = ''b'' then [] else [''1'']))"

definition call_encode :: "Response \<Rightarrow> string + string" where
  "call_encode resp = Inr ((if resp_EndSession resp then CHR ''e'' else CHR ''c'') # resp_Body resp)"

definition call_registry :: Registry where
  "call_registry = \<lparr>rg_adapters = Mapping.update ''simulator'' (Simulator_Adapter call_decode call_encode) Mapping.empty\<rparr>"

definition call_handset :: "(Memory \<times> nat) handset" where
  "call_handset =
     \<lparr>hs_Marshal = (\<lambda>req. Inr (if sim_Path req = [] then ''b'' else ''c'')), hs_RequestError = None,
      hs_Do = gateway_client (\<lambda>n i r. gateway_ServeHTTP sample_order (\<lambda>_. []) call_registry memory_store sample_router
        (hello_dispatcher call_base (hello_clock n)) i ''i'' ''/ussd/simulator'' r) hello_at,
      hs_Decode = (\<lambda>body _. Inr \<lparr>resp_Body = butlast (tl body), resp_EndSession = (hd body = CHR ''e'')\<rparr>)\<rparr>"

lemma call_link:
  "dials call_handset sample_order (\<lambda>_. []) call_registry memory_store sample_router
     (\<lambda>n. hello_dispatcher call_base (hello_clock n)) hello_at (\<lambda>_. ''i'')"
  "speaks_screen call_handset call_encode resp" "path \<in> {[], [''1'']} \<Longrightarrow> speaks_request call_handset call_decode (call_request path)"
  "mounted sample_order call_registry ''/ussd/simulator'' = Some (Simulator_Adapter call_decode call_encode)"
proof -
  show "dials call_handset sample_order (\<lambda>_. []) call_registry memory_store sample_router
     (\<lambda>n. hello_dispatcher call_base (hello_clock n)) hello_at (\<lambda>_. ''i'')"
    by (simp add: dials_def call_handset_def)
  show "speaks_screen call_handset call_encode resp"
    by (simp add: speaks_screen_def call_handset_def call_encode_def)
  show "path \<in> {[], [''1'']} \<Longrightarrow> speaks_request call_handset call_decode (call_request path)"
    by (auto simp: speaks_request_def call_handset_def call_decode_def call_request_def sent_request_def simulator_maxBodyBytes_def)
  have "Mapping.keys (rg_adapters call_registry) = {''simulator''}" by (simp add: call_registry_def)
  then show "mounted sample_order call_registry ''/ussd/simulator'' = Some (Simulator_Adapter call_decode call_encode)"
    by (simp add: mounted_def Names_def sample_order_def Lookup_def) (simp add: call_registry_def)
qed

lemma call_event:
  "path \<in> {[], [''1'']} \<Longrightarrow> sim_event call_handset (hello_at (length path)) (call_request path) =
     hello_event call_base path (if path = [] then ''b'' else ''c'')"
  by (auto simp: sim_event_def call_handset_def hello_event_def call_base_def Simulator_event_def Let_def
      call_request_def sent_request_def PhaseBegin_def PhaseContinue_def)

lemma call_key:
  "event_key call_base = \<lparr>key_MNO = Simulator_Name, key_SessionID = sim_session_id 7 1\<rparr>" "ev_MSISDN call_base = ''+1''"
  "ev_Shortcode call_base = ''*1#''"
  by (simp_all add: call_base_def event_key_def Simulator_event_def Let_def call_request_def sent_request_def)

lemma call_steps:
  "sim_steps call_handset (\<lambda>n. hello_dispatcher call_base (hello_clock n)) hello_clock hello_at 0 [call_request [], call_request [''1'']] =
     hello_steps call_base ''b'' ''c''"
  using call_event [of "[]"] call_event [of "[''1'']"] by (simp add: hello_steps_def)

lemma call_wf: "path \<in> {[], [''1'']} \<Longrightarrow> wf_event (sim_event call_handset i (call_request path))"
  using sim_session_id_bounds [of 7 1]
  by (auto simp: wf_event_def sim_event_def Simulator_event_def call_request_def sent_request_def Let_def Simulator_Name_def phase_defs)

text \<open>Before the call the subscriber has no session, and the gateway carries the two turns.\<close>

lemma call_fresh: "Memory_Load now k (NewMemory []) \<noteq> Inr sess"
  by (simp add: Memory_Load_def NewMemory_def split: option.split)

lemma call_carried:
  "carried (hello_libraries call_base) hello_handler sample_root sample_router
     \<lparr>key_MNO = Simulator_Name, key_SessionID = sim_session_id 7 1\<rparr> ''+1'' (mem_ttl (NewMemory [])) None 1 None
     (hello_steps call_base ''b'' ''c'')"
  using hello_carried [OF call_key(3), of "''b''" "''c''"] by (simp add: call_key NewMemory_def)

lemma call_run:
  "gateway_run memory_store sample_router (hello_steps call_base ''b'' ''c'') (NewMemory []) =
     [Inr (Continue ''hi''), Inr (End ''hi'')]"
proof -
  let ?k = "\<lparr>key_MNO = Simulator_Name, key_SessionID = sim_session_id 7 1\<rparr>"
  have "memory.live now (NewMemory []) ?k = None" for now
    using call_fresh [of now ?k] by (auto simp: memory.live_def split: sum.split)
  then have "memory.place (NewMemory []) sample_root ?k ''+1'' None 1 None" by (rule memory.place_none)
  moreover have "Key_Validate ?k = None"
    using sim_session_id_bounds [of 7 1] by (simp add: Key_Validate_def Simulator_Name_def)
  ultimately show ?thesis
    using memory.conversation [OF memory_session_inv [of "{}" "[]"] named_routes_NewRouter [OF map_order_sample sample_NewRouter]
        memory_reliable _ _ call_carried] hello_run [of call_base "''b''" "''c''"]
    by (auto simp: memory_store_def map_eq_Cons_conv)
qed

definition call_log :: run_log where
  "call_log =
     \<lparr>rl_Sent = [call_request [], call_request [''1'']], rl_Drawn = [Continue ''hi'', End ''hi''], rl_Error = None\<rparr>"

lemma call_dial: "\<exists>w'. ussdsim (\<lambda>_. call_handset) ''g'' 7 1 ''+1'' ''*1#'' [''1''] (NewMemory [], 0) = (call_log, w')"
proof -
  let ?turn = "\<lambda>path s. handle memory_store sample_router (hello_dispatcher call_base (hello_clock (length path))) (hello_at (length path))
    (hello_event call_base path (if path = [] then ''b'' else ''c'')) s"
  obtain r1 m1 x1 where one: "?turn [] (NewMemory []) = (r1, m1, x1)" by (rule prod_cases3)
  obtain r2 m2 x2 where two: "?turn [''1''] m1 = (r2, m2, x2)" by (rule prod_cases3)
  have results: "r1 = Inr (Continue ''hi'')" "r2 = Inr (End ''hi'')"
    using call_run one two by (simp_all add: hello_steps_def)
  have phase: "\<not> Phase_Terminal (sim_Phase (call_request path))" "sim_Phase (call_request path) \<noteq> []" for path
    by (simp_all add: call_request_def phase_defs Phase_Terminal_def)
  have sent: "send call_handset (call_request path) (s, length path) =
      (Inr (rendered (fst (?turn path s))), fst (snd (?turn path s)), length path + 1)" if "path \<in> {[], [''1'']}" for path s
    using send_turn [OF call_link(1) call_link(3) [OF that] call_link(2,4) call_wf [OF that] phase(2), where s = s and n = "length path"]
      call_event [OF that] phase(1) by simp
  have "call_request [] = sent_request (sim_session_id 7 1) ''+1'' ''*1#'' [] PhaseBegin"
    "call_request [''1''] = sent_request (sim_session_id 7 1) ''+1'' ''*1#'' [''1''] PhaseContinue"
    by (simp_all add: call_request_def)
  moreover have "TrimSpace ''1'' = ''1''" by (simp add: TrimSpace_plain)
  ultimately show ?thesis
    using sent [of "[]" "NewMemory []"] sent [of "[''1'']" m1] one two results
    unfolding ussdsim_def call_log_def
    by (subst dial.simps, subst dial.simps) (simp add: Let_def rendered_def Continue_def End_def)
qed

section \<open>A timeline\<close>

definition sample_status :: apiStatus where
  "sample_status = ApiStatus ''<p>hi</p>'' ''t'' ''bob'' ''Bob'' [] None"

definition sample_remote :: remote where
  "sample_remote =
     \<lparr>rm_ParseURL = (\<lambda>_. Inr \<lparr>en_Host = ''h'', en_Query = [], en_String = (\<lambda>q. q)\<rparr>), rm_RequestError = (\<lambda>_. None),
      rm_Do = (\<lambda>_ _. Inr \<lparr>rr_StatusCode = 200, rr_Body = ''b'', rr_ReadError = None, rr_Host = None\<rparr>),
      rm_StatusText = (\<lambda>_. []), rm_DecodeError = (\<lambda>_ _. None), rm_Decode = (\<lambda>_ _. Inr [sample_status]),
      rm_UnescapeString = (\<lambda>s. s), rm_IsPrint = (\<lambda>r. 0x20 \<le> r), rm_ParseTime = (\<lambda>_. None)\<rparr>"

lemma sample_remote_utf8: "reads_utf8 sample_remote"
  by (simp add: reads_utf8_def sample_remote_def sample_status_def valid_body_def valid_ascii)

lemma sample_fediverse_run:
  "\<exists>listen h. fediverse_run (\<lambda>r. r) (\<lambda>_. sample_remote) (\<lambda>_. 0) (\<lambda>_. ''k'') None None = Inr (listen, h)"
  by (simp add: fediverse_run_Inr)

end
