(* ===== verification/Deviations.thy ===== *)
theory Deviations
  imports Samples Fediverse_Layout Gateway_Main Session_Replicas
begin

text \<open>
  Where the code does something else than its comments say or than its author can have meant, each on
  inputs that show it.  The way back that is cut off a post's screen is in \<open>Fediverse_Layout\<close>, the
  languages no code can reach are in \<open>Sdk_I18n\<close>.
\<close>

section \<open>Canonical types and the SDK\<close>

text \<open>
  Validation does not see collisions.  Two different keys that both pass \<open>Key.Validate\<close> share one
  storage key, once a network's name may contain a colon.
\<close>

lemma validated_keys_collide:
  "\<exists>k k'. k \<noteq> k' \<and> Key_Validate k = None \<and> Key_Validate k' = None \<and> Key_String k = Key_String (k' :: Key)"
  by (rule exI [of _ "\<lparr>key_MNO = ''a:b'', key_SessionID = ''c''\<rparr>"], rule exI [of _ "\<lparr>key_MNO = ''a'', key_SessionID = ''b:c''\<rparr>"])
    (simp add: Key_Validate_def Key_String_def)

text \<open>Control characters survive: collapsing a text to one line removes white space, not controls.\<close>

lemma one_line_keeps_controls: "0x07 \<in> set (runes (OneLine [CHR ''a'', CHR 0x07]))"
  by (simp add: runes_OneLine runes_ascii line_break_def)

text \<open>
  Shrinking gives away three runes: 183 letters shrink to 179 runes, the mark included, where 179 of them
  with the mark behind would still fit.
\<close>

lemma shrink_loses_three:
  "length (runes (Shrink (replicate 183 CHR ''a''))) = 179 \<and> FitsScreen (replicate 179 CHR ''a'' @ ellipsis)"
  by (subst FitsScreen_plain) (simp_all add: Shrink_letters list_all_iff plain_def MaxSeptets_def ellipsis_def)

section \<open>The gateway\<close>

text \<open>
  A hop that does not parse is skipped: if the value the forwarder appended is not a bare address, for one
  it wrote with a port, the hop before it, which the client may have sent itself, is believed.
\<close>

lemma unparseable_hop_skipped:
  assumes "peerAddr r = Some peer" "containsAddr (tp_Forwarders t) peer"
    "Header_Values (hr_Header r) ''X-Forwarded-For'' = [u, v]" "CHR '','' \<notin> set u" "CHR '','' \<notin> set v"
    "ParseAddr (TrimSpace v) = None" "ParseAddr (TrimSpace u) = Some a" "\<not> containsAddr (tp_Forwarders t) (Unmap a)"
  shows "clientAddr t r = Some (Unmap a)"
proof -
  have "hops r = [u, v]" using assms(3-5) by (simp add: hops_def split_on_append split_on_notin)
  moreover have "tp_Forwarders t \<noteq> []" using assms(2) by auto
  ultimately show ?thesis using assms(1,2,6-8) by (simp add: clientAddr_def)
qed

lemma unparseable_hop_believed:
  "clientAddr sample_proxy (forwarded_request [''198.51.100.7'', ''203.0.113.9:4711'']) = Some (V4 3325256711)"
  using unparseable_hop_skipped [OF sample_peer sample_peer_forwards sample_values_port _ _ sample_port_unparseable
      sample_client_parses sample_client_outside]
  by (simp add: Unmap_def)

text \<open>
  A negative lifetime passes the validation of the configuration, and with it the gateway forgets every
  session as soon as it is saved.
\<close>

lemma negative_lifetime_loads:
  assumes "map_order order" "finite (Mapping.keys (cf_Adapters c))" "Config_Validate order c = None" "ttl < 0"
    "Memory_Save now x (NewMemory [WithTTL ttl]) = (None, m')" "now \<le> t" "Key_Validate (se_Key x) = None"
  shows "Config_Validate order (c\<lparr>cf_Session := (cf_Session c)\<lparr>sc_TTL := ttl\<rparr>\<rparr>) = None"
    "Memory_Load t (se_Key x) m' = Inl NotFound"
  using assms Config_Validate_TTL negative_ttl_forgets [of "NewMemory [WithTTL ttl]" now x m' t]
  by (simp_all add: NewMemory_def)

text \<open>
  No adapter asks that a session id or a number is UTF-8.  A session of which they are not comes back from Redis
  under another key, or as that of another subscriber.
\<close>

lemma redis_renames_session:
  assumes "codec_reads_back j norm" "sj_Marshal j x = Inr raw" "sj_Unmarshal j raw = Inr y"
  shows "\<not> valid_utf8 (key_SessionID (se_Key x)) \<Longrightarrow> valid_utf8 (key_MNO (se_Key x)) \<Longrightarrow>
      Key_String (se_Key y) \<noteq> Key_String (se_Key x)"
    and "\<not> valid_utf8 (se_MSISDN x) \<Longrightarrow> se_MSISDN y \<noteq> se_MSISDN x"
proof -
  have same: "reads_back utf8_coerced norm x y" using assms by (auto simp: codec_reads_back_def)
  then show "\<not> valid_utf8 (key_SessionID (se_Key x)) \<Longrightarrow> valid_utf8 (key_MNO (se_Key x)) \<Longrightarrow>
      Key_String (se_Key y) \<noteq> Key_String (se_Key x)"
    by (auto simp: reads_back_def Key_String_def valid_utf8_def)
  from same show "\<not> valid_utf8 (se_MSISDN x) \<Longrightarrow> se_MSISDN y \<noteq> se_MSISDN x"
    by (auto simp: reads_back_def valid_utf8_def)
qed

section \<open>The fediverse application\<close>

text \<open>What a post adds to the state of a session is capped in its text only: its author is as long as it was sent.\<close>

lemma post_author_uncapped:
  "po_Author (toPost rm now (ApiStatus content created acct (replicate n (CHR ''a'')) media reblog)) =
     (if n = 0 then TrimSpace acct else replicate n (CHR ''a''))"
proof -
  have "TrimSpace (replicate n (CHR ''a'')) = replicate n (CHR ''a'')"
    by (cases n) (simp_all add: TrimSpace_plain list_all_iff)
  then show ?thesis by (simp add: toPost_def Let_def)
qed

text \<open>The reserve of a post is measured with the counter of page 99 of 99; that of page 100 is two characters longer.\<close>

lemma counter_outgrows_reserve:
  "length (runes (postHeader p 100 101)) = length (runes (postHeader p widestPageCounter widestPageCounter)) + 2"
proof -
  have digits: "length (digits 100) = 3" "length (digits 101) = 3"
    by (simp_all add: digits.simps [of 100] digits.simps [of 101] digits.simps [of 10] digits.simps [of "Suc 0"])
  have "list_all plain ('' ('' @ FormatInt 100 @ ''/'' @ FormatInt 101 @ '')'')"
    using FormatInt_plain [of 100] FormatInt_plain [of 101] by (simp add: plain_def Let_def)
  from runes_postHeader [where page = 100 and pages = 101 and p = p] this widest_counter runes_postHeader [of 99 99 p] show ?thesis
    by (simp add: widestPageCounter_def FormatInt_def digits)
qed

end
