(* ===== verification/Spec2Isabelle.thy ===== *)
theory Spec2Isabelle
  imports Samples_Gateway Deviations
begin

text \<open>
  OpenUSSD.  The program connects feature phones to web applications.  A mobile network calls the
  \<^bold>\<open>gateway\<close> over HTTP, one request for each key press of a dialogue; an adapter turns the callback into
  a canonical event; the gateway finds the tenant that answers the dialled code, loads the session,
  sends a signed request to the tenant's webhook, checks the reply, keeps the state it returns and
  renders the screen.  Behind the webhook stands an application built with the \<^bold>\<open>SDK\<close>: screens, each a
  prompt and a handler of input, over a state that travels in the session.  The repository brings one
  such application, a reader of public fediverse timelines, and a terminal handset for trying all of it.

  \<^bold>\<open>Theories and sources.\<close>  The theories \<open>Go_Prelude\<close>, \<open>Go_Utf8\<close>, \<open>Go_Valid\<close>, \<open>Go_Strings\<close>, \<open>Go_Time\<close>, \<open>Go_Strconv\<close>,
  \<open>Go_Http\<close>, \<open>Go_Netip\<close> and \<open>Go_Url\<close> model what the code uses of Go and its standard library: strings as
  bytes that decode to runes, with U+FFFD for each byte that is no UTF-8, durations and times in nanoseconds with the saturating difference, headers,
  addresses of 32 and 128 bits, form encoding.  The program itself is

  \<^item> \<^verbatim>\<open>canonical/\<close>: \<open>Canonical_Encoding\<close> (cost of a text in septets or UCS-2 units, the budget of a
    screen) and \<open>Canonical_Event\<close> (events, responses, their validation);
  \<^item> \<^verbatim>\<open>sdk/go/\<close>: \<open>Sdk_Gsm\<close>, \<open>Sdk_Render\<close>, \<open>Sdk_Paginate\<close> and \<open>Sdk_Menu\<close> (text, shrinking, pages and menus),
    \<open>Sdk_I18n\<close> (translations), \<open>Sdk_App\<close> (screens and a turn of a dialogue), \<open>Sdk_Handler\<close> (the webhook);
  \<^item> \<^verbatim>\<open>webhook/\<close>: \<open>Webhook_Sign\<close> (signatures) and \<open>Webhook_Envelope\<close> (requests and replies);
  \<^item> \<^verbatim>\<open>gateway/internal/session/\<close>: \<open>Session_Store\<close> (keys, sessions and the contract of a store),
    \<open>Session_Memory\<close> and \<open>Session_Redis\<close> (the two stores), with \<open>Session_Replicas\<close> for several gateways
    over one Redis server and \<open>Session_Agreement\<close> for one store in place of the other;
  \<^item> \<^verbatim>\<open>gateway/internal/tenant/\<close>: \<open>Tenant_Router\<close> and \<open>Tenant_Dispatch\<close>;
  \<^item> \<^verbatim>\<open>gateway/internal/adapter/\<close>: \<open>Telco_Adapter\<close> (the interface and the registry), \<open>Trusted_Proxy\<close> (the
    allowlist), \<open>Africas_Talking\<close> and \<open>Simulator\<close>;
  \<^item> \<^verbatim>\<open>gateway/internal/httpx/inbound.go\<close>: \<open>Inbound\<close> (one turn, and the endpoint around it), with
    \<open>Inbound_Isolation\<close> for histories of turns \<open>Inbound_Concurrent\<close> for turns served in parallel and
    \<open>Retries\<close> for what a network's retries do;
  \<^item> \<^verbatim>\<open>gateway/internal/config/\<close> and \<^verbatim>\<open>gateway/cmd/gateway/\<close>: \<open>Gateway_Config\<close>, \<open>Gateway_Main\<close> (the store, the
    guarded adapters, the endpoints) and \<open>Gateway_Process\<close> (its handler, and the process until it has ended);
  \<^item> \<^verbatim>\<open>adapters/fediverse/\<close>: \<open>Fediverse_Text\<close> (the timeline and its posts), \<open>Fediverse_Valid\<close> (that
    their texts stay valid UTF-8), \<open>Fediverse_App\<close> (the screens),
    \<open>Fediverse_Layout\<close> (how a post uses the screen), \<open>Fediverse_Main\<close> (settings, start and endpoints of the
    process);
  \<^item> \<^verbatim>\<open>cmd/ussdsim/\<close>: \<open>Ussdsim\<close>.

  \<open>Gateway_Sdk\<close> joins the gateway with an application and \<open>Handset_Gateway\<close> the handset with the gateway;
  \<open>Deviations\<close> collects where the code does not do what
  its comments say; \<open>Samples\<close>, \<open>Samples_Sdk\<close> and \<open>Samples_Gateway\<close> hold the concrete values on which the
  properties below are shown to apply.

  \<^bold>\<open>State and operations.\<close>  A Go struct is a record, a set of errors a datatype with one constructor for each
  return, and an operation with a receiver a function of the record that returns it changed.  The session
  store of the gateway is a record of three functions on a type of stores; the locale \<open>session_store\<close> states
  what they promise, and \<open>memory\<close> interprets it on the in-process store.  The locale extends the weaker
  \<open>session_history\<close>, that a store gives back nothing which was not saved under the key: it is what isolation
  needs, and what Redis keeps although commands may fail (\<open>redis_history\<close>).  Adapters are records of the methods
  of the Go interface under the locale \<open>telco_adapter\<close>, interpreted as \<open>africastalking\<close> and \<open>simulator\<close>.  The
  searches for the longest part of a text that fits rest on the locales \<open>size_budget\<close> and \<open>text_budget\<close>.  A
  function value of the code (a screen's callbacks, a client) is a function; what a callback assigns to its
  context is the context it returns.

  \<^bold>\<open>What the lemmas show.\<close>  Sessions: tenants are isolated, turns are counted, state is carried on and dropped at
  the end, the sweep cannot be observed; turns in parallel are turns in sequence while a session has one
  request at a time, while a retry that overlaps its turn loses an update; replicas over Redis keep tenants apart, and one
  gateway over Redis behaves as over its own memory.  Endpoint: a callback that parses always gets a screen, one from
  outside the allowlist changes nothing, and the process as it is assembled mounts no endpoint without its
  allowlist, and releases its store when it ends.  Routing: the longest prefix wins, whatever the order of the configuration.  Webhook: what is sent
  verifies, signatures bind time and body, replays are bounded.  Texts: pages and menus fit, lose nothing and
  keep the way out.  Applications: a dialogue never loses its place and the fediverse application always
  answers.  Composition: a conversation over gateway, webhook and store shows exactly the screens of the
  application run on its own, and so does the handset that talks to that gateway.

  \<^bold>\<open>Bounds and termination.\<close>  All recursions are structural or by a measure, but for two.  The loop of the handset
  that cuts a long line is a partial function, since it would not end on a display without a width; it is
  shown to return for every positive one.  The parser of IPv6 groups has fuel for eight groups, the most an
  address has.  Go's \<^verbatim>\<open>int\<close> is a mathematical integer where the code counts bytes, runes or turns, and parsing
  of numbers keeps its range of 64 bits.

  \<^bold>\<open>Parameters.\<close>  Code that is not in the repository is an argument: HMAC, the JSON and YAML codecs, the scheme
  of a parsed URL, the HTTP clients, the Redis client, the order in which the runtime visits a map, the tables
  of lower case and printable runes, HTML entities and RFC 3339 times.  The laws assumed of them are
  \<open>map_order\<close>, \<open>redis_laws\<close> and \<open>redis_safe\<close> for Redis, \<open>codec_reads_back\<close> for what comes back from it, where
  strings are coerced to valid UTF-8 and a state may come back in another form, \<open>keeps_screens\<close> and
  \<open>codec_keeps\<close> for the codec of a dialogue's state, \<open>reads_utf8\<close> for the decoder of an instance's replies,
  \<open>redis_up\<close> and \<open>written_exactly\<close> for a server that answers and a
  codec that loses nothing of the sessions of a history, \<open>connected\<close> and \<open>codecs_agree\<close> for the wire between
  gateway and application, and \<open>dials\<close>, \<open>speaks_request\<close> and \<open>speaks_screen\<close> for the one between handset and
  gateway; each is shown to hold of a concrete instance.  The wire is a function of the request at one instant:
  every turn of a conversation brings its own clocks and its own wire.

  \<^bold>\<open>Not modelled.\<close>  Logging; errors while a response is written; cancellation and timeouts, except that a client
  may fail; connection pools; the ticker that schedules the sweep (a sweep may run at any instant); mutexes
  (a single operation of a store is atomic, as the code locks it; turns interleave between the operations);
  the parsing of flags, the arrival of signals and the inside of the HTTP server, that is its timeouts, its
  shutdown and the redirection of paths that are not in their shortest form: what happens while the gateway
  listens is an argument of \<open>main_run\<close>.
  A callback that makes its context point to another state object, instead of changing the one it points
  to, is outside the model.  The age of a post in days is the exact quotient and not that of \<^verbatim>\<open>float64\<close>,
  and the ages of the posts of one timeline are taken at one instant, where the code reads the clock for each.
\<close>

section \<open>Dialogues across turns\<close>

text \<open>
  C1: tenant isolation.  In any history of turns on the in-process store, the state a tenant is given
  is one that an earlier reply of the same tenant returned, for the same session and subscriber.
\<close>

theorem tenant_isolation:
  assumes "map_order order" "NewRouter url order tenants = Inr router"
    "handle_run memory_store router turns (NewMemory opts) = (exs, m)"
    "n < length exs" "rq_State (ex_Request (snd (exs ! n))) = Some st"
  shows "\<exists>k < n. kept (exs ! k) =
    Some (Key_String (event_key (fst (exs ! n))), ev_MSISDN (fst (exs ! n)), tn_Name (ex_Tenant (snd (exs ! n))), st)"
  using memory.history.run_isolated [OF memory_session_inv [of "{}"] named_routes_NewRouter [OF assms(1,2)]] assms(3-5)
  by (simp add: memory_store_def)

theorem tenant_isolation_witness:
  "\<exists>k < 1. kept (fst (handle_run memory_store sample_router sample_turns (NewMemory [])) ! k) =
     Some (''n:s'', ''+1'', ''a'', ''7'')"
  using tenant_isolation [OF map_order_sample sample_NewRouter prod.collapse [symmetric], where turns = sample_turns and opts = "[]" and n = 1 and st = "''7''"]
  by (simp add: sample_run) (simp add: sample_exchange_def sample_key Key_String_def sample_root_def)

text \<open>
  C11: a session continues.  The turn after an answered one that kept the session open, within the
  lifetime, counts one more and carries the state of the reply; another tenant starts from nothing.
\<close>

theorem session_continues:
  assumes "map_order order" "NewRouter url order tenants = Inr router"
    "handle_run memory_store router before (NewMemory opts) = (exs, m)"
    "handle memory_store router d i ev m = (Inr resp, m', Some x)" "\<not> resp_EndSession resp"
    "ex_Result x = Inr reply"
    "handle memory_store router d' i' ev' m' = (result, m'', Some y)"
    "event_key ev' = event_key ev" "ev_MSISDN ev' = ev_MSISDN ev" "Key_Validate (event_key ev) = None"
    "at_Load i' < at_Save i + mem_ttl m"
  shows "rq_Turn (ex_Request y) = (if tn_Name (ex_Tenant y) = tn_Name (ex_Tenant x) then rq_Turn (ex_Request x) + 1 else 1)
    \<and> rq_State (ex_Request y) =
      (if tn_Name (ex_Tenant y) \<noteq> tn_Name (ex_Tenant x) \<or> rp_ClearState reply then None
       else if rp_State reply \<noteq> None then rp_State reply else rq_State (ex_Request x))"
proof -
  from memory.history.run_inv [OF memory_session_inv [of "{}"] named_routes_NewRouter [OF assms(1,2)]
      assms(3) [unfolded memory_store_def]]
  obtain past where "memory.history.session_inv past m" ..
  from memory.turn_continues [OF this named_routes_NewRouter [OF assms(1,2)]] assms(4-) show ?thesis
    unfolding memory_store_def by blast
qed

theorem session_continues_witness:
  "rq_Turn (ex_Request (sample_exchange [''1''] 2 (Some ''7''))) =
     rq_Turn (ex_Request (sample_exchange [] 1 None)) + 1 \<and>
   rq_State (ex_Request (sample_exchange [''1''] 2 (Some ''7''))) = Some ''7''"
proof -
  obtain m'' where second: "handle memory_store sample_router sample_dispatcher sample_instants (sample_event [''1'']) sample_saved =
      (Inr (Continue ''hi''), m'', Some (sample_exchange [''1''] 2 (Some ''7'')))"
    using sample_second by blast
  show ?thesis
    using session_continues [OF map_order_sample sample_NewRouter, where before = "[]" and opts = "[]",
        OF _ sample_first _ _ second]
    by (simp add: sample_key NewMemory_def DefaultTTL_def Key_Validate_def sample_instants_def sample_exchange_def)
qed

text \<open>
  C38: an ended session is gone.  After a reply that ends the session, or a terminal event of the network,
  the next event of the session starts at turn one without state.
\<close>

theorem ended_session_is_fresh:
  assumes "handle memory_store router d i ev m = (Inr resp, m', ex)"
    "Phase_Terminal (ev_Phase ev) \<or> resp_EndSession resp"
    "handle memory_store router d' i' ev' m' = (result, m'', Some y)"
    "event_key ev' = event_key ev" "Key_Validate (event_key ev) = None"
  shows "rq_Turn (ex_Request y) = 1 \<and> rq_State (ex_Request y) = None"
  using memory.turn_after_end [of router d i ev m resp m' ex d' i' ev'] assms
  unfolding memory_store_def by (simp add: Memory_Delete_def)

theorem ended_session_is_fresh_witness: "rq_Turn (ex_Request (sample_exchange [] 1 None)) = 1"
proof -
  have "handle memory_store sample_router sample_dispatcher sample_instants ((sample_event [])\<lparr>ev_Phase := PhaseCancel\<rparr>) (NewMemory []) =
      (Inr empty_Response, NewMemory [], None)"
    using delete_empty_Mapping by (simp add: handle_def Let_def memory_store_def Memory_Delete_def NewMemory_def)
  from ended_session_is_fresh [OF this _ sample_first] show ?thesis
    by (simp add: sample_key event_key_def Key_Validate_def) (simp add: sample_event_def)
qed

section \<open>Requests in parallel\<close>

text \<open>
  C4: parallel turns are turns.  While the network sends one request at a time for a session, whatever turns
  of other sessions begin and finish in between, the exchanges and the store of the gateway are those of the
  same turns handled one after another, each at the moment it finished; and every such history can occur.
\<close>

theorem turns_serializable:
  assumes "map_order order" "NewRouter url order tenants = Inr router"
  shows "(\<forall>w. interleaved True memory_store router (NewMemory opts) w \<longrightarrow>
      (\<exists>turns. handle_run memory_store router turns (NewMemory opts) = (wd_Log w, wd_Store w))) \<and>
    (\<forall>turns log m. handle_run memory_store router turns (NewMemory opts) = (log, m) \<longrightarrow>
      interleaved True memory_store router (NewMemory opts) \<lparr>wd_Store = m, wd_Pending = [], wd_Log = log\<rparr>)"
  using memory.interleaved_sequential [OF _ memory_session_inv named_routes_NewRouter [OF assms], of opts]
    sequential_interleaved [of memory_store router _ "NewMemory opts"]
  unfolding memory_store_def by blast

theorem turns_serializable_witness:
  "\<exists>w. interleaved True memory_store sample_router (NewMemory []) w \<and> length (wd_Log w) = 2"
proof -
  obtain log m where run: "handle_run memory_store sample_router sample_turns (NewMemory []) = (log, m)" by force
  then have "length log = 2" using sample_run by (metis fst_conv length_Cons list.size(3) numeral_2_eq_2)
  with turns_serializable [OF map_order_sample sample_NewRouter, of "[]"] run show ?thesis
    by (intro exI [of _ "\<lparr>wd_Store = m, wd_Pending = [], wd_Log = log\<rparr>"]) simp
qed

text \<open>
  C10: what a retry during a turn does.  Two callbacks of one session whose turns overlap both reach the tenant,
  with the same turn number and the same state; and the session that is left counts one turn only and keeps
  nothing of the reply that came first.
\<close>

theorem overlapping_turns:
  assumes "map_order order" "NewRouter url order tenants = Inr router"
    "handle_run memory_store router before (NewMemory opts) = (log, m)"
    "turn_begin memory_store router i ev m = Some p" "turn_begin memory_store router i' ev' m = Some p'"
    "turn_finish memory_store d p m = (r, m1, x)" "turn_finish memory_store d' p' m1 = (Inr resp, m2, x')"
    "ex_Result x' = Inr reply" "\<not> resp_EndSession resp"
    "event_key ev' = event_key ev" "ev_MSISDN ev' = ev_MSISDN ev" "pd_Tenant p' = pd_Tenant p"
    "Memory_Load (at_Load i') (event_key ev) m = Memory_Load (at_Load i) (event_key ev) m"
    "Key_Validate (event_key ev) = None" "t < at_Save i' + mem_ttl m"
  shows "interleaved False memory_store router (NewMemory opts)
      \<lparr>wd_Store = m2, wd_Pending = [], wd_Log = log @ [(pd_Event p, x), (pd_Event p', x')]\<rparr>
    \<and> rq_Turn (ex_Request x') = rq_Turn (ex_Request x) \<and> rq_State (ex_Request x') = rq_State (ex_Request x)
    \<and> (\<exists>sess. Memory_Load t (event_key ev) m2 = Inr sess \<and> se_Turn sess = rq_Turn (ex_Request x) \<and>
         se_State sess = (if rp_ClearState reply then None
           else if rp_State reply \<noteq> None then rp_State reply else rq_State (ex_Request x)))"
proof -
  note run = assms(3-15) [unfolded memory_store_def]
  have names: "named_routes router" by (rule named_routes_NewRouter [OF assms(1,2)])
  from memory.history.run_inv [OF memory_session_inv [of "{}"] names run(1)]
  obtain past where inv: "memory.history.session_inv past m" ..
  have "interleaved False memory_store router (NewMemory opts)
      \<lparr>wd_Store = m2, wd_Pending = [], wd_Log = log @ [(pd_Event p, x), (pd_Event p', x')]\<rparr>"
    by (rule overlapping_world [OF sequential_interleaved [OF assms(3)] assms(4-7)])
  with memory.overlapping_lost [OF inv names run(2-13)] show ?thesis by blast
qed

theorem overlapping_turns_witness:
  "\<exists>m. interleaved False memory_store sample_router (NewMemory [])
     \<lparr>wd_Store = m, wd_Pending = [],
      wd_Log = [(sample_event [], sample_exchange [] 1 None), (sample_event [], sample_exchange [] 1 None)]\<rparr>"
proof -
  obtain m1 m2 where
    fin: "turn_finish memory_store sample_dispatcher sample_pending (NewMemory []) = (Inr (Continue ''hi''), m1, sample_exchange [] 1 None)"
      "turn_finish memory_store sample_dispatcher sample_pending m1 = (Inr (Continue ''hi''), m2, sample_exchange [] 1 None)"
    using sample_finish by meson
  have "handle_run memory_store sample_router [] (NewMemory []) = ([], NewMemory [])" by simp
  from overlapping_turns [OF map_order_sample sample_NewRouter this sample_begin sample_begin fin, where t = "-1" and reply = sample_reply]
  have "interleaved False memory_store sample_router (NewMemory [])
      \<lparr>wd_Store = m2, wd_Pending = [], wd_Log = [(sample_event [], sample_exchange [] 1 None), (sample_event [], sample_exchange [] 1 None)]\<rparr>"
    by (simp add: sample_key Key_Validate_def sample_instants_def sample_exchange_def sample_pending_def
        Continue_def NewMemory_def DefaultTTL_def Second_def)
  then show ?thesis ..
qed

text \<open>
  C8: isolation across replicas.  Any number of gateways may share one Redis server, their turns interleaved in
  any way, commands failing with or without effect, sessions expiring at any time: the state a tenant is given
  is one that an earlier reply of the same tenant returned, up to the form in which the JSON codec writes it, for
  the same session and subscriber as far as JSON tells them apart.  It does not tell bytes that are no UTF-8 from
  U+FFFD, so a valid id and number are equal to those of that reply if they are valid there.  The names of the
  tenants are UTF-8, as every text of a YAML file is.
\<close>

theorem replicas_isolated:
  assumes "redis_safe (rd_client r)" "codec_reads_back j norm" "map_order order" "NewRouter url order tenants = Inr router"
    "list_all (\<lambda>t. valid_utf8 (tn_Name t)) tenants"
    "\<And>t k x. Redis_Load j r t k s0 \<noteq> Inr x" "interleaved alternating (redis_store j r) router s0 w"
    "n < length (wd_Log w)" "rq_State (ex_Request (snd (wd_Log w ! n))) = Some st"
  shows "\<exists>k < n. \<exists>key msisdn st0.
    kept (wd_Log w ! k) = Some (key, msisdn, tn_Name (ex_Tenant (snd (wd_Log w ! n))), st0) \<and>
    utf8_coerced key = utf8_coerced (Key_String (event_key (fst (wd_Log w ! n)))) \<and>
    utf8_coerced msisdn = utf8_coerced (ev_MSISDN (fst (wd_Log w ! n))) \<and> norm st0 = norm st"
proof (rule redis_isolated [OF assms(1,2,6) named_routes_NewRouter [OF assms(3,4)] _ assms(7-9)])
  show "valid_utf8 (tn_Name t)" if "routes_to router t" for t
    using that assms(5) Route_Inr [OF assms(3,4)] by (auto simp: routes_to_def answers_def list_all_iff)
qed

theorem replicas_isolated_witness:
  "\<exists>k < 1. \<exists>key msisdn st0.
     kept (fst (handle_run (redis_store sample_json sample_redis) sample_router sample_turns Map.empty) ! k) =
       Some (key, msisdn, ''a'', st0) \<and>
     utf8_coerced key = ''n:s'' \<and> utf8_coerced msisdn = ''+1'' \<and> st0 = ''7''"
proof -
  let ?store = "redis_store sample_json sample_redis"
  obtain log s where run: "handle_run ?store sample_router sample_turns Map.empty = (log, s)" by force
  then have log: "log = [(sample_event [], sample_exchange [] 1 None), (sample_event [''1''], sample_exchange [''1''] 2 (Some ''7''))]"
    using sample_redis_run by simp
  have world: "interleaved False ?store sample_router Map.empty \<lparr>wd_Store = s, wd_Pending = [], wd_Log = log\<rparr>"
    by (rule sequential_interleaved [OF run])
  have safe: "redis_safe (rd_client sample_redis)" using sample_redis_safe by (simp add: sample_redis_simps)
  have names: "list_all (\<lambda>t. valid_utf8 (tn_Name t)) [sample_root, sample_shop]"
    by (simp add: sample_root_def sample_shop_def valid_ascii)
  from replicas_isolated [OF safe sample_codec_reads_back map_order_sample sample_NewRouter names sample_redis_empty world, of 1 "''7''"]
  show ?thesis
    by (simp add: run log) (simp add: sample_exchange_def sample_key Key_String_def sample_root_def utf8_coerced_ascii)
qed

text \<open>
  C9: Redis in place of memory.  While the server answers and the codec loses nothing of the sessions of a
  history, a gateway on Redis gives the networks the same answers, and sends the tenants the same requests, as
  one that keeps its sessions in the process with the same lifetime.
\<close>

theorem redis_replaces_memory:
  assumes "redis_laws (rd_client r)" "redis_up (rd_client r)" "\<And>t k. rc_Get (rd_client r) t k s = Inl RedisNil"
    "rd_ttl r = ttl" "0 < ttl"
    "\<And>n t k y. Memory_Load t k (snd (handle_run memory_store router (take n turns) (NewMemory [WithTTL ttl]))) = Inr y \<Longrightarrow>
      written_exactly j y"
  shows "run_answers (redis_store j r) router turns s = run_answers memory_store router turns (NewMemory [WithTTL ttl])
    \<and> fst (handle_run (redis_store j r) router turns s) = fst (handle_run memory_store router turns (NewMemory [WithTTL ttl]))"
proof -
  have "mem_ttl (NewMemory [WithTTL ttl]) = ttl" by (simp add: NewMemory_def)
  then show ?thesis
    using agrees_run [OF agrees_empty [OF assms(3)] assms(1,2) _ _ assms(6)] assms(4,5) by simp
qed

theorem redis_replaces_memory_witness:
  "fst (handle_run (redis_store sample_json (NewRedisWithClient sample_client [WithRedisTTL DefaultTTL])) sample_router
      [hd sample_turns] Map.empty) = [(sample_event [], sample_exchange [] 1 None)]"
proof -
  let ?r = "NewRedisWithClient sample_client [WithRedisTTL DefaultTTL]"
  have r: "rd_client ?r = sample_client" "rd_ttl ?r = DefaultTTL" by (simp_all add: NewRedisWithClient_def)
  have m: "NewMemory [WithTTL DefaultTTL] = NewMemory []" by (simp add: NewMemory_def)
  have empty: "rc_Get sample_client t k Map.empty = Inl RedisNil" for t k by (simp add: sample_client_def)
  have "0 < DefaultTTL" by (simp add: DefaultTTL_def)
  from redis_replaces_memory [where r = ?r and j = sample_json and router = sample_router and turns = "[hd sample_turns]"
      and s = Map.empty and ttl = DefaultTTL, unfolded r m, OF sample_redis_laws sample_redis_up empty refl this sample_exact]
  show ?thesis by (simp add: sample_turns_def sample_first)
qed

section \<open>The gateway and an application\<close>

text \<open>
  C2: the gateway runs the application.  However the store came to be, from a point where the subscriber has
  no session, a conversation that the network, the codecs and the clocks carry shows the subscriber exactly
  the screens of the application run on its own, each turn with the state the last one returned: routing,
  signing, delivery, the reply and the session store together add nothing and lose nothing.  Every turn has its
  own instants, on the clock of the gateway and on that of the application, and its own wire between them.
\<close>

theorem gateway_runs_application:
  assumes "map_order order" "NewRouter url order tenants = Inr router"
    "handle_run memory_store router turns (NewMemory opts) = (exs, m)"
    "\<And>now sess. Memory_Load now k m \<noteq> Inr sess" "Key_Validate k = None"
    "carried lb h t router k msisdn (mem_ttl m) None 1 None steps"
  shows "\<exists>resps. gateway_run memory_store router steps m = map Inr resps \<and>
    app_run lb (hd_app h) (map (\<lambda>(_, _, _, ev). routed_to t ev) steps) 1 None = map Inr resps"
proof -
  note names = named_routes_NewRouter [OF assms(1,2)]
  from memory.history.run_inv [OF memory_session_inv [of "{}"] names assms(3) [unfolded memory_store_def]]
  obtain past where inv: "memory.history.session_inv past m" ..
  have "memory.live now m k = None" for now
    using assms(4) [of now] by (auto simp: memory.live_def split: sum.split)
  then have "memory.place m t k msisdn None 1 None" by (rule memory.place_none)
  from memory.conversation [OF inv names memory_reliable this assms(5,6)] show ?thesis
    by (simp add: memory_store_def)
qed

theorem gateway_runs_application_witness:
  "gateway_run memory_store sample_router (hello_steps (sample_event []) [] []) (NewMemory []) =
     [Inr (Continue ''hi''), Inr (End ''hi'')]"
proof -
  let ?b = "sample_event []"
  have valid: "Key_Validate (event_key ?b) = None" and short: "ev_Shortcode ?b = ''*1#''"
    using sample_session_valid by (simp_all add: sample_key sample_session_key_def) (simp add: sample_event_def)
  have carried: "carried (hello_libraries ?b) hello_handler sample_root sample_router (event_key ?b) (ev_MSISDN ?b)
      (mem_ttl (NewMemory [])) None 1 None (hello_steps ?b [] [])"
    using hello_carried [OF short] by (simp add: NewMemory_def)
  from gateway_runs_application [where turns = "[]", OF map_order_sample sample_NewRouter handle_run.simps(1) call_fresh valid carried]
    hello_run [of ?b "[]" "[]"] show ?thesis by (auto simp: map_eq_Cons_conv)
qed

text \<open>
  C3: no endpoint stands open.  In a gateway that starts, the endpoint of Africa's Talking, whose callbacks
  carry no credentials, has a configured allowlist that is not empty, and a request whose client it does not
  hold, or whose client cannot be told, is answered 403 with no session touched and no tenant called.
\<close>

theorem no_open_endpoint:
  assumes "assemble order url connect (available decode encode) loaded s0 = Inr (backend, router, reg)"
    "mounted order reg (''/ussd/'' @ AT_Name) = Some a"
  shows "\<exists>cfg ac allowed forwarders. loaded = Inr cfg \<and> Mapping.lookup (cf_Adapters cfg) AT_Name = Some ac \<and>
    ac_AllowedSources ac \<noteq> [] \<and> ParsePrefixes (ac_AllowedSources ac) = Inr allowed \<and>
    ParsePrefixes (ac_TrustedForwarders ac) = Inr forwarders \<and>
    ((\<forall>addr. clientAddr \<lparr>tp_Adapter = AT_Adapter, tp_Allowed = allowed, tp_Forwarders = forwarders\<rparr> r = Some addr \<longrightarrow>
        \<not> containsAddr allowed addr) \<longrightarrow>
     (\<exists>w. ServeHTTP a store router d i reqID r s = (w, s, None) \<and> hw_Status w = Some 403))"
proof -
  from assemble_Inr [OF assms(1)] obtain cfg where cfg: "loaded = Inr cfg" "newRegistry order (available decode encode) cfg = Inr reg" .
  have "Lookup reg AT_Name = Some a" using mounted_Lookup [OF assms(2)] by auto
  note guarded = newRegistry_guarded [OF cfg(2) this]
  obtain ac allowed forwarders where
    ac: "Mapping.lookup (cf_Adapters cfg) AT_Name = Some ac" "ac_AllowedSources ac \<noteq> []"
      "ParsePrefixes (ac_AllowedSources ac) = Inr allowed" "ParsePrefixes (ac_TrustedForwarders ac) = Inr forwarders"
    and a: "a = TrustedProxy_Adapter \<lparr>tp_Adapter = AT_Adapter, tp_Allowed = allowed, tp_Forwarders = forwarders\<rparr>"
    by (rule guarded_allowlist [OF guarded available_AT AT_needs_allowlist])
  let ?t = "\<lparr>tp_Adapter = AT_Adapter, tp_Allowed = allowed, tp_Forwarders = forwarders\<rparr>"
  have "\<exists>w. ServeHTTP a store router d i reqID r s = (w, s, None) \<and> hw_Status w = Some 403"
    if "\<forall>addr. clientAddr ?t r = Some addr \<longrightarrow> \<not> containsAddr allowed addr"
  proof -
    have "TrustedProxy_Verify ?t r \<noteq> None" using that by (simp add: TrustedProxy_Verify_None)
    then have "ad_Verify a r \<noteq> None" by (simp add: a TrustedProxy_Adapter_def)
    then show ?thesis by (simp add: ServeHTTP_rejected)
  qed
  with cfg(1) ac show ?thesis by blast
qed

theorem no_open_endpoint_witness:
  "\<exists>w. ServeHTTP sample_guarded memory_store sample_router sample_dispatcher sample_instants ''i''
     ((sample_request ''x'')\<lparr>hr_RemoteAddr := []\<rparr>) sample_saved = (w, sample_saved, None) \<and> hw_Status w = Some 403"
proof -
  have "peerAddr ((sample_request ''x'')\<lparr>hr_RemoteAddr := []\<rparr>) = None" by code_simp
  then have "clientAddr \<lparr>tp_Adapter = AT_Adapter, tp_Allowed = al, tp_Forwarders = fw\<rparr> ((sample_request ''x'')\<lparr>hr_RemoteAddr := []\<rparr>) \<noteq> Some addr"
    for al fw addr by (simp add: clientAddr_def)
  then show ?thesis
    using no_open_endpoint [OF sample_assemble [unfolded sample_available_def] sample_mounted,
        where r = "(sample_request ''x'')\<lparr>hr_RemoteAddr := []\<rparr>" and store = memory_store and d = sample_dispatcher
          and i = sample_instants and reqID = "''i''" and s = sample_saved]
    by auto
qed

text \<open>
  C32: only well-formed events reach the sessions.  Whatever request the assembled gateway is sent, on whatever
  path: when it changes the sessions or calls a tenant, the path is an endpoint whose adapter let the request
  in and read from it a well-formed event of the network the path names, and the answer is 200.
\<close>

theorem only_wellformed_events:
  assumes "newRegistry order (available decode encode) cfg = Inr reg"
    "gateway_ServeHTTP order report reg store router d i reqID path r s = (w, s', ex)" "s' \<noteq> s \<or> ex \<noteq> None"
  shows "\<exists>a ev. mounted order reg path = Some a \<and> ad_Verify a r = None \<and> ad_Parse a (at_Load i) r = Inr ev \<and> wf_event ev \<and>
    path = ''/ussd/'' @ ev_MNO ev \<and> hw_Status w = Some 200"
  by (rule gateway_served [OF assms])

theorem only_wellformed_events_witness:
  "\<exists>ev. AT_Parse 0 (sample_request sample_form) = Inr ev \<and> wf_event ev"
proof -
  let ?path = "''/ussd/'' @ AT_Name"
  let ?serve = "gateway_ServeHTTP sample_order (\<lambda>_. []) sample_registry memory_store sample_router sample_dispatcher sample_instants ''i''
    ?path (sample_request sample_form) sample_saved"
  obtain w s' ex where serve: "?serve = (w, s', ex)" by (rule prod_cases3)
  have "?serve = ServeHTTP sample_guarded memory_store sample_router sample_dispatcher sample_instants ''i'' (sample_request sample_form) sample_saved"
    unfolding gateway_ServeHTTP_def sample_mounted by simp
  then have "ex \<noteq> None" using sample_served serve by simp
  with only_wellformed_events [OF sample_newRegistry [unfolded sample_available_def] serve] show ?thesis
    unfolding sample_mounted by (auto simp: sample_guarded_def TrustedProxy_Adapter_def AT_Adapter_def sample_instants_def)
qed

section \<open>Dialogues of an application\<close>

text \<open>
  C17: a dialogue keeps its place.  Whatever turns led to a stored state, it names a screen of the application
  that takes input; a turn from it shows a screen that fits and stores state exactly while the dialogue is
  open, or fails by what a callback of the application did: its handler or a prompt failed, its handler went to a
  screen that was never declared, or the state it left cannot be encoded.  It never fails because the screen of
  the stored state is gone, or because a screen has no prompt.
\<close>

theorem dialogue_keeps_place:
  assumes "NewApp start screens = Inr base" "a = base\<lparr>ap_bundle := bndl, ap_DefaultLang := lang\<rparr>"
    "takes_input a (ap_start a)" "keeps_screens cd a" "stored_state lower cd a stored"
  shows "takes_input a (sa_Screen (restored cd a stored)) \<and>
    (case Turn lower cd a ev turn stored of
       Inr (resp, out) \<Rightarrow> FitsScreen (resp_Body resp) \<and> (out = None \<longleftrightarrow> resp_EndSession resp)
     | Inl err \<Rightarrow> (\<exists>e. err = HandleFailed e) \<or> (\<exists>n m. err = UnknownScreen n m \<and> Mapping.lookup (ap_screens a) m = None) \<or>
         (\<exists>n e. err = RenderFailed n e) \<or> (\<exists>e. err = EncodingState e))"
proof -
  have wf: "wf_app a" unfolding assms(2) by (rule wf_app_NewApp [OF assms(1)])
  note turn = dialogue_turn [OF assms(5) wf assms(3,4), of ev turn]
  show ?thesis
  proof (cases "Turn lower cd a ev turn stored")
    case (Inl err)
    then show ?thesis using turn(2) [OF Inl] stored_state_takes_input [OF assms(5) wf assms(3,4)] by simp
  next
    case (Inr answer)
    obtain resp out where "answer = (resp, out)" by force
    with Inr turn(1) Turn_state_open [of lower cd a ev turn stored resp out] show ?thesis
      using stored_state_takes_input [OF assms(5) wf assms(3,4)] by simp
  qed
qed

theorem dialogue_keeps_place_witness: "takes_input hello_app (sa_Screen (restored hello_codec hello_app (Some ''7'')))"
proof -
  have same: "hello_app = hello_app\<lparr>ap_bundle := None, ap_DefaultLang := DefaultLang\<rparr>" by (simp add: hello_app_def)
  have "stored_state (\<lambda>r. r) hello_codec hello_app (Some ''7'')"
    by (rule stored_turn [OF stored_none hello_turns(1)])
  from dialogue_keeps_place [OF hello_NewApp same hello_wf(3) hello_keeps this] show ?thesis by blast
qed

text \<open>
  C26: what the application's handler lets in.  A request that is not a complete, signed POST of at most
  256 KiB that decodes to a known version is answered 405, 400, 413 or 403, and 403 when only the signature
  is wrong; the answer is the same whatever application stands behind.
\<close>

theorem handler_guards:
  assumes "admitted lb h now r = None"
  shows "\<exists>msg code. Handler_ServeHTTP lb h now r = http_Error msg code new_writer \<and> code \<in> {400, 403, 405, 413} \<and>
    (hr_Method r = ''POST'' \<longrightarrow> length (hr_Body r) \<le> maxRequestBytes \<longrightarrow> hr_BodyError r = None \<longrightarrow>
     Verify (lb_mac lb) (hr_Header r) (hd_secret h) (hr_Body r) now DefaultTolerance \<noteq> None \<longrightarrow> code = 403) \<and>
    Handler_ServeHTTP lb (h\<lparr>hd_app := other\<rparr>) now r = http_Error msg code new_writer"
  using ServeHTTP_refused [OF assms] refused_app [OF assms, of other] by metis

theorem handler_guards_witness:
  "\<exists>msg code. Handler_ServeHTTP (hello_libraries (sample_event [])) hello_handler 0 ((sample_request [])\<lparr>hr_Method := ''GET''\<rparr>) =
     http_Error msg code new_writer"
proof -
  have "admitted (hello_libraries (sample_event [])) hello_handler 0 ((sample_request [])\<lparr>hr_Method := ''GET''\<rparr>) = None"
    by (simp add: admitted_def)
  from handler_guards [OF this] show ?thesis by blast
qed

section \<open>The endpoint\<close>

text \<open>
  C13: the allowlist guards the sessions.  A callback whose client address is not allowed, or cannot be
  read, is answered 403 behind the trusted proxy: no session is touched and no tenant is called.
\<close>

theorem allowlist_guards_sessions:
  assumes "\<And>addr. clientAddr t r = Some addr \<Longrightarrow> \<not> containsAddr (tp_Allowed t) addr"
  shows "\<exists>w. ServeHTTP (TrustedProxy_Adapter t) store router d i reqID r s = (w, s, None) \<and> hw_Status w = Some 403"
proof -
  have "TrustedProxy_Verify t r \<noteq> None" using assms by (auto simp: TrustedProxy_Verify_None)
  then have "ad_Verify (TrustedProxy_Adapter t) r \<noteq> None" by (simp add: TrustedProxy_Adapter_def)
  then show ?thesis by (simp add: ServeHTTP_rejected)
qed

theorem allowlist_guards_sessions_witness:
  "\<exists>w. ServeHTTP (TrustedProxy_Adapter \<lparr>tp_Adapter = AT_Adapter, tp_Allowed = [], tp_Forwarders = []\<rparr>)
     memory_store sample_router sample_dispatcher sample_instants ''i'' (sample_request ''x'') sample_saved =
       (w, sample_saved, None) \<and> hw_Status w = Some 403"
  by (rule allowlist_guards_sessions) simp

text \<open>
  C5: a subscriber always gets a screen.  Whatever the tenant or the store does, a callback that parses
  is answered 200 with \<open>CON\<close> or \<open>END\<close> and a body that fits the screen.
\<close>

theorem always_a_screen:
  assumes "AT_Parse (at_Load i) r = Inr ev"
  shows "\<exists>resp :: Response. FitsScreen (resp_Body resp) \<and>
    hw_Status (fst (ServeHTTP AT_Adapter store router d i reqID r s)) = Some 200 \<and>
    hw_Body (fst (ServeHTTP AT_Adapter store router d i reqID r s)) =
      (if resp_EndSession resp then ''END '' else ''CON '') @ resp_Body resp"
proof -
  have at: "ad_Verify AT_Adapter r = None" "ad_Parse AT_Adapter (at_Load i) r = Inr ev" "ad_Render AT_Adapter = AT_Render"
    using assms by (simp_all add: AT_Adapter_def)
  have "\<not> Phase_Terminal (ev_Phase ev)"
    using AT_Parse_Inr [OF assms] AT_event_not_terminal by blast
  with at have "fst (ServeHTTP AT_Adapter store router d i reqID r s) =
      snd (AT_Render (rendered (fst (handle store router d i ev s))) (set_header HeaderRequestID reqID new_writer))"
    by (simp add: ServeHTTP_parsed)
  with rendered_fits [of store router d i ev s] AT_Render_served show ?thesis
    by - (rule exI [of _ "rendered (fst (handle store router d i ev s))"], simp)
qed

theorem always_a_screen_witness:
  "hw_Status (fst (ServeHTTP AT_Adapter memory_store sample_router sample_dispatcher sample_instants ''i''
     (sample_request sample_form) sample_saved)) = Some 200"
proof -
  obtain ev where "AT_Parse (at_Load sample_instants) (sample_request sample_form) = Inr ev"
    using sample_form_parses by blast
  from always_a_screen [OF this, of memory_store sample_router sample_dispatcher "''i''" sample_saved]
  show ?thesis by blast
qed

section \<open>Routing\<close>

text \<open>
  C12: routing is correct.  An event goes to a tenant exactly when that tenant has the longest prefix of
  the dialled segments among those of the shortcode, and the event it gets has that prefix stripped.
\<close>

theorem route_longest_prefix:
  assumes "map_order order" "NewRouter url order tenants = Inr r"
  shows "Route r ev = Inr (t, routed) \<longleftrightarrow>
    answers tenants ev t \<and> routed = ev\<lparr>ev_Path := drop (length (tn_Prefix t)) (ev_Path ev)\<rparr>"
  by (rule Route_Inr [OF assms])

theorem route_longest_prefix_witness: "answers [sample_root, sample_shop] (sample_event [''2'', ''9'']) sample_shop"
  using route_longest_prefix [OF map_order_sample sample_NewRouter, of "sample_event [''2'', ''9'']"] sample_Route(3) by blast

text \<open>
  C24: the router accepts exactly the sound configurations: valid tenants, distinct names, distinct
  routes, and one tenant with an empty prefix on every shortcode.
\<close>

theorem router_accepts:
  "map_order order \<Longrightarrow> (\<exists>r. NewRouter url order tenants = Inr r) \<longleftrightarrow> wf_tenants url tenants"
  using NewRouter_Inr NewRouter_ok by blast

theorem router_accepts_witness: "wf_tenants sample_url [sample_root, sample_shop]"
  using router_accepts [OF map_order_sample, of sample_url "[sample_root, sample_shop]"] sample_NewRouter by blast

text \<open>
  C39: neither the order of the configuration nor the order in which the runtime visits its maps changes
  where an event goes.
\<close>

theorem route_order_independent:
  assumes "map_order order" "NewRouter url order tenants = Inr r"
    "map_order order'" "NewRouter url order' tenants' = Inr r'" "mset tenants = mset tenants'"
  shows "Route r ev = Route r' ev"
proof -
  have "set tenants = set tenants'" using assms(5) by (rule mset_eq_setD)
  then have same: "answers tenants ev t \<longleftrightarrow> answers tenants' ev t" for t by (simp add: answers_def)
  show ?thesis
  proof (cases "Route r ev")
    case (Inr tr)
    then show ?thesis
      using Route_Inr [OF assms(1,2), of ev] Route_Inr [OF assms(3,4), of ev] same by (cases tr) metis
  next
    case (Inl e)
    then obtain e' where "Route r' ev = Inl e'"
      using Route_Inl [OF assms(1,2), of ev] Route_Inl [OF assms(3,4), of ev] \<open>set tenants = set tenants'\<close> by metis
    with Inl show ?thesis using Route_error by metis
  qed
qed

theorem route_order_independent_witness:
  "\<exists>r. NewRouter sample_url sample_order [sample_shop, sample_root] = Inr r \<and>
     Route r (sample_event [''1'']) = Inr (sample_root, sample_event [''1''])"
proof -
  have "wf_tenants sample_url [sample_shop, sample_root]"
    using NewRouter_Inr [OF map_order_sample sample_NewRouter] wf_tenants_swap by blast
  then obtain r where r: "NewRouter sample_url sample_order [sample_shop, sample_root] = Inr r"
    using NewRouter_ok [OF map_order_sample] by blast
  then show ?thesis
    using route_order_independent [OF map_order_sample r map_order_sample sample_NewRouter, of "sample_event [''1'']"]
      sample_Route(2) by (simp add: add_mset_commute)
qed

section \<open>Signed deliveries\<close>

text \<open>
  C16: every delivery verifies.  Whatever request leaves the dispatcher, the tenant's check of it with its
  own secret succeeds while the two clocks agree within the tolerance, and the body that was signed is
  the event without the network's raw bytes.
\<close>

theorem deliveries_verify:
  assumes "Deliver d now t payload = (result, Some req)" "tn_Secret t \<noteq> []" "representable now"
    "\<bar>Time_Sub clock (now div Second * Second)\<bar> \<le> effective_tolerance tol"
  shows "Verify (dp_mac d) (ob_Header req) (tn_Secret t) (ob_Body req) clock tol = None \<and>
    dp_Marshal d (delivered_payload payload) = Inr (ob_Body req) \<and>
    rq_Version (delivered_payload payload) = ''1'' \<and> ev_Raw (rq_Event (delivered_payload payload)) = []"
proof -
  note sent = Deliver_sent [OF assms(1)]
  have "rq_Version (delivered_payload payload) = ''1'' \<and> ev_Raw (rq_Event (delivered_payload payload)) = []"
    by (simp add: delivered_payload_def Version_def)
  moreover have "ob_Header req = ob_Header (build_request d now t (ob_Body req))" using sent by metis
  ultimately show ?thesis using sent Verify_build_request [OF assms(2-4), of d "ob_Body req"] by auto
qed

theorem deliveries_verify_witness:
  "\<exists>req :: outbound. Verify (\<lambda>k m. m) (ob_Header req) ''k'' (ob_Body req) 0 0 = None"
proof -
  obtain req where "Deliver sample_dispatcher 0 sample_root (ex_Request (sample_exchange [] 1 None)) = (Inr sample_reply, Some req)"
    using sample_Deliver_sent by blast
  from deliveries_verify [OF this, of 0 0] show ?thesis
    by (simp add: representable_def Time_Sub_def MinDuration_def MaxDuration_def DefaultTolerance_def Second_def)
      (auto simp: sample_root_def sample_dispatcher_def)
qed

text \<open>
  C22: signatures bind.  If a request is accepted with the signature that was made for another time and
  body, then the code of the secret takes the same value on the two signed texts; and those are
  different texts unless time and body are the same.
\<close>

theorem signature_binds:
  assumes "Verify mac h secret body now tol = None" "Header_Get h HeaderSignature = Signature mac secret ts' body'"
  shows "\<exists>unix. ParseInt (Header_Get h HeaderTimestamp) = Some unix \<and>
    mac secret (signed_text unix body) = mac secret (signed_text (Unix_seconds ts') body') \<and>
    (signed_text unix body = signed_text (Unix_seconds ts') body' \<longleftrightarrow> unix = Unix_seconds ts' \<and> body = body')"
  using Verify_binds [OF assms] signed_text_inject by metis

theorem signature_binds_witness:
  "\<exists>unix. ParseInt (Header_Get (Sign (\<lambda>k m. m) Map.empty ''k'' 0 ''b'') HeaderTimestamp) = Some unix"
proof -
  have "Verify (\<lambda>k m. m) (Sign (\<lambda>k m. m) Map.empty ''k'' 0 ''b'') ''k'' ''b'' 0 0 = None"
    by (rule Verify_Sign) (simp_all add: representable_def Time_Sub_def MinDuration_def MaxDuration_def DefaultTolerance_def Second_def)
  from signature_binds [OF this Header_Get_Sign(2)] show ?thesis by blast
qed

text \<open>
  C30: replays are bounded.  The same signed request is accepted at two instants only if these are within
  twice the tolerance of each other.
\<close>

theorem replay_window:
  assumes "Verify mac h secret body now1 tol = None" "Verify mac h secret body now2 tol = None"
    "effective_tolerance tol < MaxDuration"
  shows "\<bar>now1 - now2\<bar> \<le> 2 * effective_tolerance tol"
proof -
  obtain unix where "\<bar>Time_Sub now1 (time_Unix unix)\<bar> \<le> effective_tolerance tol"
    "\<bar>Time_Sub now2 (time_Unix unix)\<bar> \<le> effective_tolerance tol"
    using assms(1,2) by (auto simp: Verify_None)
  moreover have "0 < effective_tolerance tol" by (simp add: DefaultTolerance_def)
  ultimately have "\<bar>now1 - time_Unix unix\<bar> \<le> effective_tolerance tol" "\<bar>now2 - time_Unix unix\<bar> \<le> effective_tolerance tol"
    by (simp_all only: Time_Sub_abs [OF _ assms(3)])
  then show ?thesis by linarith
qed

theorem replay_window_witness: "\<bar>0 - Second\<bar> \<le> 2 * effective_tolerance 0"
proof -
  have "Verify (\<lambda>k m. m) (Sign (\<lambda>k m. m) Map.empty ''k'' 0 ''b'') ''k'' ''b'' now 0 = None" if "now \<in> {0, Second}" for now
    using that by (intro Verify_Sign)
      (auto simp: representable_def Time_Sub_def MinDuration_def MaxDuration_def DefaultTolerance_def Second_def)
  then show ?thesis by (intro replay_window) (auto simp: DefaultTolerance_def MaxDuration_def Second_def)
qed

text \<open>
  C23: what a tenant's reply must be.  A reply is accepted only from status 200, complete and of at most
  16 KiB, with a screen that fits and with the two spellings of no state made one.
\<close>

theorem accepted_reply:
  assumes "Deliver d now t payload = (Inr reply, sent)"
  shows "FitsScreen (resp_Body (rp_Response reply)) \<and> NormaliseState (rp_State reply) = rp_State reply \<and>
    (\<exists>req resp. sent = Some req \<and> dp_Do d req = Inr resp \<and> hp_StatusCode resp = 200 \<and>
       length (hp_Body resp) \<le> 16384 \<and> hp_ReadError resp = None)"
  using assms
proof (rule Deliver_Inr)
  fix body resp
  assume "sent = Some (build_request d now t body)" "dp_Do d (build_request d now t body) = Inr resp"
    "decode_reply d t resp = Inr reply"
  then show ?thesis using decode_reply_Inr [of d t resp reply] by (auto simp: maxTenantResponseBytes_def)
qed

theorem accepted_reply_witness: "FitsScreen (resp_Body (rp_Response sample_reply))"
proof -
  obtain req where "Deliver sample_dispatcher 0 sample_root (ex_Request (sample_exchange [] 1 None)) = (Inr sample_reply, Some req)"
    using sample_Deliver_sent by blast
  from accepted_reply [OF this] show ?thesis by blast
qed

section \<open>Sessions\<close>

text \<open>
  C18: the sweeper is invisible.  In a history whose clock does not run backwards, leaving out every sweep,
  whenever it ran and in whatever order it visited the keys, changes no result any caller gets.
\<close>

theorem sweeper_invisible:
  assumes "sorted (map fst ops)"
  shows "fst (mem_run ops m) = fst (mem_run (filter (\<lambda>(t, oper). \<not> is_evict oper) ops) m)"
proof (cases ops)
  case (Cons op rest)
  with assms have "\<forall>t \<in> set (map fst ops). fst op \<le> t" by auto
  from mem_run_sweeps [OF assms this same_from_refl] show ?thesis .
qed simp

theorem sweeper_invisible_witness:
  "fst (mem_run [(0, OpSave (sample_session 1 None)), (5, OpEvict [''n:s'']), (6, OpLoad (event_key (sample_event [])))] (NewMemory []))
   = fst (mem_run [(0, OpSave (sample_session 1 None)), (6, OpLoad (event_key (sample_event [])))] (NewMemory []))"
  using sweeper_invisible [of "[(0, OpSave (sample_session 1 None)), (5, OpEvict [''n:s'']), (6, OpLoad (event_key (sample_event [])))]"]
  by simp

text \<open>
  C29: the invariant of the store.  Whatever was done to it, every item stands under the key of its own
  session, the key is valid, and the item expires one lifetime after it was saved.
\<close>

theorem memory_invariant: "mem_inv (snd (mem_run ops (NewMemory opts)))"
  by (rule mem_inv_run [OF mem_inv_NewMemory])

section \<open>Who is believed\<close>



section \<open>The Africa's Talking adapter\<close>

text \<open>
  C25: a callback is read back as it was sent.  The form a conforming client encodes from a session, a
  number, a code and a list of segments without stars parses to the event with exactly these segments.
\<close>

theorem callback_roundtrip:
  assumes "hr_Method r = ''POST''" "hr_BodyError r = None" "length (hr_Body r) \<le> maxBodyBytes"
    "hr_Body r = encode_form [(''sessionId'', sid), (''phoneNumber'', CHR ''+'' # num), (''serviceCode'', code), (''text'', join ''*'' segs)]"
    "TrimSpace sid = sid" "TrimSpace (CHR ''+'' # num) = CHR ''+'' # num" "TrimSpace code = code"
    "sid \<noteq> []" "length sid \<le> 128" "\<forall>seg \<in> set segs. CHR ''*'' \<notin> set seg" "segs \<noteq> [[]]"
  shows "\<exists>ev. AT_Parse now r = Inr ev \<and> ev_SessionID ev = sid \<and> ev_MSISDN ev = CHR ''+'' # num \<and>
    ev_Shortcode ev = code \<and> ev_Path ev = segs \<and> (ev_Phase ev = PhaseBegin \<longleftrightarrow> segs = [])"
proof -
  let ?form = "[(''sessionId'', sid), (''phoneNumber'', CHR ''+'' # num), (''serviceCode'', code), (''text'', join ''*'' segs)]"
  let ?ev = "AT_event now (hr_Body r) ?form"
  have "ParseQuery (hr_Body r) = Some ?form" unfolding assms(4) by (rule ParseQuery_encode_form)
  moreover have "wf_event ?ev" using assms(5,6,8,9) by (simp add: wf_AT_event Values_Get_def)
  ultimately have parse: "AT_Parse now r = Inr ?ev" by (rule AT_Parse_ok [OF assms(1,3,2)])
  have path: "ev_Path ?ev = segs"
    using splitPath_join [OF assms(10,11)] by (simp add: AT_event_def Values_Get_def Let_def)
  have "ev_SessionID ?ev = sid" "ev_MSISDN ?ev = CHR ''+'' # num" "ev_Shortcode ?ev = code"
    using assms(5-7) by (simp_all add: AT_event_def Values_Get_def Let_def normaliseMSISDN_def)
  with parse path AT_event_path(2) [of now "hr_Body r" ?form] show ?thesis by simp
qed

theorem callback_roundtrip_witness:
  "\<exists>ev. AT_Parse 0 (sample_request (encode_form [(''sessionId'', ''s''), (''phoneNumber'', ''+1''),
     (''serviceCode'', ''*1#''), (''text'', ''1**2'')])) = Inr ev \<and> ev_Path ev = [''1'', [], ''2'']"
  using callback_roundtrip [of "sample_request (encode_form [(''sessionId'', ''s''), (''phoneNumber'', ''+1''),
     (''serviceCode'', ''*1#''), (''text'', ''1**2'')])" "''s''" "''1''" "''*1#''" "[''1'', [], ''2'']" 0]
  by (auto simp: sample_request_def encode_form_def encode_pair_def unreserved_def is_digit_def maxBodyBytes_def TrimSpace_plain)

text \<open>
  C40: what the adapter rejects.  A callback yields an event exactly when it is a POST of at most 64 KiB that
  arrived whole, its form parses, and it names a session of at most 128 bytes and a number: no input a
  subscriber types can make it fail.
\<close>

theorem callback_accepted:
  "(\<exists>ev. AT_Parse now r = Inr ev) \<longleftrightarrow>
     hr_Method r = ''POST'' \<and> length (hr_Body r) \<le> maxBodyBytes \<and> hr_BodyError r = None \<and>
     (\<exists>form. ParseQuery (hr_Body r) = Some form \<and> TrimSpace (Values_Get form ''sessionId'') \<noteq> [] \<and>
        length (TrimSpace (Values_Get form ''sessionId'')) \<le> 128 \<and> TrimSpace (Values_Get form ''phoneNumber'') \<noteq> [])"
  using AT_Parse_iff [of now r] wf_AT_event by blast

section \<open>The screen toolkit\<close>

text \<open>
  C36: every page fits.  Each page of a text fits a screen beside the reserved cost, shows something, and
  does not begin with white space.
\<close>

theorem pages_fit:
  assumes "0 \<le> reserve" "p \<in> set (Paginate body reserve)"
  shows "fits_within (nat reserve) (runes p) \<and> FitsScreen p \<and> runes p \<noteq> [] \<and> \<not> IsSpace (hd (runes p))"
proof -
  have "p \<in> set (Paginate_loop (runes (TrimSpace body)) reserve 0)"
    using assms(2) by (auto simp: Paginate_def split: if_splits)
  note page = Paginate_pages [OF assms(1) this]
  then have "fits_within 0 (runes p)" by (simp add: fits_within_def)
  with page show ?thesis by (simp add: FitsScreen_runes)
qed

theorem pages_fit_witness: "\<exists>p \<in> set (Paginate ''hi'' 0). FitsScreen p"
proof -
  obtain p where p: "p \<in> set (Paginate ''hi'' 0)" using Paginate_hi by blast
  from pages_fit [OF order_refl p] p show ?thesis by blast
qed

text \<open>
  C14: no text is lost between pages.  With at most 68 units reserved, the pages show all the characters of
  the text that are not white space, in order and once.
\<close>

theorem pages_show_everything:
  assumes "0 \<le> reserve" "reserve \<le> 68"
  shows "concat (map (\<lambda>p. filter (\<lambda>r. \<not> IsSpace r) (runes p)) (Paginate body reserve)) =
    filter (\<lambda>r. \<not> IsSpace r) (runes body)"
  using Paginate_content [OF assms, of "TrimSpace body" 0] assms
  by (simp add: Paginate_def MaxUCS2Units_def MaxScreen_def MaxSeptets_def runes_TrimSpace_visible)

theorem pages_show_everything_witness:
  "concat (map (\<lambda>p. filter (\<lambda>r. \<not> IsSpace r) (runes p)) (Paginate ''a b'' 40)) = [0x61, 0x62]"
  by (subst pages_show_everything) (simp_all add: runes_ascii IsSpace_def)

text \<open>
  C37: a menu under a title that fits, fits; it shows an initial part of the options under their own keys,
  each on one line, and all of them in full when they fit.
\<close>

theorem menu_fits:
  assumes "FitsScreen title"
  shows "FitsScreen (Menu title items) \<and>
    (\<exists>shown. Menu title items = title @ concat (map line shown) \<and> prefix (map mi_Key shown) (map mi_Key items)) \<and>
    (FitsScreen (title @ concat (map line items)) \<longrightarrow> Menu title items = title @ concat (map line items))"
  using FitsScreen_Menu_loop [OF assms] Menu_loop_rows [of title items] Menu_loop_all [of title items]
  by (simp add: Menu_def)

theorem menu_fits_witness: "FitsScreen (Menu ''hi'' [\<lparr>mi_Key = ''1'', mi_Label = ''Go''\<rparr>])"
  using menu_fits [OF FitsScreen_hi] by blast

text \<open>
  C15: no way back is lost.  When a title and a footer fit together, the menu is the title, the first items
  and the whole footer; it fits, and no more of the items would.
\<close>

theorem footer_always_shown:
  assumes "FitsScreen (title @ concat (map line footer))"
  shows "\<exists>n \<le> length items. MenuFit title items footer =
      (title @ concat (map line (take n items)) @ concat (map line footer), n) \<and>
    FitsScreen (fst (MenuFit title items footer)) \<and>
    n = (GREATEST m. m \<le> length items \<and> FitsScreen (title @ concat (map line (take m items)) @ concat (map line footer)))"
proof -
  let ?f = "concat (map line footer)"
  define n where "n = snd (MenuFit_loop ?f title 0 items)"
  have fit: "MenuFit title items footer = MenuFit_loop ?f title 0 items" using assms by (simp add: MenuFit_def Let_def)
  have result: "MenuFit title items footer = (title @ concat (map line (take n items)) @ ?f, n)" "n \<le> length items"
    using MenuFit_loop_result [of ?f title 0 items] by (simp_all add: fit n_def)
  have fits: "FitsScreen (fst (MenuFit title items footer))" unfolding fit by (rule FitsScreen_MenuFit_loop [OF assms])
  have "n = (GREATEST m. m \<le> length items \<and> FitsScreen (title @ concat (map line (take m items)) @ ?f))"
  proof (rule Greatest_equality [symmetric])
    show "n \<le> length items \<and> FitsScreen (title @ concat (map line (take n items)) @ ?f)" using result fits by simp
    fix m assume "m \<le> length items \<and> FitsScreen (title @ concat (map line (take m items)) @ ?f)"
    then show "m \<le> n" using MenuFit_loop_most [of title m items footer 0] by (simp add: n_def)
  qed
  with result fits show ?thesis by (intro exI [of _ n]) simp
qed

theorem footer_always_shown_witness:
  "\<exists>n \<le> 0. MenuFit ''hi'' [] [\<lparr>mi_Key = ''0'', mi_Label = ''B''\<rparr>] = (''hi'' @ line \<lparr>mi_Key = ''0'', mi_Label = ''B''\<rparr>, n)"
  using footer_always_shown [of "''hi''" "[\<lparr>mi_Key = ''0'', mi_Label = ''B''\<rparr>]" "[]"] FitsScreen_hi_back by auto

section \<open>Starting the gateway\<close>

text \<open>
  C33: what a configuration that loads guarantees.  The file was read and parsed, every variable it refers to
  is set, and after the defaults the store is one of the two there are, with an address if it is Redis and a
  lifetime that is not zero, there is a tenant, and an adapter is enabled; a reference to a variable that is
  not set stops the start, and all of them are named.
\<close>

theorem config_loaded:
  assumes "map_order order"
  shows "(case Load read_file parse env decode order path of
      Inr c \<Rightarrow> sc_Backend (cf_Session c) \<in> {''memory'', ''redis''} \<and>
        (sc_Backend (cf_Session c) = ''redis'' \<longrightarrow> sc_RedisURL (cf_Session c) \<noteq> []) \<and> sc_TTL (cf_Session c) \<noteq> 0 \<and>
        cf_Listen c \<noteq> [] \<and> cf_Tenants c \<noteq> [] \<and>
        (finite (Mapping.keys (cf_Adapters c)) \<longrightarrow> (\<exists>n a. Mapping.lookup (cf_Adapters c) n = Some a \<and> ac_Enabled a)) \<and>
        (\<exists>raw doc. read_file path = Inr raw \<and> parse raw = Inr doc \<and> list_all (\<lambda>n. env n \<noteq> None) (node_names doc))
    | Inl err \<Rightarrow> True) \<and>
    (read_file path = Inr raw \<longrightarrow> parse raw = Inr doc \<longrightarrow> n \<in> set (node_names doc) \<longrightarrow> env n = None \<longrightarrow>
      (\<exists>names. Load read_file parse env decode order path = Inl (UnsetVariables names) \<and>
         set names = {m \<in> set (node_names doc). env m = None}))"
proof -
  have "case Load read_file parse env decode order path of
      Inr c \<Rightarrow> sc_Backend (cf_Session c) \<in> {''memory'', ''redis''} \<and>
        (sc_Backend (cf_Session c) = ''redis'' \<longrightarrow> sc_RedisURL (cf_Session c) \<noteq> []) \<and> sc_TTL (cf_Session c) \<noteq> 0 \<and>
        cf_Listen c \<noteq> [] \<and> cf_Tenants c \<noteq> [] \<and>
        (finite (Mapping.keys (cf_Adapters c)) \<longrightarrow> (\<exists>n a. Mapping.lookup (cf_Adapters c) n = Some a \<and> ac_Enabled a)) \<and>
        (\<exists>raw doc. read_file path = Inr raw \<and> parse raw = Inr doc \<and> list_all (\<lambda>n. env n \<noteq> None) (node_names doc))
    | Inl err \<Rightarrow> True"
  proof (cases "Load read_file parse env decode order path")
    case (Inr c)
    from Load_Inr [OF Inr] obtain raw doc c0 where l: "read_file path = Inr raw" "parse raw = Inr doc"
      "\<forall>n \<in> set (node_names doc). env n \<noteq> None" "c = applyDefaults c0" "Config_Validate order c = None" .
    note valid = Config_Validate_None [OF l(5)]
    have "cf_Listen c \<noteq> []" "sc_TTL (cf_Session c) \<noteq> 0"
      unfolding l(4) by (rule applyDefaults_Listen, rule applyDefaults_TTL)
    with Inr l(1-3) valid enabled_count_pos [OF assms, of "cf_Adapters c"] show ?thesis
      by (auto simp: list_all_iff)
  qed simp
  moreover have "\<exists>names. Load read_file parse env decode order path = Inl (UnsetVariables names) \<and>
         set names = {m \<in> set (node_names doc). env m = None}"
    if "read_file path = Inr raw" "parse raw = Inr doc" "n \<in> set (node_names doc)" "env n = None"
    using Load_missing [of read_file path raw parse doc n env] that by blast
  ultimately show ?thesis by blast
qed

theorem config_loaded_witness: "\<exists>n a. Mapping.lookup (cf_Adapters sample_config) n = Some a \<and> ac_Enabled a"
proof -
  have "finite (Mapping.keys (cf_Adapters sample_config))" by (simp add: sample_config_def sample_keys)
  with config_loaded [OF map_order_sample, where read_file = "\<lambda>_. Inr ''x''" and parse = "\<lambda>_. Inr (Scalar ''x'')" and
      env = "\<lambda>_. None" and decode = "\<lambda>_. Inr sample_config" and path = "''p''"]
  show ?thesis by (simp add: sample_Load)
qed

text \<open>
  C34: how the process ends.  However the listening goes, the process fails to start exactly as its assembly
  does and otherwise ends as the listening ended; and at its end the store it had opened is released, the
  sweeper stopped or its connection closed.  When no store was opened, a connection that was made, to a server
  that then did not answer, has been closed, and the same connection, not another.
\<close>

theorem process_ends:
  assumes "\<And>cfg store router reg s. same_store store (fst (snd (serve cfg store router reg s)))"
    "main_run order url connect av serve loaded s = (result, backend, s')"
  shows "(case assemble order url connect av loaded s of
      Inl err \<Rightarrow> result = Some (StartFailed err)
    | Inr (store, router, reg) \<Rightarrow> \<exists>cfg s1. loaded = Inr cfg \<and> result = stopped (fst (serve cfg store router reg s1))) \<and>
    (case backend of
      Some store \<Rightarrow> released (started_client connect loaded) store s'
    | None \<Rightarrow> (\<exists>err. result = Some (StartFailed err)) \<and>
        s' = (case started_client connect loaded of None \<Rightarrow> s | Some c \<Rightarrow> snd (rc_Close c s)))"
proof
  show "case assemble order url connect av loaded s of
      Inl err \<Rightarrow> result = Some (StartFailed err)
    | Inr (store, router, reg) \<Rightarrow> \<exists>cfg s1. loaded = Inr cfg \<and> result = stopped (fst (serve cfg store router reg s1))"
    using main_run_result [of order url connect av serve loaded s] assms(2)
    by (cases loaded) (auto simp: assemble_def split: sum.splits)
next
  show "case backend of
      Some store \<Rightarrow> released (started_client connect loaded) store s'
    | None \<Rightarrow> (\<exists>err. result = Some (StartFailed err)) \<and>
        s' = (case started_client connect loaded of None \<Rightarrow> s | Some c \<Rightarrow> snd (rc_Close c s))"
  proof (cases backend)
    case None
    from main_run_unopened [OF assms(2) [unfolded None]] show ?thesis by (simp add: None)
  next
    case (Some store)
    from main_run_releases [where serve = serve, OF assms(1) assms(2) [unfolded Some]] show ?thesis by (simp add: Some)
  qed
qed

theorem process_ends_witness:
  "\<exists>m. main_run sample_order sample_url (\<lambda>_. Inl []) sample_available (\<lambda>cfg store router reg s. (ShutDown None, store, s))
      (Inr sample_config) () = (None, Some (MemoryBackend m), ()) \<and> mem_stopped m"
proof -
  let ?serve = "\<lambda>cfg store router reg s. (ShutDown None, store, s)"
  let ?run = "main_run sample_order sample_url (\<lambda>_. Inl []) sample_available ?serve (Inr sample_config) ()"
  obtain result backend u where run: "?run = (result, backend, u)" by (rule prod_cases3)
  have "sc_Backend (cf_Session sample_config) \<noteq> ''redis''" by (simp add: sample_config_def)
  then obtain m where "backend = Some (MemoryBackend m)"
    using run by (auto simp: main_run_def main_open_def backend_Close_def newSessionStore_def split: sum.splits)
  with process_ends [OF _ run] run show ?thesis by (simp add: sample_assemble same_store_refl stopped_def released_def)
qed

section \<open>The fediverse application\<close>

text \<open>
  C6: the application always answers.  In any dialogue, whatever the instance replies, whatever is typed and
  whatever state the codec brings back, a turn returns a screen that fits; no index is ever out of range.
\<close>

theorem fediverse_answers:
  assumes "newApp lower client = Inr app" "keeps_screens cd app" "codec_keeps fs_safe cd" "stored_state lower cd app stored"
  shows "\<exists>resp out. Turn lower cd app ev turn stored = Inr (resp, out) \<and> FitsScreen (resp_Body resp)"
proof -
  have "takes_input app (ap_start app)" using newApp_takes_input [OF assms(1)] newApp_simps(2) [OF assms(1)] by simp
  from dialogue_answers(2) [OF assms(4) newApp_simps(1) [OF assms(1)] this assms(2) fediverse_serves [OF assms(1)] assms(3)]
  show ?thesis .
qed

theorem fediverse_answers_witness:
  "\<exists>app resp out. newApp (\<lambda>r. r) (\<lambda>_ _. Inr []) = Inr app \<and>
     Turn (\<lambda>r. r) feed_codec app (sample_event [''1'']) 2 None = Inr (resp, out) \<and> FitsScreen (resp_Body resp)"
proof -
  obtain app where app: "newApp (\<lambda>r. r) (\<lambda>_ _. Inr []) = Inr app" using newApp_ok by blast
  from fediverse_answers [OF app feed_codec_ok stored_none] app show ?thesis by blast
qed

text \<open>
  C35: a post is shown whole.  Its pages, in order, show every character of its text that is not white space,
  once, whatever the author and the language.
\<close>

theorem post_shown_whole:
  assumes "cx_bundle c = Some fediverse_bundle" "postPages lower c = Inr pages"
    "0 \<le> fs_Cursor (cx_State c)" "fs_Cursor (cx_State c) < int (length (fs_Posts (cx_State c)))"
  shows "concat (map (\<lambda>p. filter (\<lambda>r. \<not> IsSpace r) (runes p)) pages) =
    filter (\<lambda>r. \<not> IsSpace r) (runes (po_Text (fs_Posts (cx_State c) ! nat (fs_Cursor (cx_State c)))))"
  by (rule post_content [OF assms])

theorem post_shown_whole_witness:
  "concat (map (\<lambda>p. filter (\<lambda>r. \<not> IsSpace r) (runes p)) [replicate 5 (CHR ''a'')]) =
     filter (\<lambda>r. \<not> IsSpace r) (runes (replicate 5 (CHR ''a'')))"
  using post_shown_whole [OF feed_context_simps(1) [of "''bob''"] feed_pages] by (simp add: feed_context_simps)

text \<open>
  C20: a page of a post, with its author and its controls, fits the screen as it is, so that nothing of it is
  cut, when the author's line is in the basic alphabet and the post has at most 99 pages.
\<close>

theorem post_fits_screen:
  assumes "cx_bundle c = Some fediverse_bundle" "postPages lower c = Inr pages" "length pages \<le> 99"
    "0 \<le> fs_Page (cx_State c)" "fs_Page (cx_State c) < int (length pages)"
    "set (runes (Label (po_Author (fs_Posts (cx_State c) ! nat (fs_Cursor (cx_State c)))) maxHeaderLen ''Post'')) \<subseteq> set gsm7Basic"
    "renderPost lower c = (Inr body, c')"
  shows "FitsScreen body \<and> Shrink body = body"
  using post_screen_fits [OF assms] by (simp add: Shrink_def)

theorem post_fits_screen_witness: "\<exists>body c'. renderPost (\<lambda>r. r) (feed_context ''bob'') = (Inr body, c') \<and> FitsScreen body"
proof -
  have "set (runes (Label ''bob'' maxHeaderLen ''Post'')) \<subseteq> set gsm7Basic"
    by (simp add: author_line_bob runes_ascii gsm7Basic_def)
  moreover obtain body c' where "renderPost (\<lambda>r. r) (feed_context ''bob'') = (Inr body, c')"
    using renderPost_safe [of "feed_context ''bob''" "\<lambda>r. r"] by (auto simp: fs_safe_def feed_context_simps)
  ultimately show ?thesis
    using post_fits_screen [OF feed_context_simps(1) feed_pages] by (auto simp: feed_context_simps)
qed

text \<open>
  C21: the timeline takes exactly the keys it shows.  The screen lists an initial part of the posts, numbered
  from one, above the way out; from the state it leaves, an input other than the way out opens a post exactly
  when it is the number of one of the listed posts, and it opens that post at its first page.
\<close>

theorem timeline_keys:
  assumes "FitsScreen (timeline_title lower c @ concat (map line (timeline_footer lower c)))"
    "timeline_Prompt lower c = (Inr screen, c')" "inp \<noteq> ''0''"
  shows "\<exists>k \<le> length (fs_Posts (cx_State c)).
    screen = timeline_title lower c @ concat (map (line \<circ> post_item) (take k (enumerate 0 (fs_Posts (cx_State c)))))
      @ concat (map line (timeline_footer lower c)) \<and>
    (timeline_Handle lower c' inp = (Inr (Goto ''post''), c'') \<longleftrightarrow>
      (\<exists>n. Atoi (TrimSpace inp) = Some n \<and> 1 \<le> n \<and> n \<le> int k \<and>
         c'' = c'\<lparr>cx_State := (cx_State c')\<lparr>fs_Cursor := n - 1, fs_Page := 0\<rparr>\<rparr>))"
proof -
  note sh = timeline_shows [OF assms(1,2)]
  then have "int (nat (fs_Listed (cx_State c'))) = fs_Listed (cx_State c')"
    "nat (fs_Listed (cx_State c')) \<le> length (fs_Posts (cx_State c))" by auto
  with sh timeline_takes [OF assms(3), of lower c' c''] show ?thesis
    by (intro exI [of _ "nat (fs_Listed (cx_State c'))"]) auto
qed

theorem timeline_keys_witness:
  "\<exists>k \<le> 1. \<exists>screen c'. timeline_Prompt (\<lambda>r. r) ((feed_context ''bob'')\<lparr>cx_bundle := None\<rparr>) = (Inr screen, c') \<and>
     screen = ''timeline.title'' @ concat (map (line \<circ> post_item) (take k (enumerate 0 (fs_Posts (cx_State (feed_context ''bob''))))))
       @ concat (map line [\<lparr>mi_Key = ''0'', mi_Label = ''menu.quit''\<rparr>])"
proof -
  let ?c = "(feed_context ''bob'')\<lparr>cx_bundle := None\<rparr>"
  have parts: "timeline_title (\<lambda>r. r) ?c = ''timeline.title''" "timeline_footer (\<lambda>r. r) ?c = [\<lparr>mi_Key = ''0'', mi_Label = ''menu.quit''\<rparr>]"
    by (simp_all add: timeline_title_def timeline_footer_def Context_T_def Bundle_T_def Context_Notice_def feed_context_def brace_context_def)
  have fits: "FitsScreen (timeline_title (\<lambda>r. r) ?c @ concat (map line (timeline_footer (\<lambda>r. r) ?c)))"
    unfolding parts FitsScreen_runes runes_append_lines
    by (subst fits_basic) (simp_all add: runes_line runes_OneLine runes_ascii line_break_def gsm7Basic_def MaxSeptets_def)
  obtain screen c' where prompt: "timeline_Prompt (\<lambda>r. r) ?c = (Inr screen, c')"
    by (simp add: timeline_Prompt_def case_prod_beta Let_def)
  from timeline_keys [OF fits prompt, of "''9''"] show ?thesis
    unfolding parts using prompt by (auto simp: feed_context_simps)
qed

text \<open>
  C27: the controls lead somewhere.  On a page of a post, the first and the second key change the page exactly
  when the screen offers next and previous, and the last one always leads back to the timeline.
\<close>

theorem post_controls:
  assumes "postPages lower c = Inr pages" "pages \<noteq> []" "0 \<le> fs_Page (cx_State c)" "fs_Page (cx_State c) < int (length pages)"
  shows "(\<exists>body. renderPost lower c = (Inr (body @ navigation lower c (offered (fs_Page (cx_State c)) (int (length pages)))), c)) \<and>
    ((\<exists>c'. post_Handle lower c ''1'' = (Inr (Goto ''post''), c')) \<longleftrightarrow>
      ''nav.next'' \<in> set (offered (fs_Page (cx_State c)) (int (length pages)))) \<and>
    ((\<exists>c'. post_Handle lower c ''2'' = (Inr (Goto ''post''), c')) \<longleftrightarrow>
      ''nav.prev'' \<in> set (offered (fs_Page (cx_State c)) (int (length pages)))) \<and>
    post_Handle lower c ''0'' = (Inr (Goto ''timeline''), c)"
  using renderPost_page [OF assms] post_Handle_controls [OF assms(1)] assms(3) by simp

theorem post_controls_witness: "\<nexists>c'. post_Handle (\<lambda>r. r) (feed_context ''bob'') ''2'' = (Inr (Goto ''post''), c')"
  using post_controls [OF feed_pages] by (simp add: feed_context_simps offered_def)

text \<open>
  C31: what a dialogue may weigh.  In every dialogue of the program as it starts, over whatever instance and at
  whatever time, the state holds posts of at most 900 bytes of text each, cut between characters and never inside
  one, no index in it is negative, and the program answers only requests signed with a secret that is not empty.
  The replies of the instance are read by a decoder whose strings are valid UTF-8, as those of JSON are, HTML
  entities stand for valid characters, and the codec of the state keeps texts that are valid.
\<close>

theorem dialogue_posts_bounded:
  assumes "fediverse_run lower remote_at clock env lf gf = Inr (listen, h)" "\<And>c. reads_utf8 (remote_at c)"
    "keeps_screens cd (hd_app h)" "codec_keeps (\<lambda>s. fs_safe s \<and> posts_capped s) cd"
    "stored_state lower cd (hd_app h) stored"
  shows "list_all (\<lambda>p. length (po_Text p) \<le> 900 \<and> valid_utf8 (po_Text p)) (fs_Posts (sa_App (restored cd (hd_app h) stored))) \<and>
    0 \<le> fs_Cursor (sa_App (restored cd (hd_app h) stored)) \<and> 0 \<le> fs_Page (sa_App (restored cd (hd_app h) stored)) \<and>
    hd_secret h \<noteq> []"
  using fediverse_dialogue(1) [OF assms] fediverse_run_handler [OF assms(1)] by (auto simp: posts_capped_def fs_safe_def)

theorem dialogue_posts_bounded_witness:
  "\<exists>listen h. fediverse_run (\<lambda>r. r) (\<lambda>_. sample_remote) (\<lambda>_. 0) (\<lambda>_. ''k'') None None = Inr (listen, h) \<and>
     list_all (\<lambda>p. length (po_Text p) \<le> 900 \<and> valid_utf8 (po_Text p)) (fs_Posts (sa_App (restored feed_codec (hd_app h) None)))"
proof -
  obtain listen h where run: "fediverse_run (\<lambda>r. r) (\<lambda>_. sample_remote) (\<lambda>_. 0) (\<lambda>_. ''k'') None None = Inr (listen, h)"
    using sample_fediverse_run by blast
  from dialogue_posts_bounded [OF run sample_remote_utf8 feed_codec_ok(1) feed_codec_capped stored_none] run show ?thesis by blast
qed

section \<open>The handset\<close>

text \<open>
  C28: a screen is always drawn.  Wrapping ends for every display with a width, no line is wider than the
  display, and the lines show all the characters of the screen that are not white space, in order.
\<close>

theorem handset_wrap:
  assumes "0 < width"
  shows "\<exists>ls. wrap s width = Some ls \<and> list_all (\<lambda>x. length (runes x) \<le> width) ls \<and>
    concat (map (\<lambda>x. filter (\<lambda>r. \<not> IsSpace r) (runes x)) ls) = filter (\<lambda>r. \<not> IsSpace r) (runes s)"
  using wrap_result [OF assms, of s] by (simp add: list_all_iff)

theorem handset_wrap_witness: "\<exists>ls. wrap ''abc'' 2 = Some ls \<and> list_all (\<lambda>x. length (runes x) \<le> 2) ls"
  using handset_wrap [of 2 "''abc''"] by auto

text \<open>
  C7: the handset shows the application.  A run of the handset over a gateway that answers it, against a tenant
  whose application is built with the SDK, ends without an error.  It sends the lines typed, each after those
  before it, until one of the screens ends the dialogue, and draws exactly the screens of the application run
  on its own on these events.  Clocks go on from request to request; of the JSON codec between handset and
  gateway it is only asked that it carries the requests that are sent and the screens of the application.
\<close>

theorem handset_shows_application:
  assumes "map_order order" "NewRouter url order tenants = Inr router"
    "handle_run memory_store router turns (NewMemory opts) = (exs, m)"
    "k = \<lparr>key_MNO = Simulator_Name, key_SessionID = sim_session_id unix r\<rparr>" "\<And>now sess. Memory_Load now k m \<noteq> Inr sess"
    "dials (client (sim_endpoint g)) order report reg memory_store router dsp at ids"
    "mounted order reg ''/ussd/simulator'' = Some (Simulator_Adapter decode encode)"
    "ussdsim client g unix r msisdn shortcode inputs (m, n) = (log, w')"
    "\<bar>unix\<bar> < 2 ^ 63" "r < 10000" "msisdn \<noteq> []" "list_all (\<lambda>inp. CHR ''*'' \<notin> set inp) inputs"
    "\<And>req. req \<in> set (rl_Sent log) \<Longrightarrow> speaks_request (client (sim_endpoint g)) decode req"
    "steps = sim_steps (client (sim_endpoint g)) dsp clk at n (filter alive (rl_Sent log))"
    "carried lb h t router k msisdn (mem_ttl m) None 1 None steps"
    "\<And>resp. Inr resp \<in> set (app_run lb (hd_app h) (map (\<lambda>(_, _, _, ev). routed_to t ev) steps) 1 None) \<Longrightarrow>
      speaks_screen (client (sim_endpoint g)) encode resp"
  shows "rl_Error log = None \<and>
    filter alive (rl_Sent log) = take (length (rl_Drawn log)) (typed (sim_session_id unix r) msisdn shortcode [] PhaseBegin inputs) \<and>
    (length (rl_Drawn log) = Suc (length inputs) \<or> resp_EndSession (last (rl_Drawn log))) \<and>
    app_run lb (hd_app h) (map (\<lambda>(_, _, _, ev). routed_to t ev) steps) 1 None = map Inr (rl_Drawn log)"
proof -
  note names = named_routes_NewRouter [OF assms(1,2)]
  from memory.history.run_inv [OF memory_session_inv [of "{}"] names assms(3) [unfolded memory_store_def]]
  obtain past where inv: "memory.history.session_inv past m" ..
  have "memory.live now m k = None" for now
    using assms(5) [of now] by (auto simp: memory.live_def split: sum.split)
  then have fresh: "memory.place m t k msisdn None 1 None" by (rule memory.place_none)
  have valid: "Key_Validate k = None"
    using sim_session_id_bounds [OF assms(9,10)] by (simp add: assms(4) Key_Validate_def Simulator_Name_def)
  from memory.conversation [OF inv names memory_reliable fresh valid assms(15)] obtain resps where
    run: "gateway_run memory_store router steps m = map Inr resps"
      "app_run lb (hd_app h) (map (\<lambda>(_, _, _, ev). routed_to t ev) steps) 1 None = map Inr resps"
    unfolding memory_store_def by blast
  then have screens: "speaks_screen (client (sim_endpoint g)) encode resp" if "resp \<in> set resps" for resp
    using assms(16) that by auto
  have "\<forall>inp \<in> set inputs. CHR ''*'' \<notin> set inp" using assms(12) by (simp add: list_all_iff)
  from handset_over_gateway [OF assms(6,7) assms(8) [unfolded ussdsim_def] assms(9-11) this assms(13)
      run(1) [unfolded assms(14)] screens]
  have drawn: "rl_Drawn log = resps" "rl_Error log = None" by simp_all
  have "\<not> Phase_Terminal PhaseBegin" by (simp add: Phase_Terminal_def phase_defs)
  from dial_typed(1,3) [OF assms(8) [unfolded ussdsim_def] this drawn(2)] show ?thesis using drawn run(2) by simp
qed

theorem handset_shows_application_witness:
  "\<exists>w'. ussdsim (\<lambda>_. call_handset) ''g'' 7 1 ''+1'' ''*1#'' [''1''] (NewMemory [], 0) = (call_log, w') \<and>
     app_run (hello_libraries call_base) (hd_app hello_handler)
       (map (\<lambda>(_, _, _, ev). routed_to sample_root ev) (hello_steps call_base ''b'' ''c'')) 1 None = map Inr (rl_Drawn call_log)"
proof -
  obtain w' where run: "ussdsim (\<lambda>_. call_handset) ''g'' 7 1 ''+1'' ''*1#'' [''1''] (NewMemory [], 0) = (call_log, w')"
    using call_dial by blast
  have "\<not> Phase_Terminal (sim_Phase (call_request path))" for path
    by (simp add: call_request_def phase_defs Phase_Terminal_def)
  then have "filter alive (rl_Sent call_log) = [call_request [], call_request [''1'']]" by (simp add: call_log_def)
  then have steps: "hello_steps call_base ''b'' ''c'' =
      sim_steps call_handset (\<lambda>n. hello_dispatcher call_base (hello_clock n)) hello_clock hello_at 0 (filter alive (rl_Sent call_log))"
    by (simp only: call_steps)
  have speaks: "speaks_request call_handset call_decode req" if "req \<in> set (rl_Sent call_log)" for req
    using that call_link(3) by (auto simp: call_log_def)
  from handset_shows_application [where turns = "[]", OF map_order_sample sample_NewRouter handle_run.simps(1) refl call_fresh
      call_link(1,4) run _ _ _ _ speaks steps call_carried call_link(2)] run
  show ?thesis by simp
qed

end
